(* ===== verification/Prelude.thy ===== *)
theory Prelude
  imports Main "HOL-Library.Char_ord" "HOL-Library.List_Lexorder"
begin

text \<open>
  What every component of the development shares.

  A Go string is a sequence of bytes and is modelled as a \<open>string\<close> (a list of HOL's
  8-bit characters); Go's \<open><\<close> on strings compares bytes lexicographically, which is the
  order of \<open>HOL-Library.List_Lexorder\<close> over \<open>HOL-Library.Char_ord\<close>.  A Go function
  that returns an error is a function into \<open>error + 'a\<close>; \<open>bind_res\<close> is the chain of
  \<open>if err != nil { return err }\<close>.
\<close>

subsection \<open>Results\<close>

definition bind_res :: "'e + 'a \<Rightarrow> ('a \<Rightarrow> 'e + 'b) \<Rightarrow> 'e + 'b" where
  "bind_res r f = (case r of Inl e \<Rightarrow> Inl e | Inr x \<Rightarrow> f x)"

lemma bind_res_simps [simp]:
  "bind_res (Inl e) f = Inl e"
  "bind_res (Inr x) f = f x"
  by (simp_all add: bind_res_def)

lemma bind_res_eq_Inr: "bind_res r f = Inr y \<longleftrightarrow> (\<exists>x. r = Inr x \<and> f x = Inr y)"
  by (cases r) auto

lemma bind_res_eq_Inl: "bind_res r f = Inl e \<longleftrightarrow> r = Inl e \<or> (\<exists>x. r = Inr x \<and> f x = Inl e)"
  by (cases r) auto

lemma bind_res_assoc: "bind_res (bind_res r f) g = bind_res r (\<lambda>x. bind_res (f x) g)"
  by (cases r) auto

subsection \<open>The byte order on strings\<close>

lemma lex_same_prefix [simp]: "(p @ x < p @ y) = (x < y)" for x y :: string
  by (induction p) auto

lemma Nil_less_iff [simp]: "[] < v \<longleftrightarrow> v \<noteq> []" for v :: string
  by (cases v) auto

lemma lex_extend: "v \<noteq> [] \<Longrightarrow> u < u @ v" for u v :: string
  by (induction u) (auto simp: neq_Nil_conv)

lemma lex_at: "c < d \<Longrightarrow> p @ c # u < p @ d # v" for p u v :: string
  by simp

text \<open>
  Two strings of which neither is a prefix of the other keep their order whatever is
  appended to them.
\<close>

lemma lex_less_append:
  fixes x y u v :: string
  assumes "x < y" "length x = length y"
  shows "x @ u < y @ v"
  using assms
proof (induction x arbitrary: y)
  case (Cons a x)
  then obtain b z where "y = b # z" by (cases y) auto
  with Cons show ?case by auto
qed simp

lemma lex_append_less_same_length:
  fixes x y u :: string
  assumes "x < y" "length x = length y"
  shows "x @ u < y"
  using lex_less_append [OF assms, of u "[]"] by simp

lemma lex_less_cases:
  fixes x y :: string
  assumes "x < y"
  obtains (prefix) c s where "y = x @ c # s"
  | (diff) p c d u v where "x = p @ c # u" "y = p @ d # v" "c < d"
  using assms
proof (induction x arbitrary: y thesis)
  case Nil
  then show ?case by (cases y) auto
next
  case (Cons a x)
  from Cons.prems(3) obtain b z where y: "y = b # z"
    by (cases y) auto
  with Cons.prems(3) consider "a < b" | "a = b" "x < z" by auto
  then show ?case
  proof cases
    case 1
    with y show ?thesis using Cons.prems(2) [of "[]" a x b z] by simp
  next
    case 2
    show ?thesis
    proof (rule Cons.IH [of z, OF _ _ 2(2)])
      fix c s assume "z = x @ c # s"
      with y 2(1) show ?thesis using Cons.prems(1) by simp
    next
      fix p c d u v assume "x = p @ c # u" "z = p @ d # v" "c < d"
      with y 2(1) show ?thesis using Cons.prems(2) [of "b # p" c u d v] by simp
    qed
  qed
qed

subsection \<open>Sending a command to a server\<close>

text \<open>
  A command runs and its reply arrives, or it does not run, or it runs and the reply is lost.
  Nothing is sent twice: retries are off.
\<close>

datatype 'e delivery = Delivered | NotRun 'e | ReplyLost 'e

definition send :: "'e delivery \<Rightarrow> ('r \<Rightarrow> 'a \<times> 'r) \<Rightarrow> 'r \<Rightarrow> ('e + 'a) \<times> 'r" where
  "send d f r =
     (case d of
        Delivered \<Rightarrow> (let (a, r') = f r in (Inr a, r'))
      | NotRun e \<Rightarrow> (Inl e, r)
      | ReplyLost e \<Rightarrow> (Inl e, snd (f r)))"

end
