(* ===== verification/Fracdex.thy ===== *)
theory Fracdex
  imports Prelude
begin

text \<open>
  The order keys of \<open>backend/internal/fracdex/fracdex.go\<close>: base62 strings between any two
  of which there is always another one.  Every function of the package is a definition here;
  the functions that index a string return \<open>IndexOutOfRange\<close> where Go would panic, so that
  "no run-time panic" is something the theorems show rather than something the model hides.
\<close>

subsection \<open>Constants and errors\<close>

datatype key_error = ErrInvalidKey | ErrNotAscending | ErrExhausted | IndexOutOfRange

definition digits :: string where
  "digits = ''0123456789ABCDEFGHIJKLMNOPQRSTUVWXYZabcdefghijklmnopqrstuvwxyz''"

definition first_key :: string where
  "first_key = ''a0''"

definition smallest_integer :: string where
  "smallest_integer = ''A00000000000000000000000000''"

text \<open>\<open>strings.IndexByte\<close>: the position of the first occurrence, or \<open>-1\<close>.\<close>

fun index_byte :: "string \<Rightarrow> char \<Rightarrow> int" where
  "index_byte [] c = -1"
| "index_byte (x # xs) c =
     (if x = c then 0 else let i = index_byte xs c in if i < 0 then -1 else i + 1)"

text \<open>\<open>digits[i]\<close>, with the panic Go raises outside the string.\<close>

definition digit_at :: "int \<Rightarrow> key_error + char" where
  "digit_at i = (if 0 \<le> i \<and> i < int (length digits) then Inr (digits ! nat i)
                 else Inl IndexOutOfRange)"

subsection \<open>Cutting a key into integer and fraction\<close>

definition integer_width :: "char \<Rightarrow> key_error + nat" where
  "integer_width header =
     (if CHR ''a'' \<le> header \<and> header \<le> CHR ''z''
      then Inr (of_char header - of_char (CHR ''a'') + 2)
      else if CHR ''A'' \<le> header \<and> header \<le> CHR ''Z''
      then Inr (of_char (CHR ''Z'') - of_char header + 2)
      else Inl ErrInvalidKey)"

text \<open>\<open>strings.HasSuffix(fraction, "0")\<close>.\<close>

definition ends_in_zero :: "string \<Rightarrow> bool" where
  "ends_in_zero f \<longleftrightarrow> f \<noteq> [] \<and> last f = CHR ''0''"

definition split_key :: "string \<Rightarrow> key_error + string \<times> string" where
  "split_key key =
     (case key of
        [] \<Rightarrow> Inl ErrInvalidKey
      | header # _ \<Rightarrow>
          if key = smallest_integer then Inl ErrInvalidKey
          else bind_res (integer_width header) (\<lambda>width.
            if width > length key then Inl ErrInvalidKey
            else if \<exists>c \<in> set key. index_byte digits c < 0 then Inl ErrInvalidKey
            else if ends_in_zero (drop width key) then Inl ErrInvalidKey
            else Inr (take width key, drop width key)))"

definition split_bound :: "string \<Rightarrow> key_error + string \<times> string" where
  "split_bound key = (if key = [] then Inr ([], []) else split_key key)"

definition validate :: "string \<Rightarrow> key_error + unit" where
  "validate key = bind_res (split_key key) (\<lambda>_. Inr ())"

subsection \<open>Stepping the integer part\<close>

text \<open>
  The carry loop runs over the body from its last byte to its first; these two functions
  take the body reversed and return whether the carry (borrow) is still pending.
\<close>

fun carry_up :: "string \<Rightarrow> bool \<times> string" where
  "carry_up [] = (True, [])"
| "carry_up (d # ds) =
     (let next = index_byte digits d + 1 in
      if next = int (length digits)
      then (case carry_up ds of (carry, r) \<Rightarrow> (carry, digits ! 0 # r))
      else (False, digits ! nat next # ds))"

definition increment :: "string \<Rightarrow> key_error + string" where
  "increment integer =
     (case integer of
        [] \<Rightarrow> Inl IndexOutOfRange
      | header # rest \<Rightarrow>
          (case carry_up (rev rest) of (carry, r) \<Rightarrow>
             let body = rev r in
             if \<not> carry then Inr (header # body)
             else if header = CHR ''Z'' then Inr first_key
             else if header = CHR ''z'' then Inl ErrExhausted
             else let header' = char_of (of_char header + 1 :: nat) in
               if header' > CHR ''a'' then Inr (header' # body @ [digits ! 0])
               else if body = [] then Inl IndexOutOfRange
               else Inr (header' # butlast body)))"

fun borrow_down :: "string \<Rightarrow> bool \<times> string" where
  "borrow_down [] = (True, [])"
| "borrow_down (d # ds) =
     (let next = index_byte digits d - 1 in
      if next < 0
      then (case borrow_down ds of (borrow, r) \<Rightarrow> (borrow, digits ! (length digits - 1) # r))
      else (False, digits ! nat next # ds))"

definition decrement :: "string \<Rightarrow> key_error + string" where
  "decrement integer =
     (case integer of
        [] \<Rightarrow> Inl IndexOutOfRange
      | header # rest \<Rightarrow>
          (case borrow_down (rev rest) of (borrow, r) \<Rightarrow>
             let body = rev r; final = digits ! (length digits - 1) in
             if \<not> borrow then Inr (header # body)
             else if header = CHR ''a'' then Inr [CHR ''Z'', final]
             else if header = CHR ''A'' then Inl ErrExhausted
             else let header' = char_of (of_char header + 255 :: nat) in
               if header' < CHR ''Z'' then Inr (header' # body @ [final])
               else if body = [] then Inl IndexOutOfRange
               else Inr (header' # butlast body)))"

subsection \<open>Subdividing a fraction\<close>

definition leading_digit :: "string \<Rightarrow> int" where
  "leading_digit fraction = (case fraction of [] \<Rightarrow> 0 | c # _ \<Rightarrow> index_byte digits c)"

definition drop_digits :: "string \<Rightarrow> nat \<Rightarrow> string" where
  "drop_digits fraction n = (if n \<ge> length fraction then [] else drop n fraction)"

fun common_prefix_len :: "string \<Rightarrow> string \<Rightarrow> nat" where
  "common_prefix_len a [] = 0"
| "common_prefix_len [] (d # b) = (if CHR ''0'' = d then Suc (common_prefix_len [] b) else 0)"
| "common_prefix_len (c # a) (d # b) = (if c = d then Suc (common_prefix_len a b) else 0)"

function midpoint_after :: "string \<Rightarrow> key_error + string" where
  "midpoint_after a =
     (let low = leading_digit a in
      if low < int (length digits) - 1
      then bind_res (digit_at ((low + int (length digits) + 1) div 2)) (\<lambda>c. Inr [c])
      else bind_res (digit_at low) (\<lambda>c.
             bind_res (midpoint_after (drop_digits a 1)) (\<lambda>r. Inr (c # r))))"
  by pat_completeness auto
termination
proof (relation "measure length")
  fix a :: string and low :: int and c
  assume "low = leading_digit a" "\<not> low < int (length digits) - 1"
  then have "a \<noteq> []" by (auto simp: leading_digit_def digits_def)
  then show "(drop_digits a 1, a) \<in> measure length"
    by (cases a) (auto simp: drop_digits_def)
qed simp

declare midpoint_after.simps [simp del]

lemma common_prefix_len_le: "common_prefix_len a b \<le> length b"
  by (induction a b rule: common_prefix_len.induct) auto

function midpoint :: "string \<Rightarrow> string \<Rightarrow> key_error + string" where
  "midpoint a b =
     (let shared = common_prefix_len a b in
      if shared > 0
      then bind_res (midpoint (drop_digits a shared) (drop shared b)) (\<lambda>m.
             Inr (take shared b @ m))
      else case b of
          [] \<Rightarrow> Inl IndexOutOfRange
        | b0 # rest \<Rightarrow>
            let low = leading_digit a; high = index_byte digits b0 in
            if high - low > 1
            then bind_res (digit_at ((low + high + 1) div 2)) (\<lambda>c. Inr [c])
            else if length b > 1 then Inr (take 1 b)
            else bind_res (digit_at low) (\<lambda>c.
                   bind_res (midpoint_after (drop_digits a 1)) (\<lambda>r. Inr (c # r))))"
  by pat_completeness auto
termination
proof (relation "measure (\<lambda>(a, b). length b)")
  fix a b :: string and shared
  assume "shared = common_prefix_len a b" "0 < shared"
  then show "((drop_digits a shared, drop shared b), a, b) \<in> measure (\<lambda>(a, b). length b)"
    using common_prefix_len_le [of a b] by auto
qed simp

declare midpoint.simps [simp del]

subsection \<open>The operations\<close>

definition before_key :: "string \<Rightarrow> string \<Rightarrow> key_error + string" where
  "before_key integer fraction =
     (if integer = smallest_integer
      then bind_res (midpoint [] fraction) (\<lambda>m. Inr (integer @ m))
      else if fraction \<noteq> [] then Inr integer
      else bind_res (decrement integer) (\<lambda>stepped.
        if stepped = smallest_integer
        then bind_res (midpoint_after []) (\<lambda>m. Inr (stepped @ m))
        else Inr stepped))"

text \<open>
  \<open>after\<close> ignores which error \<open>increment\<close> returned; a panic of \<open>increment\<close> is not an
  error value in Go, so it is passed on.
\<close>

definition after_key :: "string \<Rightarrow> string \<Rightarrow> key_error + string" where
  "after_key integer fraction =
     (case increment integer of
        Inl IndexOutOfRange \<Rightarrow> Inl IndexOutOfRange
      | Inl _ \<Rightarrow> bind_res (midpoint_after fraction) (\<lambda>m. Inr (integer @ m))
      | Inr stepped \<Rightarrow> Inr stepped)"

definition between :: "string \<Rightarrow> string \<Rightarrow> key_error + string" where
  "between prev next =
     bind_res (split_bound prev) (\<lambda>(prev_int, prev_frac).
     bind_res (split_bound next) (\<lambda>(next_int, next_frac).
       if prev \<noteq> [] \<and> next \<noteq> [] \<and> prev \<ge> next then Inl ErrNotAscending
       else if prev = [] \<and> next = [] then Inr first_key
       else if prev = [] then before_key next_int next_frac
       else if next = [] then after_key prev_int prev_frac
       else if prev_int = next_int
       then bind_res (midpoint prev_frac next_frac) (\<lambda>m. Inr (prev_int @ m))
       else bind_res (increment prev_int) (\<lambda>stepped.
         if stepped < next then Inr stepped
         else bind_res (midpoint_after prev_frac) (\<lambda>m. Inr (prev_int @ m)))))"

end
