(* ===== verification/Fracdex_Order.thy ===== *)
theory Fracdex_Order
  imports Fracdex
begin

text \<open>
  Facts about the order keys of \<open>Fracdex\<close>: the digit alphabet is ordered like its indices,
  stepping an integer part moves it strictly and inverts, and the midpoint of two fractions
  lies strictly between them.
\<close>

subsection \<open>The digit alphabet\<close>

lemma index_byte_neg: "index_byte s c < 0 \<longleftrightarrow> c \<notin> set s"
  by (induction s) (auto simp: Let_def split: if_splits)

lemma index_byte_nonneg [simp]: "0 \<le> index_byte s c \<longleftrightarrow> c \<in> set s"
  using index_byte_neg [of s c] by linarith

lemma index_byte_absent [simp]: "c \<notin> set s \<Longrightarrow> index_byte s c = -1"
  by (induction s) (auto simp: Let_def)

lemma index_byte_bound: "index_byte s c < int (length s)"
  by (induction s) (auto simp: Let_def)

lemma index_byte_nth: "distinct s \<Longrightarrow> n < length s \<Longrightarrow> index_byte s (s ! n) = int n"
proof (induction s arbitrary: n)
  case (Cons x s)
  show ?case
  proof (cases n)
    case (Suc m)
    with Cons.prems have "s ! m \<in> set s" "m < length s" by auto
    with Cons Suc show ?thesis by (auto simp: Let_def)
  qed simp
qed simp

lemma nth_index_byte: "c \<in> set s \<Longrightarrow> s ! nat (index_byte s c) = c"
proof (induction s)
  case (Cons x s)
  show ?case
  proof (cases "x = c")
    case False
    with Cons have "c \<in> set s" by auto
    with Cons False have "nat (index_byte s c + 1) = Suc (nat (index_byte s c))"
      by (simp add: Suc_nat_eq_nat_zadd1)
    with Cons False \<open>c \<in> set s\<close> show ?thesis
      by (simp add: Let_def index_byte_neg)
  qed simp
qed simp

lemma length_digits [simp]: "length digits = 62"
  by (simp add: digits_def)

lemma digits_sorted: "sorted_wrt (<) digits"
  by code_simp

lemma digits_distinct [simp]: "distinct digits"
  using digits_sorted by (simp add: strict_sorted_iff)

abbreviation idx :: "char \<Rightarrow> int" where
  "idx \<equiv> index_byte digits"

lemma idx_nth [simp]: "n < 62 \<Longrightarrow> idx (digits ! n) = int n"
  by (simp add: index_byte_nth)

lemma idx_bound: "idx c < 62"
  using index_byte_bound [of digits c] by simp

lemma idx_less: "c \<in> set digits \<Longrightarrow> d \<in> set digits \<Longrightarrow> idx c < idx d \<longleftrightarrow> c < d"
proof -
  assume c: "c \<in> set digits" and d: "d \<in> set digits"
  obtain i j where ij: "i < 62" "c = digits ! i" "j < 62" "d = digits ! j"
    using c d by (auto simp: in_set_conv_nth)
  have "(digits ! i < digits ! j) = (i < j)"
  proof (cases i j rule: linorder_cases)
    case less
    then show ?thesis using ij digits_sorted by (simp add: sorted_wrt_nth_less)
  next
    case greater
    then have "digits ! j < digits ! i"
      using ij digits_sorted by (simp add: sorted_wrt_nth_less)
    with greater show ?thesis by auto
  qed simp
  with ij show ?thesis by simp
qed

lemma digit_at_in: "0 \<le> i \<Longrightarrow> i < 62 \<Longrightarrow> digit_at i = Inr (digits ! nat i)"
  by (simp add: digit_at_def)

lemma nth_digits_in [simp]: "n < 62 \<Longrightarrow> digits ! n \<in> set digits"
  by (simp add: nth_mem)

lemma zero_first: "digits ! 0 = CHR ''0''" "idx (CHR ''0'') = 0" "CHR ''0'' \<in> set digits"
  by (simp_all add: digits_def)

lemma last_digit: "digits ! 61 = CHR ''z''" "idx (CHR ''z'') = 61" "CHR ''z'' \<in> set digits"
  by (simp_all add: digits_def nth_Cons')

lemma idx_zero_iff: "c \<in> set digits \<Longrightarrow> idx c = 0 \<longleftrightarrow> c = CHR ''0''"
  using nth_index_byte [of c digits] zero_first by auto

lemma idx_last_iff: "c \<in> set digits \<Longrightarrow> idx c = 61 \<longleftrightarrow> c = CHR ''z''"
  using nth_index_byte [of c digits] last_digit by auto

lemma zero_least: "c \<in> set digits \<Longrightarrow> CHR ''0'' \<le> c"
  using idx_less [of c "CHR ''0''"] zero_first by (auto simp: not_less [symmetric] index_byte_neg)


subsection \<open>Fractions\<close>

text \<open>A fraction as \<open>split_key\<close> accepts it: digits only, no trailing zero.\<close>

definition good_frac :: "string \<Rightarrow> bool" where
  "good_frac f \<longleftrightarrow> set f \<subseteq> set digits \<and> \<not> ends_in_zero f"

lemma good_frac_Nil [simp]: "good_frac []"
  by (simp add: good_frac_def ends_in_zero_def)

lemma good_frac_single [simp]: "good_frac [c] \<longleftrightarrow> c \<in> set digits \<and> c \<noteq> CHR ''0''"
  by (auto simp: good_frac_def ends_in_zero_def)

lemma good_frac_append:
  "v \<noteq> [] \<Longrightarrow> good_frac (u @ v) \<longleftrightarrow> set u \<subseteq> set digits \<and> good_frac v"
  by (auto simp: good_frac_def ends_in_zero_def)

lemma good_frac_Cons:
  "v \<noteq> [] \<Longrightarrow> good_frac (c # v) \<longleftrightarrow> c \<in> set digits \<and> good_frac v"
  using good_frac_append [of v "[c]"] by simp

lemma good_frac_drop_digits: "good_frac a \<Longrightarrow> good_frac (drop_digits a n)"
  using good_frac_append [of "drop n a" "take n a"] by (auto simp: drop_digits_def)

lemma drop_digits_Cons [simp]: "drop_digits (c # a) (Suc n) = drop_digits a n"
  by (simp add: drop_digits_def)

lemma drop_digits_0 [simp]: "drop_digits a 0 = a"
  by (simp add: drop_digits_def)

lemma drop_digits_Nil [simp]: "drop_digits [] n = []"
  by (simp add: drop_digits_def)

text \<open>The digit strictly between two indices that the code picks by rounding their mean up.\<close>

lemma mean_digit:
  assumes "0 \<le> low" "low + 1 < high" "high \<le> 62"
  obtains c where "digit_at ((low + high + 1) div 2) = Inr c" "c \<in> set digits"
    "low < idx c" "idx c < high"
proof
  let ?i = "(low + high + 1) div 2"
  have i: "low < ?i" "?i < high" using assms by linarith+
  then show "digit_at ?i = Inr (digits ! nat ?i)"
    using assms by (simp add: digit_at_in)
  show "digits ! nat ?i \<in> set digits" "low < idx (digits ! nat ?i)" "idx (digits ! nat ?i) < high"
    using i assms by auto
qed

lemma midpoint_after_above:
  "set a \<subseteq> set digits \<Longrightarrow>
    \<exists>m. midpoint_after a = Inr m \<and> m \<noteq> [] \<and> good_frac m \<and> a < m"
proof (induction a rule: midpoint_after.induct)
  case (1 a)
  let ?low = "leading_digit a"
  have low: "0 \<le> ?low" "?low < 62"
    using 1 idx_bound by (auto simp: leading_digit_def split: list.splits)
  show ?case
  proof (cases "?low < 61")
    case True
    then obtain c where c: "digit_at ((?low + 62 + 1) div 2) = Inr c" "c \<in> set digits"
        "?low < idx c"
      using mean_digit [of ?low 62] low by auto
    with low(1) have "c \<noteq> CHR ''0''" using zero_first by auto
    moreover have "a < [c]"
      using c 1 by (cases a) (auto simp: leading_digit_def idx_less)
    ultimately show ?thesis
      using True c by (simp add: midpoint_after.simps [of a])
  next
    case False
    with low have lead: "?low = 61" by linarith
    then obtain b where a: "a = CHR ''z'' # b"
      using "1.prems" by (cases a) (auto simp: leading_digit_def idx_last_iff)
    have "\<exists>m. midpoint_after (drop_digits a 1) = Inr m \<and> m \<noteq> [] \<and> good_frac m \<and>
        drop_digits a 1 < m"
      using "1.IH" [OF refl] "1.prems" False a by (auto simp: last_digit digit_at_in)
    then obtain m where m: "midpoint_after b = Inr m" "m \<noteq> []" "good_frac m" "b < m"
      using a by auto
    have "midpoint_after a = Inr (CHR ''z'' # m)"
      using m by (simp add: a midpoint_after.simps [of "CHR ''z'' # b"] leading_digit_def
          last_digit digit_at_in)
    with m a show ?thesis by (simp add: good_frac_Cons last_digit)
  qed
qed

lemma common_prefix_take:
  "n = common_prefix_len a b \<Longrightarrow> n \<le> length a \<Longrightarrow> a = take n b @ drop_digits a n"
  by (induction a b arbitrary: n rule: common_prefix_len.induct) (auto split: if_splits)

lemma common_prefix_pad:
  "n = common_prefix_len a b \<Longrightarrow> length a < n \<Longrightarrow>
    take n b = a @ replicate (n - length a) (CHR ''0'')"
proof (induction a b arbitrary: n rule: common_prefix_len.induct)
  case (2 d b)
  then show ?case
  proof (cases "common_prefix_len [] b")
    case (Suc k)
    with 2 show ?thesis by (auto split: if_splits)
  qed (auto split: if_splits)
qed (auto split: if_splits)

lemma common_prefix_zero:
  assumes "common_prefix_len a (b0 # b) = 0" "a < b0 # b" "b0 \<in> set digits" "set a \<subseteq> set digits"
  shows "leading_digit a < idx b0"
proof (cases a)
  case Nil
  with assms have "b0 \<noteq> CHR ''0''" by auto
  with Nil assms show ?thesis
    using idx_zero_iff [of b0] index_byte_nonneg [of digits b0]
    by (auto simp: leading_digit_def simp del: index_byte_nonneg)
next
  case (Cons c a')
  with assms show ?thesis by (auto simp: leading_digit_def idx_less split: if_splits)
qed


lemma midpoint_step_shared:
  assumes n: "n = common_prefix_len a b" and "good_frac a" "good_frac b" "b \<noteq> []" "a < b"
  shows "good_frac (drop n b)" "drop n b \<noteq> []" "drop_digits a n < drop n b"
    "\<And>m. drop_digits a n < m \<Longrightarrow> a < take n b @ m"
proof -
  have nb: "n \<le> length b" using n by (simp add: common_prefix_len_le)
  have b: "b = take n b @ drop n b" by simp
  consider "n \<le> length a" "a = take n b @ drop_digits a n"
    | "length a < n" "take n b = a @ replicate (n - length a) (CHR ''0'')"
    using common_prefix_take [OF n] common_prefix_pad [OF n] by linarith
  then have "drop n b \<noteq> [] \<and> drop_digits a n < drop n b \<and>
      (\<forall>m. drop_digits a n < m \<longrightarrow> a < take n b @ m)"
  proof cases
    case 1
    have "take n b @ drop_digits a n < take n b @ drop n b"
      using assms(5) 1(2) b by metis
    then have "drop_digits a n < drop n b" by (simp only: lex_same_prefix)
    moreover have "a < take n b @ m" if "drop_digits a n < m" for m
      using that 1(2) by (metis lex_same_prefix)
    ultimately show ?thesis by auto
  next
    case 2
    have "drop n b \<noteq> []"
    proof
      assume "drop n b = []"
      with 2 b have "b = a @ replicate (n - length a) (CHR ''0'')" by simp
      with 2(1) have "ends_in_zero b" by (simp add: ends_in_zero_def)
      with assms(3) show False by (simp add: good_frac_def)
    qed
    moreover have "drop_digits a n = []" using 2(1) by (simp add: drop_digits_def)
    moreover have "a < take n b @ m" for m using 2 by (simp add: lex_extend)
    ultimately show ?thesis by auto
  qed
  then show "drop n b \<noteq> []" "drop_digits a n < drop n b"
    "\<And>m. drop_digits a n < m \<Longrightarrow> a < take n b @ m" by auto
  with assms(3) show "good_frac (drop n b)"
    by (metis append_take_drop_id good_frac_append)
qed

lemma midpoint_between:
  "good_frac a \<Longrightarrow> good_frac b \<Longrightarrow> b \<noteq> [] \<Longrightarrow> a < b \<Longrightarrow>
    \<exists>m. midpoint a b = Inr m \<and> m \<noteq> [] \<and> good_frac m \<and> a < m \<and> m < b"
proof (induction a b rule: midpoint.induct)
  case (1 a b)
  define n where "n = common_prefix_len a b"
  show ?case
  proof (cases "n > 0")
    case True
    note step = midpoint_step_shared [OF n_def "1.prems"]
    from "1.IH" [OF n_def True good_frac_drop_digits [OF "1.prems"(1)] step(1-3)]
    obtain m where m: "midpoint (drop_digits a n) (drop n b) = Inr m" "m \<noteq> []" "good_frac m"
      "drop_digits a n < m" "m < drop n b" by blast
    have "midpoint a b = Inr (take n b @ m)"
      using True m(1) by (simp add: midpoint.simps [of a b] n_def)
    moreover have "set (take n b) \<subseteq> set digits"
      using "1.prems"(2) set_take_subset by (fastforce simp: good_frac_def)
    moreover have "take n b @ m < b"
      using m(5) by (metis append_take_drop_id lex_same_prefix)
    ultimately show ?thesis using m(2,3) step(4) [OF m(4)] by (simp add: good_frac_append)
  next
    case False
    then have zero: "common_prefix_len a b = 0" by (simp add: n_def)
    from "1.prems"(3) obtain b0 rest where b: "b = b0 # rest" by (cases b) auto
    have digs: "set a \<subseteq> set digits" "b0 \<in> set digits"
      using "1.prems"(1,2) b by (auto simp: good_frac_def)
    let ?low = "leading_digit a"
    have low: "0 \<le> ?low" "?low < idx b0"
      using digs common_prefix_zero [of a b0 rest] zero b "1.prems"(4)
      by (auto simp: leading_digit_def split: list.splits)
    have high: "idx b0 \<le> 62" using idx_bound [of b0] by simp
    show ?thesis
    proof (cases "idx b0 - ?low > 1")
      case True
      with low obtain c where c: "digit_at ((?low + idx b0 + 1) div 2) = Inr c"
          "c \<in> set digits" "?low < idx c" "idx c < idx b0"
        using mean_digit [of ?low "idx b0"] high by auto
      have "c \<noteq> CHR ''0''" using c(3) low(1) zero_first by auto
      moreover have "a < [c]"
        using c digs by (cases a) (auto simp: leading_digit_def idx_less)
      moreover have "[c] < b" using c digs b by (auto simp: idx_less)
      ultimately show ?thesis
        using True c zero b by (simp add: midpoint.simps [of a "b0 # rest"])
    next
      case near: False
      with low have low_eq: "idx b0 = ?low + 1" by simp
      show ?thesis
      proof (cases "rest = []")
        case False
        have "b0 \<noteq> CHR ''0''" using low_eq low zero_first by auto
        moreover have "a < [b0]"
          using low digs by (cases a) (auto simp: leading_digit_def idx_less)
        ultimately show ?thesis
          using False near zero b digs by (simp add: midpoint.simps [of a "b0 # rest"])
      next
        case True
        have low62: "?low < 62" using low_eq high by simp
        have "set (drop_digits a 1) \<subseteq> set digits"
          using good_frac_drop_digits [OF "1.prems"(1)] by (simp add: good_frac_def)
        from midpoint_after_above [OF this] obtain r where
          r: "midpoint_after (drop_digits a 1) = Inr r" "r \<noteq> []" "good_frac r"
            "drop_digits a 1 < r" by blast
        let ?c = "digits ! nat ?low"
        have c: "?c \<in> set digits" "idx ?c = ?low" using low(1) low62 by auto
        have "a < ?c # r"
        proof (cases a)
          case (Cons d a')
          then have "?c = d" using digs by (simp add: leading_digit_def nth_index_byte)
          with Cons r(4) show ?thesis by simp
        qed simp
        moreover have "?c # r < b" using c low(2) b digs idx_less [of ?c b0] by simp
        ultimately show ?thesis
          using r near zero b True low low62 c
          by (simp add: midpoint.simps [of a "[b0]"] digit_at_in good_frac_Cons)
      qed
    qed
  qed
qed

end
