(* ===== verification/Fracdex_Integer.thy ===== *)
theory Fracdex_Integer
  imports Fracdex_Order
begin

text \<open>
  The integer part of an order key denotes an integer: \<open>int_value\<close> reads its header and its
  base62 digits.  \<open>increment\<close> adds one, \<open>decrement\<close> subtracts one, and the byte order of
  integer parts is the order of their values, so stepping a key is arithmetic.
\<close>

subsection \<open>Values\<close>

text \<open>The value of a digit string given with its last digit first.\<close>

fun rev_value :: "string \<Rightarrow> int" where
  "rev_value [] = 0"
| "rev_value (d # ds) = idx d + 62 * rev_value ds"

text \<open>\<open>62 + 62^2 + ... + 62^n\<close>: how many integers are shorter than one with \<open>n + 1\<close> digits.\<close>

fun power_sum :: "nat \<Rightarrow> int" where
  "power_sum 0 = 0"
| "power_sum (Suc n) = power_sum n + 62 ^ Suc n"

text \<open>The value of the smallest integer a header introduces.\<close>

definition header_base :: "char \<Rightarrow> int" where
  "header_base h =
     (if CHR ''a'' \<le> h then power_sum (of_char h - of_char (CHR ''a''))
      else - power_sum (of_char (CHR ''Z'') - of_char h + 1))"

definition int_value :: "string \<Rightarrow> int" where
  "int_value i = header_base (hd i) + rev_value (rev (tl i))"

text \<open>An integer part as \<open>split_key\<close> accepts it.\<close>

definition good_int :: "string \<Rightarrow> bool" where
  "good_int i \<longleftrightarrow> i \<noteq> [] \<and> integer_width (hd i) = Inr (length i) \<and> set (tl i) \<subseteq> set digits"

definition header_width :: "char \<Rightarrow> nat" where
  "header_width h = (case integer_width h of Inr w \<Rightarrow> w | Inl _ \<Rightarrow> 0)"

subsection \<open>Headers\<close>

abbreviation is_header :: "char \<Rightarrow> bool" where
  "is_header h \<equiv> integer_width h = Inr (header_width h)"

lemma is_header_cases:
  assumes "is_header h"
  obtains (lower) m where "of_char h = (97 + m :: nat)" "m \<le> 25" "CHR ''a'' \<le> h"
      "header_width h = m + 2" "header_base h = power_sum m"
  | (upper) k where "of_char h = (90 - k :: nat)" "k \<le> 25" "\<not> CHR ''a'' \<le> h"
      "header_width h = k + 2" "header_base h = - power_sum (Suc k)"
proof -
  consider "CHR ''a'' \<le> h" "h \<le> CHR ''z''" | "\<not> CHR ''a'' \<le> h" "CHR ''A'' \<le> h" "h \<le> CHR ''Z''"
    using assms by (auto simp: integer_width_def less_eq_char_def split: if_splits)
  then show ?thesis
  proof cases
    case 1
    then show ?thesis
      by (intro lower [of "of_char h - 97"])
        (auto simp: integer_width_def header_width_def header_base_def less_eq_char_def)
  next
    case 2
    then show ?thesis
      by (intro upper [of "90 - of_char h"])
        (auto simp: integer_width_def header_width_def header_base_def less_eq_char_def)
  qed
qed

lemma integer_width_Inr: "integer_width h = Inr w \<Longrightarrow> is_header h \<and> w = header_width h"
  by (simp add: header_width_def)

lemma header_width_ge2: "is_header h \<Longrightarrow> 2 \<le> header_width h"
  by (erule is_header_cases) auto

lemma letters_are_digits:
  "set (map char_of [97 ..< 123 :: nat]) \<union> set (map char_of [65 ..< 91 :: nat]) \<subseteq> set digits"
  by code_simp

lemma header_is_digit:
  assumes "is_header h"
  shows "h \<in> set digits"
proof -
  have "(of_char h :: nat) \<in> {97 ..< 123} \<union> {65 ..< 91}"
    using assms by (rule is_header_cases) auto
  then have "char_of (of_char h :: nat) \<in>
      set (map char_of [97 ..< 123 :: nat]) \<union> set (map char_of [65 ..< 91 :: nat])"
    unfolding set_map set_upt by blast
  with letters_are_digits show ?thesis by (metis char_of_char subset_iff)
qed

lemma of_char_up [simp]:
  "of_char h < (255 :: nat) \<Longrightarrow> of_char (char_of (of_char h + 1 :: nat)) = (of_char h + 1 :: nat)"
  by simp

lemma of_char_down:
  "0 < (of_char h :: nat) \<Longrightarrow> of_char (char_of (of_char h + 255 :: nat)) = (of_char h - 1 :: nat)"
proof -
  assume "0 < (of_char h :: nat)"
  then have "(of_char h + 255 :: nat) = (of_char h - 1) + 256" by simp
  moreover have "(of_char h :: nat) - 1 < 256"
    using nat_of_char_less_256 [of h] by linarith
  ultimately show ?thesis by (metis mod_add_self2 mod_less of_char_of)
qed

lemma power_sum_mono: "m \<le> n \<Longrightarrow> power_sum m \<le> power_sum n"
  by (rule lift_Suc_mono_le) auto

lemma power_sum_nonneg: "0 \<le> power_sum n"
  by (induction n) auto

lemma header_base_step:
  assumes "is_header h" "is_header h'" "h < h'"
  shows "header_base h + 62 ^ (header_width h - 1) \<le> header_base h'"
  using assms(1)
proof (cases rule: is_header_cases)
  case (lower m)
  from assms(2) show ?thesis
  proof (cases rule: is_header_cases)
    case (lower m')
    with \<open>of_char h = 97 + m\<close> assms(3) have "Suc m \<le> m'" by (simp add: less_char_def)
    from power_sum_mono [OF this] show ?thesis
      using \<open>header_base h = power_sum m\<close> \<open>header_width h = m + 2\<close> lower by simp
  qed (use lower assms(3) in auto)
next
  case (upper k)
  note k = upper
  from assms(2) show ?thesis
  proof (cases rule: is_header_cases)
    case (lower m')
    with k power_sum_nonneg [of k] power_sum_nonneg [of m'] show ?thesis by simp
  next
    case (upper k')
    with k assms(3) have "Suc k' \<le> k" by (simp add: less_char_def)
    from power_sum_mono [OF this] show ?thesis using k upper by simp
  qed
qed


subsection \<open>Digit strings\<close>

lemma rev_value_bounds:
  "set ds \<subseteq> set digits \<Longrightarrow> 0 \<le> rev_value ds \<and> rev_value ds < 62 ^ length ds"
proof (induction ds)
  case (Cons d ds)
  then have "0 \<le> idx d" "idx d \<le> 61" using idx_bound [of d] by auto
  moreover have "0 \<le> rev_value ds" "rev_value ds \<le> 62 ^ length ds - 1" using Cons by auto
  ultimately show ?case by simp
qed simp

lemma rev_value_append: "rev_value (xs @ ys) = rev_value xs + 62 ^ length xs * rev_value ys"
  by (induction xs) (auto simp: algebra_simps)

lemma rev_value_less:
  assumes "x < y" "length x = length y" "set x \<subseteq> set digits" "set y \<subseteq> set digits"
  shows "rev_value (rev x) < rev_value (rev y)"
  using assms(1)
proof (cases rule: lex_less_cases)
  case (prefix c s)
  with assms(2) show ?thesis by simp
next
  case (diff p c d u v)
  then have uv: "length u = length v" using assms(2) by simp
  have "idx c + 1 \<le> idx d" using diff assms(3,4) by (simp add: idx_less [symmetric])
  then have "62 ^ length v * (idx c + 1) \<le> 62 ^ length v * idx d"
    by (simp add: mult_left_mono)
  moreover have "rev_value (rev u) < 62 ^ length v" "0 \<le> rev_value (rev v)"
    using rev_value_bounds [of "rev u"] rev_value_bounds [of "rev v"] diff assms(3,4) uv by auto
  ultimately show ?thesis
    using diff uv by (simp add: rev_value_append algebra_simps)
qed

lemma carry_up_value:
  "set ds \<subseteq> set digits \<Longrightarrow> carry_up ds = (carry, r) \<Longrightarrow>
    length r = length ds \<and> set r \<subseteq> set digits \<and>
    rev_value r = rev_value ds + 1 - (if carry then 62 ^ length ds else 0)"
proof (induction ds arbitrary: carry r)
  case (Cons d ds)
  show ?case
  proof (cases "idx d = 61")
    case True
    with Cons.prems obtain r' where "carry_up ds = (carry, r')" "r = digits ! 0 # r'"
      by (auto simp: Let_def split: prod.splits)
    with Cons.IH [of carry r'] Cons.prems True show ?thesis by auto
  next
    case False
    have "nat (idx d + 1) < 62" using False idx_bound [of d] by linarith
    with Cons.prems False show ?thesis by (auto simp: Let_def)
  qed
qed simp

lemma borrow_down_value:
  "set ds \<subseteq> set digits \<Longrightarrow> borrow_down ds = (borrow, r) \<Longrightarrow>
    length r = length ds \<and> set r \<subseteq> set digits \<and>
    rev_value r = rev_value ds - 1 + (if borrow then 62 ^ length ds else 0)"
proof (induction ds arbitrary: borrow r)
  case (Cons d ds)
  have d: "0 \<le> idx d" "idx d < 62" using Cons.prems idx_bound [of d] by auto
  show ?case
  proof (cases "idx d = 0")
    case True
    with Cons.prems obtain r' where "borrow_down ds = (borrow, r')" "r = digits ! 61 # r'"
      by (auto simp: Let_def split: prod.splits)
    with Cons.IH [of borrow r'] Cons.prems True show ?thesis by auto
  next
    case False
    have "nat (idx d - 1) < 62" "0 < idx d" using d False by linarith+
    with Cons.prems False show ?thesis by (auto simp: Let_def)
  qed
qed simp


subsection \<open>Stepping\<close>

lemma header_lower:
  assumes "of_char h = (97 + m :: nat)" "m \<le> 25"
  shows "integer_width h = Inr (m + 2)" "header_width h = m + 2" "header_base h = power_sum m"
    "CHR ''a'' \<le> h"
  using assms by (auto simp: integer_width_def header_width_def header_base_def less_eq_char_def)

lemma header_upper:
  assumes "of_char h = (90 - k :: nat)" "k \<le> 25"
  shows "integer_width h = Inr (k + 2)" "header_width h = k + 2"
    "header_base h = - power_sum (Suc k)" "\<not> CHR ''a'' \<le> h"
  using assms by (auto simp: integer_width_def header_width_def header_base_def less_eq_char_def)

lemma good_int_Cons:
  "good_int (h # b) \<longleftrightarrow> is_header h \<and> length b = header_width h - 1 \<and> set b \<subseteq> set digits"
  using header_width_ge2 [of h] by (auto simp: good_int_def header_width_def)

lemma good_int_cases:
  assumes "good_int i"
  obtains h b where "i = h # b" "is_header h" "length b = header_width h - 1" "set b \<subseteq> set digits"
  using assms by (cases i) (auto simp: good_int_Cons good_int_def [of "[]"])

lemma int_value_Cons [simp]: "int_value (h # b) = header_base h + rev_value (rev b)"
  by (simp add: int_value_def)

text \<open>The ends of the integer space.\<close>

definition largest_value :: int where
  "largest_value = power_sum 26 - 1"

definition smallest_value :: int where
  "smallest_value = - power_sum 26"

lemma header_space: "is_header h \<Longrightarrow>
    smallest_value \<le> header_base h \<and> header_base h + 62 ^ (header_width h - 1) \<le> largest_value + 1"
proof (erule is_header_cases)
  fix m assume m: "m \<le> 25" and h: "header_width h = m + 2" "header_base h = power_sum m"
  have "power_sum (Suc m) \<le> power_sum 26" using m by (intro power_sum_mono) simp
  then show ?thesis
    using h power_sum_nonneg [of m] power_sum_nonneg [of 26]
    by (simp add: smallest_value_def largest_value_def)
next
  fix k assume k: "k \<le> 25" and h: "header_width h = k + 2" "header_base h = - power_sum (Suc k)"
  have "power_sum (Suc k) \<le> power_sum 26" using k by (intro power_sum_mono) simp
  then show ?thesis
    using h power_sum_nonneg [of k] power_sum_nonneg [of 26]
    by (simp add: smallest_value_def largest_value_def)
qed

lemma int_value_space:
  "good_int i \<Longrightarrow> smallest_value \<le> int_value i \<and> int_value i \<le> largest_value"
proof (erule good_int_cases)
  fix h b assume i: "i = h # b" "is_header h" "length b = header_width h - 1" "set b \<subseteq> set digits"
  with header_space [of h] rev_value_bounds [of "rev b"] show ?thesis by auto
qed

lemma rev_value_tl:
  assumes "r = d # ds" "set r \<subseteq> set digits"
  shows "rev_value r = 0 \<Longrightarrow> rev_value ds = 0"
    and "rev_value r = 62 ^ length r - 1 \<Longrightarrow> rev_value ds = 62 ^ length ds - 1"
proof -
  have d: "0 \<le> idx d" "idx d \<le> 61" using assms idx_bound [of d] by auto
  have ds: "0 \<le> rev_value ds" "rev_value ds \<le> 62 ^ length ds - 1"
    using assms rev_value_bounds [of ds] by auto
  have r: "rev_value r = idx d + 62 * rev_value ds" "62 ^ length r = 62 * (62 ^ length ds :: int)"
    by (simp_all add: assms(1))
  show "rev_value ds = 0" if "rev_value r = 0"
    using that r(1) d ds(1) by linarith
  show "rev_value ds = 62 ^ length ds - 1" if "rev_value r = 62 ^ length r - 1"
    using that r d ds(2) by linarith
qed

lemma of_char_eqI: "(of_char c :: nat) = of_char d \<Longrightarrow> c = d"
  by (metis char_of_char)

lemma increment_step:
  assumes "good_int i"
  shows "(increment i = Inl ErrExhausted \<and> int_value i = largest_value) \<or>
    (\<exists>j. increment i = Inr j \<and> good_int j \<and> int_value j = int_value i + 1)"
  using assms
proof (rule good_int_cases)
  fix h b assume i: "i = h # b" and h: "is_header h" and len: "length b = header_width h - 1"
    and b: "set b \<subseteq> set digits"
  obtain carry r where cr: "carry_up (rev b) = (carry, r)" by force
  with b carry_up_value [of "rev b" carry r] have r: "length r = length b" "set r \<subseteq> set digits"
    "rev_value r = rev_value (rev b) + 1 - (if carry then 62 ^ length b else 0)" by auto
  show ?thesis
  proof (cases carry)
    case False
    with cr i r h len show ?thesis by (simp add: increment_def good_int_Cons)
  next
    case True
    with r rev_value_bounds [of "rev b"] rev_value_bounds [of r] b
    have full: "rev_value (rev b) = 62 ^ length b - 1" and zero: "rev_value r = 0" by auto
    from h show ?thesis
    proof (cases rule: is_header_cases)
      case (lower m)
      show ?thesis
      proof (cases "m = 25")
        case True
        then have "h = CHR ''z''" using lower(1) by (intro of_char_eqI) simp
        then show ?thesis
          using cr i \<open>carry\<close> full lower len True
          by (simp add: increment_def largest_value_def eval_nat_numeral)
      next
        case False
        let ?h = "char_of (of_char h + 1 :: nat)"
        have h': "of_char ?h = (97 + Suc m :: nat)" using lower(1) False \<open>m \<le> 25\<close> by simp
        have m': "Suc m \<le> 25" using False \<open>m \<le> 25\<close> by simp
        have "h \<noteq> CHR ''Z''" "h \<noteq> CHR ''z''" "?h > CHR ''a''"
          using lower False h' by (auto simp: less_char_def)
        then have "increment i = Inr (?h # rev r @ [digits ! 0])"
          using cr i \<open>carry\<close> by (simp add: increment_def)
        moreover have "good_int (?h # rev r @ [digits ! 0])"
          using header_lower [OF h' m'] r len lower zero_first by (simp add: good_int_Cons)
        moreover have "int_value (?h # rev r @ [digits ! 0]) = int_value i + 1"
          using header_lower [OF h' m'] full zero lower len i by (simp add: zero_first)
        ultimately show ?thesis by blast
      qed
    next
      case (upper k)
      show ?thesis
      proof (cases k)
        case 0
        then have "h = CHR ''Z''" using upper(1) by (intro of_char_eqI) simp
        then show ?thesis
          using cr i \<open>carry\<close> full upper len 0
          by (auto simp: increment_def first_key_def good_int_Cons header_width_def
              integer_width_def less_eq_char_def header_base_def zero_first)
      next
        case (Suc k')
        let ?h = "char_of (of_char h + 1 :: nat)"
        have h': "of_char ?h = (90 - k' :: nat)" and k': "k' \<le> 25"
          using upper(1,2) Suc by auto
        obtain d ds where ds: "r = d # ds" "rev_value ds = 0" "set ds \<subseteq> set digits"
            "length ds = Suc k'"
          using rev_value_tl(1) [OF _ r(2) zero] r len upper(4) Suc by (cases r) auto
        have "h \<noteq> CHR ''Z''" "h \<noteq> CHR ''z''" "\<not> ?h > CHR ''a''"
          using upper(1,2) Suc h' by (auto simp: less_char_def)
        then have "increment i = Inr (?h # rev ds)"
          using cr i \<open>carry\<close> ds by (simp add: increment_def)
        moreover have "good_int (?h # rev ds)"
          using header_upper [OF h' k'] ds by (simp add: good_int_Cons)
        moreover have "int_value (?h # rev ds) = int_value i + 1"
          using header_upper [OF h' k'] full ds upper Suc len i by simp
        ultimately show ?thesis by blast
      qed
    qed
  qed
qed


lemma decrement_step:
  assumes "good_int i"
  shows "(decrement i = Inl ErrExhausted \<and> int_value i = smallest_value) \<or>
    (\<exists>j. decrement i = Inr j \<and> good_int j \<and> int_value j = int_value i - 1)"
  using assms
proof (rule good_int_cases)
  fix h b assume i: "i = h # b" and h: "is_header h" and len: "length b = header_width h - 1"
    and b: "set b \<subseteq> set digits"
  obtain borrow r where cr: "borrow_down (rev b) = (borrow, r)" by force
  with b borrow_down_value [of "rev b" borrow r] have r: "length r = length b" "set r \<subseteq> set digits"
    "rev_value r = rev_value (rev b) - 1 + (if borrow then 62 ^ length b else 0)" by auto
  show ?thesis
  proof (cases borrow)
    case False
    with cr i r h len show ?thesis by (simp add: decrement_def good_int_Cons Let_def)
  next
    case True
    with r rev_value_bounds [of "rev b"] rev_value_bounds [of r] b
    have zero: "rev_value (rev b) = 0" and full: "rev_value r = 62 ^ length r - 1" by auto
    from h show ?thesis
    proof (cases rule: is_header_cases)
      case (upper k)
      show ?thesis
      proof (cases "k = 25")
        case True
        then have "h = CHR ''A''" using upper(1) by (intro of_char_eqI) simp
        then show ?thesis
          using cr i \<open>borrow\<close> zero upper len True
          by (simp add: decrement_def smallest_value_def eval_nat_numeral)
      next
        case False
        let ?h = "char_of (of_char h + 255 :: nat)"
        have h': "of_char ?h = (90 - Suc k :: nat)" "Suc k \<le> 25"
          using of_char_down [of h] upper(1,2) False by auto
        have "h \<noteq> CHR ''a''" "h \<noteq> CHR ''A''" "?h < CHR ''Z''"
          using upper False h' by (auto simp: less_char_def)
        then have "decrement i = Inr (?h # rev r @ [digits ! 61])"
          using cr i \<open>borrow\<close> by (simp add: decrement_def Let_def)
        moreover have "good_int (?h # rev r @ [digits ! 61])"
          using header_upper [OF h'] r len upper by (simp add: good_int_Cons last_digit)
        moreover have "int_value (?h # rev r @ [digits ! 61]) = int_value i - 1"
          using header_upper [OF h'] full zero upper len i r by (simp add: last_digit)
        ultimately show ?thesis by blast
      qed
    next
      case (lower m)
      show ?thesis
      proof (cases m)
        case 0
        then have "h = CHR ''a''" using lower(1) by (intro of_char_eqI) simp
        then show ?thesis
          using cr i \<open>borrow\<close> zero lower len 0
          by (auto simp: decrement_def good_int_Cons header_width_def
              integer_width_def less_eq_char_def header_base_def last_digit)
      next
        case (Suc m')
        let ?h = "char_of (of_char h + 255 :: nat)"
        have h': "of_char ?h = (97 + m' :: nat)" "m' \<le> 25"
          using of_char_down [of h] lower(1,2) Suc by auto
        obtain d ds where ds: "r = d # ds" "set ds \<subseteq> set digits"
            "length ds = Suc m'" "rev_value ds = 62 ^ length ds - 1"
          using rev_value_tl(2) [OF _ r(2) full] r len lower(4) Suc by (cases r) auto
        have "h \<noteq> CHR ''a''" "h \<noteq> CHR ''A''" "\<not> ?h < CHR ''Z''"
          using lower(1,2) Suc h' by (auto simp: less_char_def)
        then have "decrement i = Inr (?h # rev ds)"
          using cr i \<open>borrow\<close> ds by (simp add: decrement_def Let_def)
        moreover have "good_int (?h # rev ds)"
          using header_lower [OF h'] ds by (simp add: good_int_Cons)
        moreover have "int_value (?h # rev ds) = int_value i - 1"
          using header_lower [OF h'] zero ds lower Suc i by simp
        ultimately show ?thesis by blast
      qed
    qed
  qed
qed

subsection \<open>Byte order and value order agree\<close>

lemma int_value_mono:
  assumes "good_int i" "good_int j" "i < j"
  shows "int_value i < int_value j"
proof -
  obtain h b where i: "i = h # b" "is_header h" "length b = header_width h - 1"
    "set b \<subseteq> set digits" using assms(1) by (rule good_int_cases)
  obtain h' b' where j: "j = h' # b'" "is_header h'" "length b' = header_width h' - 1"
    "set b' \<subseteq> set digits" using assms(2) by (rule good_int_cases)
  from assms(3) i j consider "h < h'" | "h = h'" "b < b'" by auto
  then show ?thesis
  proof cases
    case 1
    from header_base_step [OF i(2) j(2) 1] rev_value_bounds [of "rev b"]
      rev_value_bounds [of "rev b'"] i j show ?thesis by auto
  next
    case 2
    with rev_value_less [of b b'] i j show ?thesis by simp
  qed
qed

lemma int_value_less_iff:
  assumes "good_int i" "good_int j"
  shows "int_value i < int_value j \<longleftrightarrow> i < j"
  using int_value_mono [OF assms] int_value_mono [OF assms(2,1)] assms
  by (metis less_asym' neq_iff)

lemma int_value_inj:
  assumes "good_int i" "good_int j" "int_value i = int_value j"
  shows "i = j"
  using int_value_less_iff [OF assms(1,2)] int_value_less_iff [OF assms(2,1)] assms(3)
  by (metis neq_iff order_less_irrefl)

text \<open>No integer part is a proper prefix of another one.\<close>

lemma good_int_append_less:
  assumes "good_int i" "good_int j" "i < j"
  shows "i @ u < j @ v"
  using assms(3)
proof (cases rule: lex_less_cases)
  case (prefix c s)
  with assms(1,2) show ?thesis by (auto simp: good_int_def)
next
  case (diff p c d u' v')
  then show ?thesis by (simp add: lex_at)
qed

end
