(* ===== verification/Fracdex_Between.thy ===== *)
theory Fracdex_Between
  imports Fracdex_Integer
begin

text \<open>
  What a list of rows relies on: \<open>between\<close> answers every pair of valid bounds that ascend
  with a valid key strictly between them, refuses every other pair with the error the code
  names, and appending stays short.
\<close>

subsection \<open>What \<open>split_key\<close> accepts\<close>

lemma split_key_Inr_iff:
  "split_key k = Inr (i, f) \<longleftrightarrow> k \<noteq> [] \<and> k \<noteq> smallest_integer \<and> is_header (hd k) \<and>
    header_width (hd k) \<le> length k \<and> set k \<subseteq> set digits \<and>
    i = take (header_width (hd k)) k \<and> f = drop (header_width (hd k)) k \<and> \<not> ends_in_zero f"
proof (cases k)
  case (Cons h b)
  show ?thesis
  proof (cases "integer_width h")
    case (Inl e)
    then show ?thesis by (simp add: Cons split_key_def)
  next
    case (Inr w)
    then have "header_width h = w" by (simp add: header_width_def)
    with Inr show ?thesis
      by (auto simp: Cons split_key_def index_byte_neg subset_iff)
  qed
qed (simp add: split_key_def)

lemma split_key_Inr:
  "split_key k = Inr (i, f) \<longleftrightarrow>
    k = i @ f \<and> k \<noteq> smallest_integer \<and> good_int i \<and> good_frac f"
proof
  assume "split_key k = Inr (i, f)"
  then have *: "k \<noteq> []" "k \<noteq> smallest_integer" "is_header (hd k)"
    "header_width (hd k) \<le> length k" "set k \<subseteq> set digits" "i = take (header_width (hd k)) k"
    "f = drop (header_width (hd k)) k" "\<not> ends_in_zero f" by (auto simp: split_key_Inr_iff)
  have "set i \<subseteq> set digits" "set f \<subseteq> set digits"
    using *(5-7) set_take_subset set_drop_subset by fast+
  moreover have "i \<noteq> []" "hd i = hd k" "length i = header_width (hd k)"
    using * header_width_ge2 [of "hd k"] by auto
  moreover have "set (tl i) \<subseteq> set i" by (cases i) auto
  ultimately show "k = i @ f \<and> k \<noteq> smallest_integer \<and> good_int i \<and> good_frac f"
    using * by (simp add: good_int_def good_frac_def)
next
  assume *: "k = i @ f \<and> k \<noteq> smallest_integer \<and> good_int i \<and> good_frac f"
  then obtain h b where i: "i = h # b" "is_header h" "length b = header_width h - 1"
    "set b \<subseteq> set digits" by (blast elim: good_int_cases)
  then have "length i = header_width h" using header_width_ge2 [of h] by simp
  with * have "take (header_width h) k = i" "drop (header_width h) k = f" by auto
  with i * header_is_digit [of h] \<open>length i = header_width h\<close> show "split_key k = Inr (i, f)"
    unfolding split_key_Inr_iff by (auto simp: good_frac_def)
qed

lemma validate_Inr: "validate k = Inr () \<longleftrightarrow> (\<exists>i f. split_key k = Inr (i, f))"
  by (auto simp: validate_def bind_res_eq_Inr)

lemma smallest_integer_good: "good_int smallest_integer" "int_value smallest_integer = smallest_value"
  by code_simp+

lemma smallest_integer_iff:
  "good_int i \<Longrightarrow> i @ f = smallest_integer \<longleftrightarrow> i = smallest_integer \<and> f = []"
proof -
  assume i: "good_int i"
  have "f = []" if "i @ f = smallest_integer"
  proof -
    have "hd i = CHR ''A''" using that i
      by (cases i) (auto simp: smallest_integer_def good_int_def)
    then have "length i = 27"
      using i by (simp add: good_int_def integer_width_def less_eq_char_def)
    moreover have "length (i @ f) = 27" using that by (simp add: smallest_integer_def)
    ultimately show ?thesis by simp
  qed
  then show ?thesis by auto
qed

lemma valid_key_append:
  assumes "good_int i" "good_frac f" "i \<noteq> smallest_integer \<or> f \<noteq> []"
  shows "validate (i @ f) = Inr ()"
  using assms smallest_integer_iff [of i f] by (auto simp: validate_Inr split_key_Inr)

lemma valid_int:
  "good_int i \<Longrightarrow> i \<noteq> smallest_integer \<Longrightarrow> validate i = Inr ()"
  using valid_key_append [of i "[]"] by simp

subsection \<open>Steps that the operations take\<close>

lemma increment_less:
  assumes "good_int i" "increment i = Inr j"
  shows "good_int j" "i @ u < j" "j \<noteq> smallest_integer"
proof -
  from increment_step [OF assms(1)] assms(2)
  have j: "good_int j" "int_value j = int_value i + 1" by auto
  then show "good_int j" by simp
  from j assms(1) have "i < j" by (simp add: int_value_less_iff [symmetric])
  from good_int_append_less [OF assms(1) j(1) this, of u "[]"] show "i @ u < j" by simp
  from int_value_space [OF assms(1)] j smallest_integer_good show "j \<noteq> smallest_integer" by auto
qed

lemma decrement_less:
  assumes "good_int i" "i \<noteq> smallest_integer"
  obtains j where "decrement i = Inr j" "good_int j" "\<And>u. j @ u < i"
proof -
  have "int_value i \<noteq> smallest_value"
    using int_value_inj [OF assms(1) smallest_integer_good(1)] smallest_integer_good(2) assms(2)
    by auto
  with decrement_step [OF assms(1)] obtain j where
    j: "decrement i = Inr j" "good_int j" "int_value j = int_value i - 1" by auto
  with assms(1) have "j < i" by (simp add: int_value_less_iff [symmetric])
  with j assms(1) good_int_append_less [OF j(2) assms(1), of _ "[]"] that show ?thesis by auto
qed

lemma increment_fails_at_top:
  assumes "good_int i" "good_int j" "i < j"
  obtains k where "increment i = Inr k"
proof -
  from assms have "int_value i < largest_value"
    using int_value_mono [OF assms] int_value_space [OF assms(2)] by linarith
  with increment_step [OF assms(1)] that show ?thesis by auto
qed

lemma midpoint_after_good:
  assumes "good_frac f"
  obtains m where "midpoint_after f = Inr m" "m \<noteq> []" "good_frac m" "f < m"
  using midpoint_after_above [of f] assms by (auto simp: good_frac_def)


subsection \<open>The operations answer with a valid key in the right place\<close>

lemma before_key_below:
  assumes "good_int i" "good_frac f" "i @ f \<noteq> smallest_integer"
  shows "\<exists>k. before_key i f = Inr k \<and> validate k = Inr () \<and> k < i @ f"
proof (cases "i = smallest_integer")
  case True
  with assms have "f \<noteq> []" by auto
  with midpoint_between [of "[]" f] assms(2) obtain m where
    "midpoint [] f = Inr m" "m \<noteq> []" "good_frac m" "m < f" by auto
  with True assms(1) show ?thesis by (simp add: before_key_def valid_key_append)
next
  case False
  show ?thesis
  proof (cases "f = []")
    case True
    obtain j where j: "decrement i = Inr j" "good_int j" "\<And>u. j @ u < i"
      using decrement_less [OF assms(1) False] by blast
    moreover obtain m where "midpoint_after [] = Inr m" "m \<noteq> []" "good_frac m"
      using midpoint_after_good [of "[]"] by auto
    moreover from j(3) have "j < i" by (metis append_Nil2)
    ultimately show ?thesis
      using j True False by (auto simp: before_key_def valid_key_append valid_int)
  next
    case f: False
    with False assms(1) show ?thesis by (simp add: before_key_def valid_int lex_extend)
  qed
qed

lemma after_key_above:
  assumes "good_int i" "good_frac f"
  shows "\<exists>k. after_key i f = Inr k \<and> validate k = Inr () \<and> i @ f < k"
proof (cases "increment i")
  case (Inl e)
  obtain m where m: "midpoint_after f = Inr m" "m \<noteq> []" "good_frac m" "f < m"
    using midpoint_after_good [OF assms(2)] by blast
  have "e = ErrExhausted" using increment_step [OF assms(1)] Inl by auto
  with m Inl assms(1) show ?thesis by (simp add: after_key_def valid_key_append)
next
  case (Inr j)
  with increment_less(1,3) [OF assms(1) Inr] increment_less(2) [OF assms(1) Inr, of f]
  show ?thesis by (simp add: after_key_def valid_int)
qed

lemma between_same_integer:
  assumes "good_int i" "good_frac f" "good_frac g" "i @ f < i @ g"
  shows "\<exists>k. bind_res (midpoint f g) (\<lambda>m. Inr (i @ m)) = Inr k \<and> validate k = Inr () \<and>
    i @ f < k \<and> k < i @ g"
proof -
  from assms(4) have "f < g" "g \<noteq> []" by auto
  with midpoint_between [of f g] assms obtain m where
    "midpoint f g = Inr m" "m \<noteq> []" "good_frac m" "f < m" "m < g" by blast
  with assms(1) show ?thesis by (simp add: valid_key_append)
qed

lemma between_other_integer:
  assumes "good_int i" "good_frac f" "good_int j" "good_frac g" "i \<noteq> j" "i @ f < j @ g"
  shows "\<exists>k. bind_res (increment i) (\<lambda>stepped. if stepped < j @ g then Inr stepped
      else bind_res (midpoint_after f) (\<lambda>m. Inr (i @ m))) = Inr k \<and>
    validate k = Inr () \<and> i @ f < k \<and> k < j @ g"
proof -
  have "i < j"
    using assms(5,6) good_int_append_less [OF assms(3,1), of g f]
    by (meson less_asym' neq_iff)
  obtain s where s: "increment i = Inr s"
    using increment_fails_at_top [OF assms(1,3) \<open>i < j\<close>] by blast
  note step = increment_less [OF assms(1) s]
  obtain m where m: "midpoint_after f = Inr m" "m \<noteq> []" "good_frac m" "f < m"
    using midpoint_after_good [OF assms(2)] by blast
  have "i @ m < j @ g" using good_int_append_less [OF assms(1,3) \<open>i < j\<close>] .
  with s m step assms(1) show ?thesis by (simp add: valid_int valid_key_append)
qed

text \<open>A bound is the empty string or a valid key.\<close>

definition valid_bound :: "string \<Rightarrow> bool" where
  "valid_bound k \<longleftrightarrow> k = [] \<or> validate k = Inr ()"

lemma valid_bound_cases:
  assumes "valid_bound k"
  obtains (none) "k = []" "split_bound k = Inr ([], [])"
  | (key) i f where "k = i @ f" "k \<noteq> []" "k \<noteq> smallest_integer" "good_int i" "good_frac f"
      "split_bound k = Inr (i, f)"
  using assms unfolding valid_bound_def validate_Inr split_key_Inr
  by (auto simp: split_bound_def good_int_def split_key_Inr)


lemma split_bound_Inl: "split_bound k = Inl e \<longleftrightarrow> \<not> valid_bound k \<and> e = ErrInvalidKey"
proof -
  have "split_key k = Inl e \<longleftrightarrow> validate k \<noteq> Inr () \<and> e = ErrInvalidKey"
  proof (cases "split_key k")
    case (Inl e')
    then have "e' = ErrInvalidKey"
      by (auto simp: split_key_def integer_width_def bind_res_eq_Inl split: list.splits if_splits)
    with Inl show ?thesis by (auto simp: validate_def)
  next
    case (Inr p)
    then show ?thesis by (cases p) (simp add: validate_def)
  qed
  then show ?thesis by (auto simp: split_bound_def valid_bound_def)
qed

lemma between_answers:
  assumes "valid_bound p" "valid_bound n" "p = [] \<or> n = [] \<or> p < n"
  shows "\<exists>k. between p n = Inr k \<and> validate k = Inr () \<and>
    (p \<noteq> [] \<longrightarrow> p < k) \<and> (n \<noteq> [] \<longrightarrow> k < n)"
  using assms(1)
proof (cases rule: valid_bound_cases)
  case none
  note p = none
  from assms(2) show ?thesis
  proof (cases rule: valid_bound_cases)
    case none
    moreover have "validate first_key = Inr ()" by code_simp
    ultimately show ?thesis using p by (simp add: between_def)
  next
    case (key j g)
    with p before_key_below [of j g] show ?thesis by (auto simp: between_def)
  qed
next
  case (key i f)
  note p = key
  from assms(2) show ?thesis
  proof (cases rule: valid_bound_cases)
    case none
    with p after_key_above [of i f] show ?thesis by (auto simp: between_def)
  next
    case (key j g)
    with p assms(3) have less: "i @ f < j @ g" by auto
    show ?thesis
    proof (cases "i = j")
      case True
      with between_same_integer [of i f g] p key less show ?thesis
        by (auto simp: between_def not_le [symmetric])
    next
      case False
      with between_other_integer [of i f j g] p key less show ?thesis
        by (auto simp: between_def not_le [symmetric])
    qed
  qed
qed


subsection \<open>Appending\<close>

text \<open>The list built by appending to an empty list: the key of its last row.\<close>

fun append_run :: "nat \<Rightarrow> key_error + string" where
  "append_run 0 = between [] []"
| "append_run (Suc n) = bind_res (append_run n) (\<lambda>k. between k [])"

lemma first_key_good: "good_int first_key" "int_value first_key = 0" "first_key \<noteq> smallest_integer"
  by code_simp+

lemma between_after_integer:
  assumes "good_int i" "i \<noteq> smallest_integer" "increment i = Inr j"
  shows "between i [] = Inr j"
proof -
  have "split_key i = Inr (i, [])" using assms by (simp add: split_key_Inr)
  with assms show ?thesis
    by (auto simp: between_def split_bound_def after_key_def good_int_def)
qed

lemma append_run_value:
  "int n \<le> largest_value \<Longrightarrow>
    \<exists>k. append_run n = Inr k \<and> good_int k \<and> int_value k = int n \<and> k \<noteq> smallest_integer"
proof (induction n)
  case 0
  then show ?case using first_key_good by (simp add: between_def split_bound_def)
next
  case (Suc n)
  then obtain k where k: "append_run n = Inr k" "good_int k" "int_value k = int n"
    "k \<noteq> smallest_integer" by auto
  with Suc.prems increment_step [OF k(2)] obtain j where
    j: "increment k = Inr j" "good_int j" "int_value j = int n + 1" by auto
  with k between_after_integer [OF k(2,4) j(1)] increment_less(3) [OF k(2) j(1)]
  show ?case by simp
qed

lemma good_int_short:
  assumes "good_int k" "0 \<le> int_value k" "int_value k < power_sum w"
  shows "length k \<le> w + 1"
proof -
  obtain h b where k: "k = h # b" "is_header h" "length b = header_width h - 1"
    "set b \<subseteq> set digits" using assms(1) by (rule good_int_cases)
  have b: "0 \<le> rev_value (rev b)" "rev_value (rev b) < 62 ^ length b"
    using rev_value_bounds [of "rev b"] k(4) by auto
  from k(2) show ?thesis
  proof (cases rule: is_header_cases)
    case (lower m)
    have "m < w"
    proof (rule ccontr)
      assume "\<not> m < w"
      then have "power_sum w \<le> power_sum m" by (simp add: power_sum_mono)
      with assms(3) k(1) lower b show False by simp
    qed
    with k lower show ?thesis by simp
  next
    case (upper n)
    with assms(2) k b power_sum_nonneg [of n] show ?thesis by simp
  qed
qed

subsection \<open>Lists of rows\<close>

text \<open>
  What a list ordered by keys needs from the package: an operation that answers two
  ascending bounds with a valid key strictly between them, where \<open>none\<close> stands for "no
  bound".  Inserting a row gives it a key between its neighbours and leaves the other rows
  alone.
\<close>

definition insert_row :: "('k \<Rightarrow> 'k \<Rightarrow> 'e + 'k) \<Rightarrow> 'k \<Rightarrow> 'k list \<Rightarrow> nat \<Rightarrow> 'e + 'k list" where
  "insert_row op none ks n =
     bind_res (op (if n = 0 then none else ks ! (n - 1)) (if n < length ks then ks ! n else none))
       (\<lambda>k. Inr (take n ks @ k # drop n ks))"

fun insert_rows :: "('k \<Rightarrow> 'k \<Rightarrow> 'e + 'k) \<Rightarrow> 'k \<Rightarrow> 'k list \<Rightarrow> nat list \<Rightarrow> 'e + 'k list" where
  "insert_rows op none ks [] = Inr ks"
| "insert_rows op none ks (n # ns) =
     bind_res (insert_row op none ks (min n (length ks))) (\<lambda>ks'. insert_rows op none ks' ns)"

locale order_keys =
  fixes op :: "'k::linorder \<Rightarrow> 'k \<Rightarrow> 'e + 'k" and none :: 'k and valid :: "'k \<Rightarrow> bool"
  assumes none_invalid: "\<not> valid none"
    and op_between: "\<lbrakk>p = none \<or> valid p; n = none \<or> valid n; p = none \<or> n = none \<or> p < n\<rbrakk> \<Longrightarrow>
      \<exists>k. op p n = Inr k \<and> valid k \<and> (p \<noteq> none \<longrightarrow> p < k) \<and> (n \<noteq> none \<longrightarrow> k < n)"
begin

definition ordered :: "'k list \<Rightarrow> bool" where
  "ordered ks \<longleftrightarrow> sorted_wrt (<) ks \<and> (\<forall>k \<in> set ks. valid k)"

lemma insert_row_ordered:
  assumes "ordered ks" "n \<le> length ks"
  shows "\<exists>k. insert_row op none ks n = Inr (take n ks @ k # drop n ks) \<and>
    ordered (take n ks @ k # drop n ks)"
proof -
  let ?p = "if n = 0 then none else ks ! (n - 1)"
  let ?q = "if n < length ks then ks ! n else none"
  have "?p = none \<or> valid ?p" "?q = none \<or> valid ?q" "?p = none \<or> ?q = none \<or> ?p < ?q"
    using assms by (auto simp: ordered_def sorted_wrt_nth_less)
  from op_between [OF this] obtain k where k: "op ?p ?q = Inr k" "valid k"
    "?p \<noteq> none \<longrightarrow> ?p < k" "?q \<noteq> none \<longrightarrow> k < ?q" by auto
  have valid_nth: "ks ! m \<noteq> none" if "m < length ks" for m
    using that assms(1) none_invalid by (auto simp: ordered_def)
  have below: "x < k" if "x \<in> set (take n ks)" for x
  proof -
    from that obtain m where m: "m < n" "x = ks ! m" using assms(2) by (auto simp: in_set_conv_nth)
    then have "x \<le> ks ! (n - 1)"
      using assms by (cases "m = n - 1") (auto simp: ordered_def sorted_wrt_nth_less less_imp_le)
    also have "ks ! (n - 1) < k" using k(3) m(1) assms(2) valid_nth [of "n - 1"] by auto
    finally show ?thesis .
  qed
  have above: "k < x" if "x \<in> set (drop n ks)" for x
  proof -
    from that obtain m where "m < length ks - n" "x = ks ! (n + m)"
      by (auto simp: in_set_conv_nth)
    then have m: "n + m < length ks" "x = ks ! (n + m)" by simp_all
    then have "k < ks ! n" using k(4) valid_nth [of n] by auto
    also have "ks ! n \<le> x"
      using assms(1) m by (cases m) (auto simp: ordered_def sorted_wrt_nth_less less_imp_le)
    finally show ?thesis .
  qed
  have split: "sorted_wrt (<) (take n ks @ drop n ks)" "\<forall>x \<in> set (take n ks @ drop n ks). valid x"
    using assms(1) by (simp_all add: ordered_def)
  then have "ordered (take n ks @ k # drop n ks)"
    using below above k(2) unfolding ordered_def sorted_wrt_append
    by (auto dest: in_set_takeD in_set_dropD)
  with k(1) show ?thesis by (auto simp: insert_row_def)
qed

lemma insert_rows_ordered:
  "ordered ks \<Longrightarrow> \<exists>ks'. insert_rows op none ks ns = Inr ks' \<and> ordered ks' \<and>
    length ks' = length ks + length ns"
proof (induction ns arbitrary: ks)
  case (Cons n ns)
  obtain k where k: "insert_row op none ks (min n (length ks)) =
      Inr (take (min n (length ks)) ks @ k # drop (min n (length ks)) ks)"
    "ordered (take (min n (length ks)) ks @ k # drop (min n (length ks)) ks)"
    using insert_row_ordered [OF Cons.prems, of "min n (length ks)"] by auto
  from Cons.IH [OF k(2)] k(1) show ?case by auto
qed simp

end

interpretation fracdex_keys: order_keys between "[]" "\<lambda>k. validate k = Inr ()"
proof unfold_locales
  show "validate [] \<noteq> Inr ()" by code_simp
next
  fix p n :: string
  assume "p = [] \<or> validate p = Inr ()" "n = [] \<or> validate n = Inr ()" "p = [] \<or> n = [] \<or> p < n"
  then show "\<exists>k. between p n = Inr k \<and> validate k = Inr () \<and>
      (p \<noteq> [] \<longrightarrow> p < k) \<and> (n \<noteq> [] \<longrightarrow> k < n)"
    by (intro between_answers) (simp_all add: valid_bound_def)
qed


subsection \<open>Properties\<close>

text \<open>
  C1: \<open>Between\<close> answers every pair of valid bounds that ascend (the empty string being "no
  bound") with a key \<open>Validate\<close> accepts, strictly above the lower bound and strictly below
  the upper one: it neither fails nor panics.
\<close>

theorem between_correct:
  assumes "valid_bound p" "valid_bound n" "p = [] \<or> n = [] \<or> p < n"
  shows "\<exists>k. between p n = Inr k \<and> validate k = Inr () \<and>
    (p = [] \<or> p < k) \<and> (n = [] \<or> k < n)"
  using between_answers [OF assms] by blast

lemma between_correct_witness:
  "\<exists>k. between ''a0'' ''a1'' = Inr k \<and> validate k = Inr () \<and>
    (''a0'' = [] \<or> ''a0'' < k) \<and> (''a1'' = [] \<or> k < ''a1'')"
proof (rule between_correct)
  show "valid_bound ''a0''" "valid_bound ''a1''" by (simp_all add: valid_bound_def, code_simp+)
  show "''a0'' = [] \<or> ''a1'' = [] \<or> ''a0'' < ''a1''" by code_simp
qed


text \<open>
  Stepping refines arithmetic.  The integer part of a key denotes an integer, \<open>increment\<close>
  yields the integer part that denotes the next one, and it fails, with \<open>ErrExhausted\<close>, only
  at the largest.
\<close>

theorem increment_refines_successor:
  assumes "good_int i"
  shows "case increment i of
      Inr j \<Rightarrow> good_int j \<and> int_value j = int_value i + 1
    | Inl e \<Rightarrow> e = ErrExhausted \<and> int_value i = largest_value"
  using increment_step [OF assms] by auto

lemma increment_refines_successor_witness:
  "good_int ''az'' \<and> (case increment ''az'' of
      Inr j \<Rightarrow> good_int j \<and> int_value j = int_value ''az'' + 1
    | Inl e \<Rightarrow> e = ErrExhausted \<and> int_value ''az'' = largest_value)"
proof -
  have "good_int ''az''" by code_simp
  with increment_refines_successor [OF this] show ?thesis by simp
qed

text \<open>
  The two steps are inverse to each other: decrementing what \<open>increment\<close> returned gives
  the integer part it started from, across every change of width and of sign.
\<close>

theorem decrement_inverts_increment:
  assumes "good_int i" "increment i = Inr j"
  shows "decrement j = Inr i"
proof -
  from increment_step [OF assms(1)] assms(2) have j: "good_int j" "int_value j = int_value i + 1"
    by auto
  with int_value_space [OF assms(1)] decrement_step [OF j(1)] obtain k where
    k: "decrement j = Inr k" "good_int k" "int_value k = int_value i" by auto
  with int_value_inj [OF k(2) assms(1)] show ?thesis by simp
qed

lemma decrement_inverts_increment_witness: "decrement ''b00'' = Inr ''az''"
proof (rule decrement_inverts_increment)
  show "good_int ''az''" "increment ''az'' = Inr ''b00''" by code_simp+
qed

text \<open>
  A list that is only appended to keeps short keys: the key of row \<open>n\<close> has at most
  \<open>w + 1\<close> bytes while \<open>n < 62 + ... + 62^w\<close>, so 3906 rows fit in three bytes.
\<close>

theorem append_stays_short:
  assumes "int n < power_sum w" "w \<le> 26"
  shows "\<exists>k. append_run n = Inr k \<and> validate k = Inr () \<and> length k \<le> w + 1"
proof -
  have "int n \<le> largest_value"
    using assms power_sum_mono [of w 26] by (simp add: largest_value_def)
  from append_run_value [OF this] obtain k where
    k: "append_run n = Inr k" "good_int k" "int_value k = int n" "k \<noteq> smallest_integer" by auto
  with good_int_short [of k w] assms show ?thesis by (auto simp: valid_int)
qed

lemma append_stays_short_witness:
  "\<exists>k. append_run 3905 = Inr k \<and> validate k = Inr () \<and> length k \<le> 2 + 1"
  by (rule append_stays_short) (simp_all add: eval_nat_numeral)

text \<open>
  Rows inserted one after another, each at any place of the list, always get a key, and
  the list stays strictly ascending with valid keys only: no insertion rewrites another row.
\<close>

theorem insertions_stay_ordered:
  "\<exists>ks. insert_rows between [] [] ns = Inr ks \<and> sorted_wrt (<) ks \<and>
    list_all (\<lambda>k. validate k = Inr ()) ks \<and> length ks = length ns"
  using fracdex_keys.insert_rows_ordered [of "[]" ns]
  by (simp add: fracdex_keys.ordered_def list_all_iff)

end
