(* ===== verification/Fracdex_Depth.thy ===== *)
theory Fracdex_Depth
  imports Fracdex
begin

text \<open>
  How deep the recursion of \<open>midpoint\<close> and \<open>midpointAfter\<close> goes.  Here both run on a stack with room
  for so many calls and no assumption that they return; \<open>None\<close> is a stack that overflowed.
\<close>

fun midpoint_after_within :: "nat \<Rightarrow> string \<Rightarrow> (key_error + string) option" where
  "midpoint_after_within 0 a = None"
| "midpoint_after_within (Suc room) a =
     (let low = leading_digit a in
      if low < int (length digits) - 1
      then Some (bind_res (digit_at ((low + int (length digits) + 1) div 2)) (\<lambda>c. Inr [c]))
      else case digit_at low of
          Inl e \<Rightarrow> Some (Inl e)
        | Inr c \<Rightarrow> map_option (\<lambda>m. bind_res m (\<lambda>r. Inr (c # r))) (midpoint_after_within room (drop_digits a 1)))"

fun midpoint_within :: "nat \<Rightarrow> string \<Rightarrow> string \<Rightarrow> (key_error + string) option" where
  "midpoint_within 0 a b = None"
| "midpoint_within (Suc room) a b =
     (let shared = common_prefix_len a b in
      if shared > 0
      then map_option (\<lambda>m. bind_res m (\<lambda>r. Inr (take shared b @ r)))
        (midpoint_within room (drop_digits a shared) (drop shared b))
      else case b of
          [] \<Rightarrow> Some (Inl IndexOutOfRange)
        | b0 # rest \<Rightarrow>
            let low = leading_digit a; high = index_byte digits b0 in
            if high - low > 1
            then Some (bind_res (digit_at ((low + high + 1) div 2)) (\<lambda>c. Inr [c]))
            else if length b > 1 then Some (Inr (take 1 b))
            else case digit_at low of
                Inl e \<Rightarrow> Some (Inl e)
              | Inr c \<Rightarrow> map_option (\<lambda>m. bind_res m (\<lambda>r. Inr (c # r))) (midpoint_after_within room (drop_digits a 1)))"

lemma midpoint_after_returns:
  "length a < room \<Longrightarrow> midpoint_after_within room a = Some (midpoint_after a)"
proof (induction room a rule: midpoint_after_within.induct)
  case (2 room a)
  show ?case
  proof (cases "leading_digit a < int (length digits) - 1")
    case True
    then show ?thesis by (simp add: midpoint_after.simps [of a] Let_def)
  next
    case False
    then have "a \<noteq> []" by (auto simp: leading_digit_def digits_def)
    with "2.prems" have "length (drop_digits a 1) < room" by (cases a) (auto simp: drop_digits_def)
    with "2.IH" [OF refl False] False show ?thesis
      by (cases "digit_at (leading_digit a)") (simp_all add: midpoint_after.simps [of a] Let_def)
  qed
qed simp

text \<open>What is left after the shared digits shares none.\<close>

lemma common_prefix_dropped:
  "common_prefix_len (drop_digits a (common_prefix_len a b)) (drop (common_prefix_len a b) b) = 0"
proof (induction a b rule: common_prefix_len.induct)
  case (2 d b)
  then show ?case by (cases "CHR ''0'' = d") (auto simp: drop_digits_def)
next
  case (3 c a d b)
  have "drop_digits (c # a) (Suc n) = drop_digits a n" for n by (simp add: drop_digits_def)
  with 3 show ?case by (cases "c = d") (auto simp: drop_digits_def)
qed (simp add: drop_digits_def)

lemma length_drop_digits: "length (drop_digits a n) \<le> length a"
  by (simp add: drop_digits_def)

lemma midpoint_apart_returns:
  assumes "common_prefix_len a b = 0" "length a < room"
  shows "midpoint_within (Suc room) a b = Some (midpoint a b)"
proof (cases b)
  case Nil
  with assms show ?thesis by (simp add: midpoint.simps [of a "[]"])
next
  case (Cons b0 rest)
  have "length (drop_digits a 1) < room" using length_drop_digits [of a 1] assms(2) by linarith
  note after = midpoint_after_returns [OF this, simplified]
  show ?thesis
    using assms(1) by (cases "digit_at (leading_digit a)")
      (simp_all add: Cons midpoint.simps [of a "b0 # rest"] after Let_def)
qed

text \<open>
  C3: \<open>midpoint\<close> always returns, and soon.  For any two strings, well formed or not, it calls itself at
  most once and never goes deeper than the length of the lower bound and three more calls; what it
  returns then is what \<open>midpoint\<close> returns, a panic on an index out of range included.
\<close>
theorem midpoint_returns: "midpoint_within (length a + 3) a b = Some (midpoint a b)"
proof (cases "common_prefix_len a b = 0")
  case True
  have "midpoint_within (Suc (length a + 2)) a b = Some (midpoint a b)"
    by (rule midpoint_apart_returns [OF True]) simp
  then show ?thesis by (simp add: numeral_eq_Suc)
next
  case False
  let ?n = "common_prefix_len a b"
  have "length (drop_digits a ?n) < length a + 1" using length_drop_digits [of a ?n] by linarith
  from midpoint_apart_returns [OF common_prefix_dropped this]
  have "midpoint_within (Suc (length a + 1)) (drop_digits a ?n) (drop ?n b)
    = Some (midpoint (drop_digits a ?n) (drop ?n b))" .
  then have "midpoint_within (Suc (Suc (length a + 1))) a b = Some (midpoint a b)"
    using False by (simp add: midpoint.simps [of a b] Let_def)
  then show ?thesis by (simp add: numeral_eq_Suc)
qed

end
