(* ===== verification/GoText.thy ===== *)
theory GoText
  imports Prelude
begin

text \<open>
  The functions of Go's standard library on text that the modelled code calls: decimal
  integers (\<open>strconv\<close>, the \<open>%d\<close> verb), \<open>strings.Split\<close>.  A Go string is a list of bytes.
\<close>

subsection \<open>Decimal numbers\<close>

definition digit_char :: "nat \<Rightarrow> char" where
  "digit_char d = char_of (48 + d)"

fun dec_string :: "nat \<Rightarrow> string" where
  "dec_string n = (if n < 10 then [digit_char n] else dec_string (n div 10) @ [digit_char (n mod 10)])"

declare dec_string.simps [simp del]

definition is_dec_digit :: "char \<Rightarrow> bool" where
  "is_dec_digit c \<longleftrightarrow> CHR ''0'' \<le> c \<and> c \<le> CHR ''9''"

definition digit_value :: "char \<Rightarrow> nat" where
  "digit_value c = of_char c - 48"

definition dec_value :: "string \<Rightarrow> nat" where
  "dec_value s = foldl (\<lambda>n c. 10 * n + digit_value c) 0 s"

lemma digit_char_facts [simp]:
  assumes "d < 10"
  shows "is_dec_digit (digit_char d)" "digit_value (digit_char d) = d"
  using assms by (auto simp: is_dec_digit_def digit_char_def digit_value_def less_eq_char_def)

lemma dec_value_snoc: "dec_value (s @ [c]) = 10 * dec_value s + digit_value c"
  by (simp add: dec_value_def)

lemma dec_value_dec_string [simp]: "dec_value (dec_string n) = n"
proof (induction n rule: dec_string.induct)
  case (1 n)
  then show ?case
    by (subst dec_string.simps) (auto simp: dec_value_snoc, simp add: dec_value_def)
qed

lemma dec_string_digits: "\<forall>c \<in> set (dec_string n). is_dec_digit c"
proof (induction n rule: dec_string.induct)
  case (1 n)
  then show ?case by (subst dec_string.simps) auto
qed

lemma dec_string_nonempty [simp]: "dec_string n \<noteq> []"
  by (subst dec_string.simps) simp

lemma dec_string_inj: "dec_string m = dec_string n \<Longrightarrow> m = n"
  by (metis dec_value_dec_string)


subsection \<open>\<open>strings.Split\<close> on one byte\<close>

fun split_on :: "char \<Rightarrow> string \<Rightarrow> string list" where
  "split_on c [] = [[]]"
| "split_on c (x # xs) =
     (if x = c then [] # split_on c xs
      else case split_on c xs of [] \<Rightarrow> [[x]] | w # ws \<Rightarrow> (x # w) # ws)"

lemma split_on_nonempty [simp]: "split_on c xs \<noteq> []"
  by (induction xs) (auto split: list.split)

lemma split_on_free: "c \<notin> set xs \<Longrightarrow> split_on c xs = [xs]"
  by (induction xs) auto

lemma split_on_append: "c \<notin> set xs \<Longrightarrow> split_on c (xs @ c # ys) = xs # split_on c ys"
  by (induction xs) auto

subsection \<open>\<open>utf8.RuneCountInString\<close>\<close>

definition byte_in :: "nat \<Rightarrow> nat \<Rightarrow> char \<Rightarrow> bool" where
  "byte_in lo hi c \<longleftrightarrow> lo \<le> of_char c \<and> of_char c \<le> (hi :: nat)"

text \<open>The width of the rune a string starts with; a byte that starts none counts alone.\<close>

fun rune_width :: "string \<Rightarrow> nat" where
  "rune_width (a # b # c # d # _) =
     (if byte_in 0xC2 0xDF a \<and> byte_in 0x80 0xBF b then 2
      else if (byte_in 0xE0 0xE0 a \<and> byte_in 0xA0 0xBF b \<or> byte_in 0xED 0xED a \<and> byte_in 0x80 0x9F b
               \<or> (byte_in 0xE1 0xEC a \<or> byte_in 0xEE 0xEF a) \<and> byte_in 0x80 0xBF b)
              \<and> byte_in 0x80 0xBF c then 3
      else if (byte_in 0xF0 0xF0 a \<and> byte_in 0x90 0xBF b \<or> byte_in 0xF1 0xF3 a \<and> byte_in 0x80 0xBF b
               \<or> byte_in 0xF4 0xF4 a \<and> byte_in 0x80 0x8F b)
              \<and> byte_in 0x80 0xBF c \<and> byte_in 0x80 0xBF d then 4
      else 1)"
| "rune_width [a, b, c] =
     (if byte_in 0xC2 0xDF a \<and> byte_in 0x80 0xBF b then 2
      else if (byte_in 0xE0 0xE0 a \<and> byte_in 0xA0 0xBF b \<or> byte_in 0xED 0xED a \<and> byte_in 0x80 0x9F b
               \<or> (byte_in 0xE1 0xEC a \<or> byte_in 0xEE 0xEF a) \<and> byte_in 0x80 0xBF b)
              \<and> byte_in 0x80 0xBF c then 3
      else 1)"
| "rune_width [a, b] = (if byte_in 0xC2 0xDF a \<and> byte_in 0x80 0xBF b then 2 else 1)"
| "rune_width _ = 1"

lemma rune_width_pos [simp]: "rune_width s > 0"
  by (induction s rule: rune_width.induct) simp_all

function rune_count :: "string \<Rightarrow> nat" where
  "rune_count s = (if s = [] then 0 else 1 + rune_count (drop (rune_width s) s))"
  by pat_completeness auto
termination by (relation "measure length") simp_all

declare rune_count.simps [simp del]

lemma rune_count_le_length: "rune_count s \<le> length s"
proof (induction s rule: rune_count.induct)
  case (1 s)
  show ?case
  proof (cases "s = []")
    case False
    with 1 have "rune_count s \<le> 1 + (length s - rune_width s)"
      by (subst rune_count.simps) simp
    moreover have "0 < rune_width s" "0 < length s" using False by simp_all
    ultimately show ?thesis by linarith
  qed (simp add: rune_count.simps)
qed

subsection \<open>\<open>fmt.Sscanf\<close>: a literal, \<open>%d\<close> into a signed or an unsigned integer\<close>

text \<open>
  Before \<open>%d\<close> white space is skipped, but a newline is an error; the rest of the input is
  ignored when the format ends.  White space is Unicode's, encoded in UTF-8.
\<close>

definition space_runes :: "string list" where
  "space_runes =
    [[CHR 0x09], [CHR 0x0B], [CHR 0x0C], [CHR 0x0D], [CHR 0x20],
     [CHR 0xC2, CHR 0x85], [CHR 0xC2, CHR 0xA0], [CHR 0xE1, CHR 0x9A, CHR 0x80],
     [CHR 0xE2, CHR 0x80, CHR 0x80], [CHR 0xE2, CHR 0x80, CHR 0x81],
     [CHR 0xE2, CHR 0x80, CHR 0x82], [CHR 0xE2, CHR 0x80, CHR 0x83],
     [CHR 0xE2, CHR 0x80, CHR 0x84], [CHR 0xE2, CHR 0x80, CHR 0x85],
     [CHR 0xE2, CHR 0x80, CHR 0x86], [CHR 0xE2, CHR 0x80, CHR 0x87],
     [CHR 0xE2, CHR 0x80, CHR 0x88], [CHR 0xE2, CHR 0x80, CHR 0x89],
     [CHR 0xE2, CHR 0x80, CHR 0x8A], [CHR 0xE2, CHR 0x80, CHR 0xA8],
     [CHR 0xE2, CHR 0x80, CHR 0xA9], [CHR 0xE2, CHR 0x80, CHR 0xAF],
     [CHR 0xE2, CHR 0x81, CHR 0x9F], [CHR 0xE3, CHR 0x80, CHR 0x80]]"

definition space_at :: "string \<Rightarrow> nat" where
  "space_at s = (case find (\<lambda>w. take (length w) s = w) space_runes of None \<Rightarrow> 0 | Some w \<Rightarrow> length w)"

function skip_space :: "string \<Rightarrow> string option" where
  "skip_space s =
     (if s = [] then Some []
      else if hd s = CHR 0x0A then None
      else if space_at s = 0 then Some s
      else skip_space (drop (space_at s) s))"
  by pat_completeness auto
termination by (relation "measure length") simp_all

declare skip_space.simps [simp del]

definition scan_literal :: "string \<Rightarrow> string \<Rightarrow> string option" where
  "scan_literal w s = (if take (length w) s = w then Some (drop (length w) s) else None)"

definition scan_digits :: "string \<Rightarrow> (nat \<times> string) option" where
  "scan_digits s =
     (let ds = takeWhile is_dec_digit s in
      if ds = [] then None else Some (dec_value ds, dropWhile is_dec_digit s))"

definition scan_uint :: "nat \<Rightarrow> string \<Rightarrow> (nat \<times> string) option" where
  "scan_uint bits s =
     (case skip_space s of None \<Rightarrow> None | Some t \<Rightarrow>
      (case scan_digits t of None \<Rightarrow> None | Some (n, rest) \<Rightarrow>
       if n < 2 ^ bits then Some (n, rest) else None))"

definition scan_int :: "string \<Rightarrow> (int \<times> string) option" where
  "scan_int s =
     (case skip_space s of None \<Rightarrow> None | Some t \<Rightarrow>
      let negative = (t \<noteq> [] \<and> hd t = CHR ''-'');
          u = (if t \<noteq> [] \<and> (hd t = CHR ''-'' \<or> hd t = CHR ''+'') then tl t else t)
      in case scan_digits u of None \<Rightarrow> None | Some (n, rest) \<Rightarrow>
         let i = (if negative then - int n else int n) in
         if - (2 ^ 63) \<le> i \<and> i < 2 ^ 63 then Some (i, rest) else None)"

lemma scan_literal_append [simp]: "scan_literal w (w @ s) = Some s"
  by (simp add: scan_literal_def)

lemma space_runes_heads: "list_all (\<lambda>w. w \<noteq> [] \<and> \<not> is_dec_digit (hd w)) space_runes"
  by code_simp

lemma space_at_digit:
  assumes "is_dec_digit c"
  shows "space_at (c # cs) = 0"
proof -
  have "take (length w) (c # cs) \<noteq> w" if "w \<in> set space_runes" for w
  proof
    assume "take (length w) (c # cs) = w"
    moreover have "w \<noteq> []" "\<not> is_dec_digit (hd w)"
      using that space_runes_heads by (simp_all add: list_all_iff)
    ultimately show False using assms by (cases "length w") (auto simp: take_Cons)
  qed
  then have "find (\<lambda>w. take (length w) (c # cs) = w) space_runes = None"
    by (auto simp: find_None_iff)
  then show ?thesis by (simp add: space_at_def)
qed

lemma skip_space_digit:
  assumes "is_dec_digit c"
  shows "skip_space (c # cs) = Some (c # cs)"
proof -
  have "c \<noteq> CHR 0x0A" using assms by (auto simp: is_dec_digit_def less_eq_char_def)
  then show ?thesis by (subst skip_space.simps) (simp add: space_at_digit [OF assms])
qed

text \<open>What follows the printed number must not continue it.\<close>

definition stops_number :: "string \<Rightarrow> bool" where
  "stops_number s \<longleftrightarrow> s = [] \<or> \<not> is_dec_digit (hd s)"

lemma scan_digits_dec_string:
  assumes "stops_number rest"
  shows "scan_digits (dec_string n @ rest) = Some (n, rest)"
proof -
  have "takeWhile is_dec_digit (dec_string n @ rest) = dec_string n"
    "dropWhile is_dec_digit (dec_string n @ rest) = rest"
    using dec_string_digits [of n] assms
    by (cases rest; simp add: stops_number_def takeWhile_append2 dropWhile_append2)+
  then show ?thesis by (simp add: scan_digits_def)
qed

lemma dec_string_head:
  obtains c cs where "dec_string n = c # cs" "is_dec_digit c"
  using dec_string_digits [of n] dec_string_nonempty [of n] by (cases "dec_string n") auto

lemma scan_uint_dec_string:
  assumes "stops_number rest" "n < 2 ^ bits"
  shows "scan_uint bits (dec_string n @ rest) = Some (n, rest)"
proof -
  obtain c cs where c: "dec_string n = c # cs" "is_dec_digit c" by (rule dec_string_head)
  then have "skip_space (dec_string n @ rest) = Some (dec_string n @ rest)"
    by (simp add: skip_space_digit)
  then show ?thesis using scan_digits_dec_string [OF assms(1)] assms(2)
    by (simp add: scan_uint_def)
qed

lemma scan_int_dec_string:
  assumes "stops_number rest" "n < 2 ^ 63"
  shows "scan_int (dec_string n @ rest) = Some (int n, rest)"
proof -
  obtain c cs where c: "dec_string n = c # cs" "is_dec_digit c" by (rule dec_string_head)
  then have "c \<noteq> CHR ''-''" "c \<noteq> CHR ''+''"
    by (auto simp: is_dec_digit_def less_eq_char_def)
  moreover from c have "skip_space (dec_string n @ rest) = Some (dec_string n @ rest)"
    by (simp add: skip_space_digit)
  moreover have "int n < 2 ^ 63" using assms(2) by (simp add: zless_nat_eq_int_zless)
  ultimately show ?thesis using scan_digits_dec_string [OF assms(1), of n] c
    by (simp add: scan_int_def Let_def)
qed

subsection \<open>\<open>strings.ToValidUTF8\<close> with nothing in place of the invalid bytes\<close>

text \<open>A byte that starts no rune is one outside ASCII whose rune width is one.\<close>

definition invalid_start :: "string \<Rightarrow> bool" where
  "invalid_start s \<longleftrightarrow> s \<noteq> [] \<and> rune_width s = 1 \<and> 0x80 \<le> (of_char (hd s) :: nat)"

function to_valid_utf8 :: "string \<Rightarrow> string" where
  "to_valid_utf8 s =
     (if s = [] then []
      else if invalid_start s then to_valid_utf8 (tl s)
      else take (rune_width s) s @ to_valid_utf8 (drop (rune_width s) s))"
  by pat_completeness auto
termination by (relation "measure length") simp_all

declare to_valid_utf8.simps [simp del]

lemma length_to_valid_utf8: "length (to_valid_utf8 s) \<le> length s"
proof (induction s rule: to_valid_utf8.induct)
  case (1 s)
  show ?case
  proof (cases "s = [] \<or> invalid_start s")
    case True
    with 1(1) show ?thesis by (cases s) (auto simp: to_valid_utf8.simps intro: le_SucI)
  next
    case False
    with 1(2) have "length (to_valid_utf8 (drop (rune_width s) s)) \<le> length s - rune_width s" by simp
    with False show ?thesis by (subst to_valid_utf8.simps) (auto simp: min_def)
  qed
qed

subsection \<open>\<open>strings.TrimSpace\<close>\<close>

text \<open>White space at either end; here a newline is white space like the others.\<close>

definition trim_runes :: "string list" where
  "trim_runes = [CHR 0x0A] # space_runes"

definition trim_at :: "string \<Rightarrow> nat" where
  "trim_at s = (case find (\<lambda>w. take (length w) s = w) trim_runes of None \<Rightarrow> 0 | Some w \<Rightarrow> length w)"

definition trim_end :: "string \<Rightarrow> nat" where
  "trim_end s =
     (case find (\<lambda>w. take (length w) (rev s) = rev w) trim_runes of None \<Rightarrow> 0 | Some w \<Rightarrow> length w)"

function trim_left :: "string \<Rightarrow> string" where
  "trim_left s = (if s = [] \<or> trim_at s = 0 then s else trim_left (drop (trim_at s) s))"
  by pat_completeness auto
termination by (relation "measure length") simp_all

function trim_right :: "string \<Rightarrow> string" where
  "trim_right s = (if s = [] \<or> trim_end s = 0 then s else trim_right (take (length s - trim_end s) s))"
  by pat_completeness auto
termination by (relation "measure length") auto

declare trim_left.simps [simp del] trim_right.simps [simp del]

definition trim_space :: "string \<Rightarrow> string" where
  "trim_space s = trim_right (trim_left s)"

lemma trim_left_result: "trim_left s = [] \<or> trim_at (trim_left s) = 0"
  by (induction s rule: trim_left.induct) (metis trim_left.simps)

lemma trim_right_result: "trim_right s = [] \<or> trim_end (trim_right s) = 0"
  by (induction s rule: trim_right.induct) (metis trim_right.simps)

lemma length_trim_left: "length (trim_left s) \<le> length s"
proof (induction s rule: trim_left.induct)
  case (1 s)
  then show ?case by (cases "s = [] \<or> trim_at s = 0") (auto simp: trim_left.simps [of s])
qed

lemma length_trim_right: "length (trim_right s) \<le> length s"
proof (induction s rule: trim_right.induct)
  case (1 s)
  then show ?case by (cases "s = [] \<or> trim_end s = 0") (auto simp: trim_right.simps [of s])
qed

lemma length_trim_space: "length (trim_space s) \<le> length s"
  unfolding trim_space_def using length_trim_right length_trim_left by (rule order_trans)

end
