(* ===== verification/Authz.thy ===== *)
theory Authz
  imports GoText "HOL-Library.Word"
begin

text \<open>
  Permissions: \<open>backend/internal/authz\<close>.  The right half of a decision is \<open>can\<close> over the
  table \<open>rules\<close>; the scope half asks the membership store, which is a parameter (the
  interface \<open>Memberships\<close> has no implementation in the repository yet), threaded through as
  explicit state so that what is asked of it is visible.
\<close>

subsection \<open>Roles (\<open>role.go\<close>)\<close>

text \<open>\<open>Role\<close> is a \<open>uint8\<close>; the named ranks are five of its 256 values.\<close>

type_synonym role = "8 word"

definition RoleNone :: role where "RoleNone = 0"
definition RoleViewer :: role where "RoleViewer = 1"
definition RoleContributor :: role where "RoleContributor = 2"
definition RoleMaintainer :: role where "RoleMaintainer = 3"
definition RoleOwner :: role where "RoleOwner = 4"

lemmas role_defs = RoleNone_def RoleViewer_def RoleContributor_def RoleMaintainer_def RoleOwner_def

datatype authz_error = ErrUnknownRole string

text \<open>Go returns the role and the error; the role is \<open>RoleNone\<close> when there is an error.\<close>

definition parse_role :: "string \<Rightarrow> role \<times> authz_error option" where
  "parse_role name =
     (if name = ''viewer'' then (RoleViewer, None)
      else if name = ''contributor'' then (RoleContributor, None)
      else if name = ''maintainer'' then (RoleMaintainer, None)
      else if name = ''owner'' then (RoleOwner, None)
      else (RoleNone, Some (ErrUnknownRole name)))"

definition role_string :: "role \<Rightarrow> string" where
  "role_string r =
     (if r = RoleViewer then ''viewer''
      else if r = RoleContributor then ''contributor''
      else if r = RoleMaintainer then ''maintainer''
      else if r = RoleOwner then ''owner''
      else if r = RoleNone then ''none''
      else ''role('' @ dec_string (unat r) @ '')'')"

definition at_least :: "role \<Rightarrow> role \<Rightarrow> bool" where
  "at_least r mn \<longleftrightarrow> r \<ge> mn"

record caller =
  caller_user :: string
  caller_role :: role

subsection \<open>The right half (\<open>can.go\<close>)\<close>

type_synonym action = string

definition ActionProjectCreate :: action where "ActionProjectCreate = ''project.create''"
definition ActionProjectView :: action where "ActionProjectView = ''project.view''"
definition ActionProjectUpdate :: action where "ActionProjectUpdate = ''project.update''"
definition ActionProjectChangeKey :: action where "ActionProjectChangeKey = ''project.change_key''"
definition ActionProjectArchive :: action where "ActionProjectArchive = ''project.archive''"
definition ActionProjectDelete :: action where "ActionProjectDelete = ''project.delete''"
definition ActionProjectMembersView :: action where
  "ActionProjectMembersView = ''project.members.view''"
definition ActionProjectMembersManage :: action where
  "ActionProjectMembersManage = ''project.members.manage''"
definition ActionProjectMoveToFolder :: action where
  "ActionProjectMoveToFolder = ''project.move_to_folder''"
definition ActionFolderCreate :: action where "ActionFolderCreate = ''folder.create''"
definition ActionFolderView :: action where "ActionFolderView = ''folder.view''"
definition ActionFolderRename :: action where "ActionFolderRename = ''folder.rename''"
definition ActionFolderDelete :: action where "ActionFolderDelete = ''folder.delete''"
definition ActionFolderMembersView :: action where
  "ActionFolderMembersView = ''folder.members.view''"
definition ActionFolderMembersManage :: action where
  "ActionFolderMembersManage = ''folder.members.manage''"
definition ActionUserInvite :: action where "ActionUserInvite = ''user.invite''"

lemmas action_defs =
  ActionProjectCreate_def ActionProjectView_def ActionProjectUpdate_def ActionProjectChangeKey_def
  ActionProjectArchive_def ActionProjectDelete_def ActionProjectMembersView_def
  ActionProjectMembersManage_def ActionProjectMoveToFolder_def ActionFolderCreate_def
  ActionFolderView_def ActionFolderRename_def ActionFolderDelete_def ActionFolderMembersView_def
  ActionFolderMembersManage_def ActionUserInvite_def

record rule =
  minimum :: role
  forbidden :: bool

text \<open>The composite literal \<open>{minimum: r}\<close>.\<close>

abbreviation from_rank :: "role \<Rightarrow> rule" where
  "from_rank r \<equiv> \<lparr>minimum = r, forbidden = False\<rparr>"

definition rule_rows :: "(action \<times> rule) list" where
  "rule_rows =
    [(ActionProjectCreate, from_rank RoleMaintainer),
     (ActionFolderCreate, from_rank RoleMaintainer),
     (ActionProjectView, from_rank RoleViewer),
     (ActionProjectMembersView, from_rank RoleViewer),
     (ActionFolderView, from_rank RoleViewer),
     (ActionFolderMembersView, from_rank RoleViewer),
     (ActionProjectUpdate, from_rank RoleMaintainer),
     (ActionProjectArchive, from_rank RoleMaintainer),
     (ActionProjectMembersManage, from_rank RoleMaintainer),
     (ActionProjectMoveToFolder, from_rank RoleMaintainer),
     (ActionFolderRename, from_rank RoleMaintainer),
     (ActionFolderDelete, from_rank RoleMaintainer),
     (ActionFolderMembersManage, from_rank RoleMaintainer),
     (ActionProjectDelete, from_rank RoleOwner),
     (ActionUserInvite, from_rank RoleOwner),
     (ActionProjectChangeKey, \<lparr>minimum = RoleNone, forbidden = True\<rparr>)]"

definition rules :: "action \<rightharpoonup> rule" where
  "rules = map_of rule_rows"

definition decide :: "caller \<Rightarrow> rule \<Rightarrow> bool" where
  "decide c r =
     (if forbidden r then False
      else if minimum r = RoleNone then False
      else at_least (caller_role c) (minimum r))"

definition can :: "caller \<Rightarrow> action \<Rightarrow> bool" where
  "can c action = (case rules action of None \<Rightarrow> False | Some r \<Rightarrow> decide c r)"

definition actions :: "action list" where
  "actions = sort (map fst rule_rows)"

subsection \<open>The scope half (\<open>scope.go\<close>)\<close>

text \<open>
  The interface \<open>Memberships\<close>: two questions about a user and a resource, which may fail and
  whose store \<open>'s\<close> they may touch.
\<close>

record ('s, 'e) memberships =
  in_project :: "string \<Rightarrow> string \<Rightarrow> 's \<Rightarrow> ('e + bool) \<times> 's"
  in_folder :: "string \<Rightarrow> string \<Rightarrow> 's \<Rightarrow> ('e + bool) \<times> 's"

datatype 'e scope_error = ReadProjectMembership 'e | ReadFolderMembership 'e

text \<open>The three results of the Go functions: in scope (or allowed), via owner, error.\<close>

type_synonym 'e scope_result = "bool \<times> bool \<times> 'e scope_error option"

definition in_project_scope ::
  "('s, 'e) memberships \<Rightarrow> caller \<Rightarrow> string \<Rightarrow> 's \<Rightarrow> 'e scope_result \<times> 's" where
  "in_project_scope ms c project_id s =
     (if caller_role c = RoleOwner then ((True, True, None), s)
      else case in_project ms (caller_user c) project_id s of
          (Inl e, s') \<Rightarrow> ((False, False, Some (ReadProjectMembership e)), s')
        | (Inr member, s') \<Rightarrow> ((member, False, None), s'))"

definition in_folder_scope ::
  "('s, 'e) memberships \<Rightarrow> caller \<Rightarrow> string \<Rightarrow> 's \<Rightarrow> 'e scope_result \<times> 's" where
  "in_folder_scope ms c folder_id s =
     (if caller_role c = RoleOwner then ((True, True, None), s)
      else case in_folder ms (caller_user c) folder_id s of
          (Inl e, s') \<Rightarrow> ((False, False, Some (ReadFolderMembership e)), s')
        | (Inr member, s') \<Rightarrow> ((member, False, None), s'))"

definition allow_on_project ::
  "('s, 'e) memberships \<Rightarrow> caller \<Rightarrow> action \<Rightarrow> string \<Rightarrow> 's \<Rightarrow> 'e scope_result \<times> 's" where
  "allow_on_project ms c action project_id s =
     (case in_project_scope ms c project_id s of
        ((in_scope, via_owner, err), s') \<Rightarrow>
          if err \<noteq> None \<or> \<not> in_scope then ((False, False, err), s')
          else ((can c action, via_owner, None), s'))"

definition allow_on_folder ::
  "('s, 'e) memberships \<Rightarrow> caller \<Rightarrow> action \<Rightarrow> string \<Rightarrow> 's \<Rightarrow> 'e scope_result \<times> 's" where
  "allow_on_folder ms c action folder_id s =
     (case in_folder_scope ms c folder_id s of
        ((in_scope, via_owner, err), s') \<Rightarrow>
          if err \<noteq> None \<or> \<not> in_scope then ((False, False, err), s')
          else ((can c action, via_owner, None), s'))"

definition allow_move_project_to_folder ::
  "('s, 'e) memberships \<Rightarrow> caller \<Rightarrow> string \<Rightarrow> string \<Rightarrow> 's \<Rightarrow> 'e scope_result \<times> 's" where
  "allow_move_project_to_folder ms c project_id folder_id s =
     (case in_project_scope ms c project_id s of
        ((over_project, owner_over_project, err), s1) \<Rightarrow>
          if err \<noteq> None \<or> \<not> over_project then ((False, False, err), s1)
          else case in_folder_scope ms c folder_id s1 of
            ((over_folder, owner_over_folder, err'), s2) \<Rightarrow>
              if err' \<noteq> None \<or> \<not> over_folder then ((False, False, err'), s2)
              else ((can c ActionProjectMoveToFolder, owner_over_project \<or> owner_over_folder, None),
                    s2))"


subsection \<open>Lemmas\<close>

lemma role_names [simp]:
  "parse_role ''viewer'' = (RoleViewer, None)"
  "parse_role ''contributor'' = (RoleContributor, None)"
  "parse_role ''maintainer'' = (RoleMaintainer, None)"
  "parse_role ''owner'' = (RoleOwner, None)"
  by (simp_all add: parse_role_def)

lemma parse_role_cases:
  obtains "name = ''viewer''" | "name = ''contributor''" | "name = ''maintainer''" | "name = ''owner''"
  | "parse_role name = (RoleNone, Some (ErrUnknownRole name))"
  by (cases "name = ''viewer''"; cases "name = ''contributor''"; cases "name = ''maintainer''";
      cases "name = ''owner''") (simp_all add: parse_role_def)

lemma at_least_refl [simp]: "at_least r r"
  by (simp add: at_least_def)

lemma at_least_trans: "at_least r2 r1 \<Longrightarrow> at_least r1 m \<Longrightarrow> at_least r2 m"
  by (simp add: at_least_def)

lemma decide_iff:
  "decide c r \<longleftrightarrow> \<not> forbidden r \<and> minimum r \<noteq> RoleNone \<and> at_least (caller_role c) (minimum r)"
  by (simp add: decide_def)

lemma can_iff: "can c a \<longleftrightarrow> (\<exists>r. rules a = Some r \<and> decide c r)"
  by (simp add: can_def split: option.splits)

lemma can_mono: "can c a \<Longrightarrow> at_least (caller_role d) (caller_role c) \<Longrightarrow> can d a"
  by (auto simp: can_iff decide_iff intro: at_least_trans)

lemma rule_rows_distinct: "distinct (map fst rule_rows)"
  by (simp add: rule_rows_def action_defs)

lemma set_actions: "set actions = dom rules"
  by (simp add: actions_def rules_def dom_map_of_conv_image_fst)

text \<open>The scope half in one equation: what the store is asked and what the answer becomes.\<close>

lemma in_project_scope_not_owner:
  "caller_role c \<noteq> RoleOwner \<Longrightarrow> in_project_scope ms c pid s =
    (case in_project ms (caller_user c) pid s of
      (Inl e, s') \<Rightarrow> ((False, False, Some (ReadProjectMembership e)), s')
    | (Inr b, s') \<Rightarrow> ((b, False, None), s'))"
  by (simp add: in_project_scope_def)

lemma in_project_scope_owner [simp]:
  "caller_role c = RoleOwner \<Longrightarrow> in_project_scope ms c pid s = ((True, True, None), s)"
  by (simp add: in_project_scope_def)

lemma in_folder_scope_owner [simp]:
  "caller_role c = RoleOwner \<Longrightarrow> in_folder_scope ms c fid s = ((True, True, None), s)"
  by (simp add: in_folder_scope_def)

subsection \<open>Properties\<close>


text \<open>
  Moving a project needs reach over both sides and the rank; the folder is asked about
  only after the project side consented, a failure of either question denies and is passed
  on, and the owner moves without any question to the store.
\<close>

theorem move_needs_both_sides:
  "allow_move_project_to_folder ms c pid fid s =
    (if caller_role c = RoleOwner then ((can c ActionProjectMoveToFolder, True, None), s)
     else case in_project ms (caller_user c) pid s of
         (Inl e, s1) \<Rightarrow> ((False, False, Some (ReadProjectMembership e)), s1)
       | (Inr False, s1) \<Rightarrow> ((False, False, None), s1)
       | (Inr True, s1) \<Rightarrow>
           (case in_folder ms (caller_user c) fid s1 of
              (Inl e, s2) \<Rightarrow> ((False, False, Some (ReadFolderMembership e)), s2)
            | (Inr member, s2) \<Rightarrow>
                ((member \<and> can c ActionProjectMoveToFolder, False, None), s2)))"
  by (auto simp: allow_move_project_to_folder_def in_project_scope_def in_folder_scope_def
      split: prod.splits sum.splits)

text \<open>
  The table as it is executed, for every caller and every string: the four views need
  the rank of a viewer, the eight changes, the two creations and the move that of a
  maintainer, permanent deletion and inviting that of the owner, and every other action,
  changing a project's key included, is refused to everybody.
\<close>

theorem can_matrix:
  "can c a =
    (if a \<in> {''project.view'', ''project.members.view'', ''folder.view'', ''folder.members.view''}
     then at_least (caller_role c) RoleViewer
     else if a \<in> {''project.create'', ''folder.create'', ''project.update'', ''project.archive'',
       ''project.members.manage'', ''project.move_to_folder'', ''folder.rename'', ''folder.delete'',
       ''folder.members.manage''}
     then at_least (caller_role c) RoleMaintainer
     else if a \<in> {''project.delete'', ''user.invite''}
     then at_least (caller_role c) RoleOwner
     else False)"
  by (simp add: can_def rules_def rule_rows_def action_defs  decide_def role_defs)

text \<open>
  Rights only grow with the rank: whatever a caller may do, a caller of at least their
  rank may do as well.
\<close>

theorem can_grows_with_rank:
  assumes "can c a" "at_least (caller_role d) (caller_role c)"
  shows "can d a"
  using can_mono [OF assms] .

lemma can_grows_with_rank_witness:
  "can \<lparr>caller_user = ''u2'', caller_role = RoleOwner\<rparr> ''project.view''"
proof (rule can_grows_with_rank)
  show "can \<lparr>caller_user = ''u1'', caller_role = RoleViewer\<rparr> ''project.view''"
    by (simp add: can_def rules_def rule_rows_def action_defs  decide_def role_defs
        at_least_def)
  show "at_least (caller_role \<lparr>caller_user = ''u2'', caller_role = RoleOwner\<rparr>)
      (caller_role \<lparr>caller_user = ''u1'', caller_role = RoleViewer\<rparr>)"
    by (simp add: at_least_def role_defs)
qed

text \<open>
  The stored spelling survives the round trip: parsing what \<open>String\<close> prints gives back
  each of the four stored ranks, and \<open>RoleNone\<close> with an error for every other value of the
  type, the unassigned role included.
\<close>

theorem parse_role_roundtrip:
  "parse_role (role_string r) =
    (if RoleViewer \<le> r \<and> r \<le> RoleOwner then (r, None)
     else (RoleNone, Some (ErrUnknownRole (role_string r))))"
proof -
  have named: "RoleViewer \<le> r \<and> r \<le> RoleOwner \<longleftrightarrow>
      r = RoleViewer \<or> r = RoleContributor \<or> r = RoleMaintainer \<or> r = RoleOwner"
    unfolding role_defs by unat_arith
  show ?thesis
  proof (cases "RoleViewer \<le> r \<and> r \<le> RoleOwner")
    case True
    with named show ?thesis by (auto simp: role_string_def role_defs parse_role_def)
  next
    case False
    with named show ?thesis by (auto simp: role_string_def parse_role_def)
  qed
qed

end
