(* ===== verification/Base64.thy ===== *)
theory Base64
  imports Prelude "HOL-Library.Word"
begin

text \<open>
  Go's unpadded base64 (\<open>encoding/base64\<close>: \<open>RawURLEncoding\<close>, \<open>RawStdEncoding\<close>) and
  hexadecimal encoding, as the code uses them.  The decoder follows the library's documented
  behaviour: line breaks are skipped, any other byte outside the alphabet is an error, a
  last group of one digit is an error, and the unused low bits of a short last group are
  ignored (the encodings are not in strict mode).
\<close>

type_synonym byte = "8 word"

definition url_alphabet :: string where
  "url_alphabet = ''ABCDEFGHIJKLMNOPQRSTUVWXYZabcdefghijklmnopqrstuvwxyz0123456789-_''"

definition std_alphabet :: string where
  "std_alphabet = ''ABCDEFGHIJKLMNOPQRSTUVWXYZabcdefghijklmnopqrstuvwxyz0123456789+/''"

subsection \<open>Groups of three bytes and four digits\<close>

text \<open>The digits of the bytes, most significant first.\<close>

fun sextets :: "byte list \<Rightarrow> nat list" where
  "sextets [] = []"
| "sextets [a] = [unat a div 4, unat a mod 4 * 16]"
| "sextets [a, b] = [unat a div 4, unat a mod 4 * 16 + unat b div 16, unat b mod 16 * 4]"
| "sextets (a # b # c # bs) =
     [unat a div 4, unat a mod 4 * 16 + unat b div 16, unat b mod 16 * 4 + unat c div 64,
      unat c mod 64] @ sextets bs"

fun from_sextets :: "nat list \<Rightarrow> byte list option" where
  "from_sextets [] = Some []"
| "from_sextets [x] = None"
| "from_sextets [x, y] = Some [of_nat (x * 4 + y div 16)]"
| "from_sextets [x, y, z] = Some [of_nat (x * 4 + y div 16), of_nat (y mod 16 * 16 + z div 4)]"
| "from_sextets (x # y # z # w # ds) =
     map_option (\<lambda>bs. of_nat (x * 4 + y div 16) # of_nat (y mod 16 * 16 + z div 4) #
       of_nat (z mod 4 * 64 + w) # bs) (from_sextets ds)"

fun position :: "string \<Rightarrow> char \<Rightarrow> nat option" where
  "position [] c = None"
| "position (x # xs) c = (if x = c then Some 0 else map_option Suc (position xs c))"

definition line_break :: "char \<Rightarrow> bool" where
  "line_break c \<longleftrightarrow> c = CHR 0x0A \<or> c = CHR 0x0D"

definition base64_encode :: "string \<Rightarrow> byte list \<Rightarrow> string" where
  "base64_encode al bs = map (\<lambda>i. al ! i) (sextets bs)"

definition base64_decode :: "string \<Rightarrow> string \<Rightarrow> byte list option" where
  "base64_decode al s =
     (let t = filter (\<lambda>c. \<not> line_break c) s in
      if \<exists>c \<in> set t. position al c = None then None
      else from_sextets (map (\<lambda>c. the (position al c)) t))"

definition hex_digit :: "nat \<Rightarrow> char" where
  "hex_digit n = ''0123456789abcdef'' ! n"

definition hex_encode :: "byte list \<Rightarrow> string" where
  "hex_encode bs = concat (map (\<lambda>b. [hex_digit (unat b div 16), hex_digit (unat b mod 16)]) bs)"

subsection \<open>Round trip\<close>

lemma byte_bound: "unat (b :: byte) < 256"
  using unsigned_less [where ?'a = nat, of b] by simp

lemma byte_div_bounds [simp]:
  "unat (b :: byte) div 4 < 64" "unat (b :: byte) div 16 < 16" "unat (b :: byte) div 64 < 4"
  using byte_bound [of b] by linarith+

lemma sextet_bounds [simp]:
  "unat (a :: byte) mod 4 * 16 + unat (b :: byte) div 16 < 64"
  "unat (b :: byte) mod 16 * 4 + unat (c :: byte) div 64 < 64"
proof -
  have "unat a mod 4 < 4" "unat b mod 16 < 16" by simp_all
  then show "unat a mod 4 * 16 + unat b div 16 < 64" "unat b mod 16 * 4 + unat c div 64 < 64"
    using byte_div_bounds(2) [of b] byte_div_bounds(3) [of c] by linarith+
qed

lemma sextets_bound: "\<forall>i \<in> set (sextets bs). i < 64"
proof (induction bs rule: sextets.induct)
  case (3 a b)
  have "unat b mod 16 < 16" by simp
  then show ?case by (auto simp del: mod_less_divisor)
qed auto

lemma of_nat_unat_8: "n = unat b \<Longrightarrow> of_nat n = (b :: byte)"
  by simp

lemma regroup:
  "unat a div 4 * 4 + (unat a mod 4 * 16 + k) div 16 = unat (a :: byte)" if "k < 16"
  using that by simp

lemma regroup2:
  "(unat a mod 4 * 16 + unat b div 16) mod 16 * 16 + (unat b mod 16 * 4 + k) div 4 = unat (b :: byte)"
  if "k < 4" for a :: byte
  using that by (simp add: mod_add_eq [symmetric])

lemma from_sextets_sextets [simp]: "from_sextets (sextets bs) = Some bs"
proof (induction bs rule: sextets.induct)
  case (2 a)
  then show ?case using regroup [of 0 a] by simp
next
  case (3 a b)
  then show ?case using regroup [of "unat b div 16" a] regroup2 [of 0 a b] by simp
next
  case (4 a b c bs)
  have "(unat b mod 16 * 4 + unat c div 64) mod 4 * 64 + unat c mod 64 = unat c"
    by (simp add: mod_add_eq [symmetric])
  with 4 show ?case
    using regroup [of "unat b div 16" a] regroup2 [of "unat c div 64" a b] by simp
qed simp

lemma position_nth: "distinct al \<Longrightarrow> i < length al \<Longrightarrow> position al (al ! i) = Some i"
proof (induction al arbitrary: i)
  case (Cons x al)
  then show ?case by (cases i) auto
qed simp

text \<open>What the library's alphabets satisfy.\<close>

definition good_alphabet :: "string \<Rightarrow> bool" where
  "good_alphabet al \<longleftrightarrow> length al = 64 \<and> distinct al \<and> list_all (\<lambda>c. \<not> line_break c) al"

lemma alphabets_good [simp]: "good_alphabet url_alphabet" "good_alphabet std_alphabet"
  by code_simp+

lemma base64_roundtrip:
  assumes "good_alphabet al"
  shows "base64_decode al (base64_encode al bs) = Some bs"
proof -
  have nth: "\<forall>i \<in> set (sextets bs). position al (al ! i) = Some i \<and> \<not> line_break (al ! i)"
    using assms sextets_bound [of bs]
    by (auto simp: good_alphabet_def position_nth list_all_length)
  then have "filter (\<lambda>c. \<not> line_break c) (base64_encode al bs) = base64_encode al bs"
    by (auto simp: base64_encode_def filter_id_conv)
  moreover have "map (\<lambda>c. the (position al c)) (base64_encode al bs) = sextets bs"
    using nth by (simp add: base64_encode_def map_idI)
  moreover have "\<not> (\<exists>c \<in> set (base64_encode al bs). position al c = None)"
    using nth by (auto simp: base64_encode_def)
  ultimately show ?thesis by (simp add: base64_decode_def Let_def)
qed

lemma length_sextets: "length (sextets bs) = (4 * length bs + 2) div 3"
  by (induction bs rule: sextets.induct) auto

lemma length_base64_encode: "length (base64_encode al bs) = (4 * length bs + 2) div 3"
  by (simp add: base64_encode_def length_sextets)

lemma base64_encode_inj:
  "good_alphabet al \<Longrightarrow> base64_encode al xs = base64_encode al ys \<Longrightarrow> xs = ys"
  by (metis base64_roundtrip option.inject)

lemma base64_encode_chars:
  "good_alphabet al \<Longrightarrow> set (base64_encode al bs) \<subseteq> set al"
  using sextets_bound [of bs] by (auto simp: base64_encode_def good_alphabet_def)

lemma length_hex_encode [simp]: "length (hex_encode bs) = 2 * length bs"
  by (induction bs) (auto simp: hex_encode_def)

end
