(* ===== verification/Domain.thy ===== *)
theory Domain
  imports Base64 GoTime
begin

text \<open>
  The identity entities of \<open>backend/internal/modules/identity/domain\<close>: opaque tokens, sessions,
  invitations and password resets.

  SHA-256 is a
  parameter \<open>sha\<close> (the code relies on its being a function with 32-byte results only), and the
  bytes read from the random source are an argument.
\<close>

subsection \<open>Opaque tokens (\<open>token.go\<close>)\<close>

datatype token_error = ErrReadToken | ErrNotBase64 | ErrTokenLength nat

definition opaque_token_bytes :: nat where
  "opaque_token_bytes = 32"

text \<open>\<open>random\<close> is what \<open>rand.Read\<close> put in the buffer, \<open>None\<close> when it failed.\<close>

definition new_opaque_token ::
  "(byte list \<Rightarrow> byte list) \<Rightarrow> byte list option \<Rightarrow> token_error + string \<times> byte list" where
  "new_opaque_token sha random =
     (case random of
        None \<Rightarrow> Inl ErrReadToken
      | Some raw \<Rightarrow> Inr (base64_encode url_alphabet raw, sha raw))"

definition decode_opaque_token :: "(byte list \<Rightarrow> byte list) \<Rightarrow> string \<Rightarrow> token_error + byte list" where
  "decode_opaque_token sha token =
     (case base64_decode url_alphabet token of
        None \<Rightarrow> Inl ErrNotBase64
      | Some raw \<Rightarrow>
          if length raw \<noteq> opaque_token_bytes then Inl (ErrTokenLength (length raw))
          else Inr (sha raw))"

subsection \<open>Sessions (\<open>session.go\<close>)\<close>

definition SessionIdleWindow :: duration where
  "SessionIdleWindow = 14 * 24 * hour"

definition SessionAbsoluteWindow :: duration where
  "SessionAbsoluteWindow = 90 * 24 * hour"

definition sessionRenewalFloor :: duration where
  "sessionRenewalFloor = hour"

lemmas session_windows = SessionIdleWindow_def SessionAbsoluteWindow_def sessionRenewalFloor_def

datatype session_error = ErrSessionTokenMalformed token_error | ErrSessionExpired

record session =
  s_id :: string
  s_user_id :: string
  s_created_at :: time
  s_last_seen_at :: time
  s_expires_at :: time

definition new_session_token ::
  "(byte list \<Rightarrow> byte list) \<Rightarrow> byte list option \<Rightarrow> token_error + string \<times> byte list" where
  "new_session_token sha random = new_opaque_token sha random"

definition session_token_digest ::
  "(byte list \<Rightarrow> byte list) \<Rightarrow> string \<Rightarrow> session_error + byte list" where
  "session_token_digest sha token =
     (case decode_opaque_token sha token of
        Inl e \<Rightarrow> Inl (ErrSessionTokenMalformed e) | Inr digest \<Rightarrow> Inr digest)"

definition new_session_expiry :: "time \<Rightarrow> time" where
  "new_session_expiry now = now + SessionIdleWindow"

definition session_is_expired :: "session \<Rightarrow> time \<Rightarrow> bool" where
  "session_is_expired s now \<longleftrightarrow> \<not> now < s_expires_at s"

definition renewed_expiry :: "session \<Rightarrow> time \<Rightarrow> time" where
  "renewed_expiry s now =
     (let absolute = s_created_at s + SessionAbsoluteWindow;
          renewed = now + SessionIdleWindow
      in if renewed > absolute then absolute else renewed)"

definition needs_renewal :: "session \<Rightarrow> time \<Rightarrow> bool" where
  "needs_renewal s now \<longleftrightarrow>
     time_sub (renewed_expiry s now) (s_expires_at s) > sessionRenewalFloor"

subsection \<open>Invitations (\<open>invitation.go\<close>)\<close>

definition InvitationWindow :: duration where
  "InvitationWindow = 7 * 24 * hour"

datatype invitation_error = ErrInvitationTokenMalformed token_error

record invitation =
  i_id :: string
  i_email :: string
  i_role :: string
  i_invited_by :: string
  i_created_at :: time
  i_expires_at :: time
  i_accepted_at :: "time option"

definition new_invitation_token ::
  "(byte list \<Rightarrow> byte list) \<Rightarrow> byte list option \<Rightarrow> token_error + string \<times> byte list" where
  "new_invitation_token sha random = new_opaque_token sha random"

definition invitation_token_digest ::
  "(byte list \<Rightarrow> byte list) \<Rightarrow> string \<Rightarrow> invitation_error + byte list" where
  "invitation_token_digest sha token =
     (case decode_opaque_token sha token of
        Inl e \<Rightarrow> Inl (ErrInvitationTokenMalformed e) | Inr digest \<Rightarrow> Inr digest)"

definition new_invitation_expiry :: "time \<Rightarrow> time" where
  "new_invitation_expiry now = now + InvitationWindow"

definition invitation_is_expired :: "invitation \<Rightarrow> time \<Rightarrow> bool" where
  "invitation_is_expired i now \<longleftrightarrow> \<not> now < i_expires_at i"

definition invitation_is_accepted :: "invitation \<Rightarrow> bool" where
  "invitation_is_accepted i \<longleftrightarrow> i_accepted_at i \<noteq> None"

definition invitation_is_usable :: "invitation \<Rightarrow> time \<Rightarrow> bool" where
  "invitation_is_usable i now \<longleftrightarrow> \<not> invitation_is_accepted i \<and> \<not> invitation_is_expired i now"

subsection \<open>Password resets (\<open>passwordreset.go\<close>)\<close>

definition PasswordResetWindow :: duration where
  "PasswordResetWindow = hour"

datatype reset_token_error = ErrPasswordResetTokenMalformed token_error

record password_reset =
  r_id :: string
  r_user_id :: string
  r_used_at :: "time option"
  r_created_at :: time
  r_expires_at :: time

definition new_password_reset_token ::
  "(byte list \<Rightarrow> byte list) \<Rightarrow> byte list option \<Rightarrow> token_error + string \<times> byte list" where
  "new_password_reset_token sha random = new_opaque_token sha random"

definition password_reset_token_digest ::
  "(byte list \<Rightarrow> byte list) \<Rightarrow> string \<Rightarrow> reset_token_error + byte list" where
  "password_reset_token_digest sha token =
     (case decode_opaque_token sha token of
        Inl e \<Rightarrow> Inl (ErrPasswordResetTokenMalformed e) | Inr digest \<Rightarrow> Inr digest)"

definition new_password_reset_expiry :: "time \<Rightarrow> time" where
  "new_password_reset_expiry now = now + PasswordResetWindow"

definition reset_is_expired :: "password_reset \<Rightarrow> time \<Rightarrow> bool" where
  "reset_is_expired r now \<longleftrightarrow> \<not> now < r_expires_at r"

definition reset_is_used :: "password_reset \<Rightarrow> bool" where
  "reset_is_used r \<longleftrightarrow> r_used_at r \<noteq> None"

definition reset_is_usable :: "password_reset \<Rightarrow> time \<Rightarrow> bool" where
  "reset_is_usable r now \<longleftrightarrow> \<not> reset_is_used r \<and> \<not> reset_is_expired r now"

subsection \<open>Lemmas on tokens\<close>

lemma decode_opaque_token_Inr:
  "decode_opaque_token sha t = Inr d \<longleftrightarrow>
    (\<exists>raw. base64_decode url_alphabet t = Some raw \<and> length raw = opaque_token_bytes \<and> d = sha raw)"
  by (auto simp: decode_opaque_token_def split: option.splits)

lemma decode_new_opaque_token:
  assumes "new_opaque_token sha (Some raw) = Inr (t, d)" "length raw = opaque_token_bytes"
  shows "decode_opaque_token sha t = Inr d"
  using assms by (auto simp: new_opaque_token_def decode_opaque_token_Inr base64_roundtrip)

lemmas token_digest_defs =
  session_token_digest_def invitation_token_digest_def password_reset_token_digest_def

subsection \<open>Lemmas on session deadlines\<close>

lemma session_windows_order:
  "0 < sessionRenewalFloor" "sessionRenewalFloor < SessionIdleWindow"
  "SessionIdleWindow < SessionAbsoluteWindow" "SessionAbsoluteWindow < 2 ^ 63 - 1"
  by (simp_all add: session_windows duration_defs)

lemma renewed_expiry_min:
  "renewed_expiry s now = min (s_created_at s + SessionAbsoluteWindow) (now + SessionIdleWindow)"
  by (simp add: renewed_expiry_def Let_def)

lemma needs_renewal_iff:
  "needs_renewal s now \<longleftrightarrow> renewed_expiry s now > s_expires_at s + sessionRenewalFloor"
proof -
  have "- (2 ^ 63) \<le> sessionRenewalFloor" "sessionRenewalFloor < 2 ^ 63 - 1"
    by (simp_all add: session_windows duration_defs)
  from time_sub_gt [OF this] show ?thesis by (auto simp: needs_renewal_def)
qed

text \<open>What one authenticated request does to its session's deadline.\<close>

definition use_session :: "session \<Rightarrow> time \<Rightarrow> session" where
  "use_session s now =
     (if session_is_expired s now then s
      else if needs_renewal s now then s\<lparr>s_expires_at := renewed_expiry s now\<rparr>
      else s)"

lemma use_session_created [simp]: "s_created_at (use_session s now) = s_created_at s"
  by (simp add: use_session_def)

lemma use_session_deadline:
  "s_expires_at s \<le> s_created_at s + SessionAbsoluteWindow \<Longrightarrow>
    s_expires_at (use_session s now) \<le> s_created_at s + SessionAbsoluteWindow"
  by (simp add: use_session_def renewed_expiry_min)

lemma use_session_extends: "s_expires_at s \<le> s_expires_at (use_session s now)"
proof (cases "\<not> session_is_expired s now \<and> needs_renewal s now")
  case True
  then show ?thesis
    using session_windows_order(1) unfolding use_session_def needs_renewal_iff by simp
next
  case False
  then show ?thesis by (auto simp: use_session_def)
qed

text \<open>A use leaves at least the idle window, less the renewal floor, or the absolute deadline.\<close>

lemma use_session_alive:
  assumes "\<not> session_is_expired s now"
  shows "min (s_created_at s + SessionAbsoluteWindow) (now + SessionIdleWindow) - sessionRenewalFloor
    \<le> s_expires_at (use_session s now)"
proof (cases "needs_renewal s now")
  case True
  with assms have "s_expires_at (use_session s now) = renewed_expiry s now"
    by (simp add: use_session_def)
  with session_windows_order(1) show ?thesis unfolding renewed_expiry_min by linarith
next
  case False
  then have "s_expires_at (use_session s now) = s_expires_at s"
    by (simp add: use_session_def)
  with False show ?thesis unfolding needs_renewal_iff renewed_expiry_min by linarith
qed


text \<open>A session used at each of these times in turn.\<close>

fun use_session_at :: "session \<Rightarrow> time list \<Rightarrow> session" where
  "use_session_at s [] = s"
| "use_session_at s (t # ts) = use_session_at (use_session s t) ts"

lemma use_session_at_created [simp]: "s_created_at (use_session_at s ts) = s_created_at s"
  by (induction ts arbitrary: s) auto

lemma use_session_at_deadline:
  "s_expires_at s \<le> s_created_at s + SessionAbsoluteWindow \<Longrightarrow>
    s_expires_at (use_session_at s ts) \<le> s_created_at s + SessionAbsoluteWindow"
proof (induction ts arbitrary: s)
  case (Cons t ts)
  from Cons.IH [of "use_session s t"] Cons.prems use_session_deadline [of s t] show ?case by simp
qed simp

text \<open>Uses that follow each other, the first one \<open>from\<close>, each within \<open>gap\<close> of the one before.\<close>

fun within_gap :: "duration \<Rightarrow> time \<Rightarrow> time list \<Rightarrow> bool" where
  "within_gap gap from [] \<longleftrightarrow> True"
| "within_gap gap from (t # ts) \<longleftrightarrow> from \<le> t \<and> t < from + gap \<and> within_gap gap t ts"

lemma use_session_at_alive:
  assumes "within_gap (SessionIdleWindow - sessionRenewalFloor) t0 ts"
    "list_all (\<lambda>t. t < s_created_at s + SessionAbsoluteWindow - sessionRenewalFloor) ts"
    "min (s_created_at s + SessionAbsoluteWindow) (t0 + SessionIdleWindow) - sessionRenewalFloor
      \<le> s_expires_at s"
    "t \<in> set ts"
  shows "t < s_expires_at (use_session_at s ts)"
  using assms
proof (induction ts arbitrary: s t0)
  case (Cons u us)
  have "\<not> session_is_expired s u"
    using Cons.prems by (auto simp: session_is_expired_def)
  note step = use_session_alive [OF this]
  show ?case
  proof (cases "t \<in> set us")
    case True
    from Cons.IH [of u "use_session s u"] Cons.prems True step show ?thesis by simp
  next
    case False
    have grow: "s_expires_at r \<le> s_expires_at (use_session_at r ts)" for r ts
      by (induction ts arbitrary: r) (auto intro: order_trans [OF use_session_extends])
    have "t = u" using False Cons.prems(4) by simp
    moreover have "u < s_expires_at s"
      using Cons.prems by (auto simp: session_is_expired_def)
    moreover have "s_expires_at s \<le> s_expires_at (use_session_at (use_session s u) us)"
      using use_session_extends [of s u] grow [of "use_session s u" us] by linarith
    ultimately show ?thesis by simp
  qed
qed simp


subsection \<open>Properties\<close>

text \<open>
  A token issued for a session, an invitation or a password reset is read back, by the decoder of
  each of the three kinds, as exactly the digest that was stored beside it; and the client's copy is
  43 characters of the URL-safe alphabet, so it survives a cookie and a link unescaped.
\<close>
theorem issued_token_read_back:
  assumes "new_opaque_token sha (Some raw) = Inr (token, digest)"
    and "length raw = opaque_token_bytes"
  shows "session_token_digest sha token = Inr digest
    \<and> invitation_token_digest sha token = Inr digest
    \<and> password_reset_token_digest sha token = Inr digest
    \<and> length token = 43 \<and> set token \<subseteq> set url_alphabet"
proof -
  have "decode_opaque_token sha token = Inr digest"
    by (rule decode_new_opaque_token [OF assms])
  then have "session_token_digest sha token = Inr digest"
    "invitation_token_digest sha token = Inr digest"
    "password_reset_token_digest sha token = Inr digest"
    by (simp_all add: token_digest_defs)
  moreover have "token = base64_encode url_alphabet raw"
    using assms(1) by (simp add: new_opaque_token_def)
  then have "length token = 43" "set token \<subseteq> set url_alphabet"
    using assms(2) base64_encode_chars [OF alphabets_good(1)]
    by (simp_all add: length_base64_encode opaque_token_bytes_def)
  ultimately show ?thesis by simp
qed

theorem issued_token_read_back_witness:
  "session_token_digest id (base64_encode url_alphabet (replicate 32 7)) = Inr (replicate 32 7)"
  using issued_token_read_back
    [of id "replicate 32 7" "base64_encode url_alphabet (replicate 32 7)" "replicate 32 7"]
  by (simp add: new_opaque_token_def opaque_token_bytes_def)

end
