(* ===== verification/Password.thy ===== *)
theory Password
  imports Base64 GoText
begin

text \<open>
  Passwords: \<open>backend/internal/modules/identity/domain/password.go\<close>.  Argon2id
  (\<open>golang.org/x/crypto/argon2\<close>) and NFKC (\<open>golang.org/x/text/unicode/norm\<close>) are parameters;
  so are the number of processors and the bytes read for a salt (\<open>None\<close> when reading failed).
  A Go string is its list of bytes.
\<close>

record argon2 =
  argon_version :: nat
  id_key :: "byte list \<Rightarrow> byte list \<Rightarrow> nat \<Rightarrow> nat \<Rightarrow> nat \<Rightarrow> nat \<Rightarrow> byte list"

text \<open>The conversion \<open>[]byte(s)\<close>.\<close>

definition to_bytes :: "string \<Rightarrow> byte list" where
  "to_bytes s = map of_char s"

definition argonMemoryKiB :: nat where "argonMemoryKiB = 19 * 1024"
definition argonTime :: nat where "argonTime = 2"
definition argonThreads :: nat where "argonThreads = 1"
definition saltLength :: nat where "saltLength = 16"
definition keyLength :: nat where "keyLength = 32"
definition MinPasswordLength :: nat where "MinPasswordLength = 12"
definition MaxPasswordLength :: nat where "MaxPasswordLength = 1024"
definition maxCostFactor :: nat where "maxCostFactor = 8"

lemmas argon_defs = argonMemoryKiB_def argonTime_def argonThreads_def saltLength_def keyLength_def
lemmas password_consts = argon_defs MinPasswordLength_def MaxPasswordLength_def maxCostFactor_def

text \<open>What \<open>ErrHashUnreadable\<close> is wrapped with.\<close>

datatype unreadable =
  FieldCount nat
  | Algorithm string
  | VersionField string
  | OtherVersion int
  | ParameterField string
  | ZeroParameters string
  | BeyondLimits string
  | SaltNotBase64
  | HashNotBase64
  | SaltAndHashLength nat nat
  | HashLength nat

datatype password_error =
  ErrPasswordMismatch
  | ErrPasswordTooLong
  | ErrPasswordTooShort
  | ErrHashUnreadable unreadable
  | ErrReadSalt

subsection \<open>The stored form\<close>

definition encode_hash :: "nat \<Rightarrow> nat \<Rightarrow> nat \<Rightarrow> nat \<Rightarrow> byte list \<Rightarrow> byte list \<Rightarrow> string" where
  "encode_hash version memory passes threads salt key =
     ''$argon2id$v='' @ dec_string version @ ''$m='' @ dec_string memory @ '',t='' @ dec_string passes
       @ '',p='' @ dec_string threads @ ''$'' @ base64_encode std_alphabet salt
       @ ''$'' @ base64_encode std_alphabet key"

definition scan_parameters :: "string \<Rightarrow> (nat \<times> nat \<times> nat) option" where
  "scan_parameters s =
     (case scan_literal ''m='' s of None \<Rightarrow> None | Some s1 \<Rightarrow>
      case scan_uint 32 s1 of None \<Rightarrow> None | Some (memory, s2) \<Rightarrow>
      case scan_literal '',t='' s2 of None \<Rightarrow> None | Some s3 \<Rightarrow>
      case scan_uint 32 s3 of None \<Rightarrow> None | Some (passes, s4) \<Rightarrow>
      case scan_literal '',p='' s4 of None \<Rightarrow> None | Some s5 \<Rightarrow>
      case scan_uint 8 s5 of None \<Rightarrow> None | Some (threads, _) \<Rightarrow> Some (memory, passes, threads))"

definition scan_version :: "string \<Rightarrow> int option" where
  "scan_version s =
     (case scan_literal ''v='' s of None \<Rightarrow> None | Some s1 \<Rightarrow> map_option fst (scan_int s1))"

definition decode_hash ::
  "argon2 \<Rightarrow> nat \<Rightarrow> string \<Rightarrow> password_error + nat \<times> nat \<times> nat \<times> byte list \<times> byte list" where
  "decode_hash a cpus encoded =
     (let fields = split_on CHR ''$'' encoded in
      if length fields \<noteq> 6 \<or> fields ! 0 \<noteq> [] then Inl (ErrHashUnreadable (FieldCount (length fields)))
      else if fields ! 1 \<noteq> ''argon2id'' then Inl (ErrHashUnreadable (Algorithm (fields ! 1)))
      else case scan_version (fields ! 2) of
        None \<Rightarrow> Inl (ErrHashUnreadable (VersionField (fields ! 2)))
      | Some version \<Rightarrow>
        if version \<noteq> int (argon_version a) then Inl (ErrHashUnreadable (OtherVersion version))
        else case scan_parameters (fields ! 3) of
          None \<Rightarrow> Inl (ErrHashUnreadable (ParameterField (fields ! 3)))
        | Some (memory, passes, threads) \<Rightarrow>
          if memory = 0 \<or> passes = 0 \<or> threads = 0
          then Inl (ErrHashUnreadable (ZeroParameters (fields ! 3)))
          else if memory > argonMemoryKiB * maxCostFactor \<or> passes > argonTime * maxCostFactor
            \<or> threads > cpus
          then Inl (ErrHashUnreadable (BeyondLimits (fields ! 3)))
          else case base64_decode std_alphabet (fields ! 4) of
            None \<Rightarrow> Inl (ErrHashUnreadable SaltNotBase64)
          | Some salt \<Rightarrow>
            case base64_decode std_alphabet (fields ! 5) of
              None \<Rightarrow> Inl (ErrHashUnreadable HashNotBase64)
            | Some key \<Rightarrow>
              if length salt < saltLength \<or> length key < keyLength div 2 \<or> length key > keyLength * 2
              then Inl (ErrHashUnreadable (SaltAndHashLength (length salt) (length key)))
              else Inr (memory, passes, threads, salt, key))"

subsection \<open>The operations\<close>

definition validate_password :: "(string \<Rightarrow> string) \<Rightarrow> string \<Rightarrow> password_error + string" where
  "validate_password nfkc plain =
     (let normalised = nfkc plain in
      if length normalised > MaxPasswordLength then Inl ErrPasswordTooLong
      else if rune_count normalised < MinPasswordLength then Inl ErrPasswordTooShort
      else Inr normalised)"

definition hash_password ::
  "argon2 \<Rightarrow> (string \<Rightarrow> string) \<Rightarrow> byte list option \<Rightarrow> string \<Rightarrow> password_error + string" where
  "hash_password a nfkc random plain =
     (case validate_password nfkc plain of
        Inl e \<Rightarrow> Inl e
      | Inr normalised \<Rightarrow>
        (case random of
           None \<Rightarrow> Inl ErrReadSalt
         | Some salt \<Rightarrow>
           Inr (encode_hash (argon_version a) argonMemoryKiB argonTime argonThreads salt
             (id_key a (to_bytes normalised) salt argonTime argonMemoryKiB argonThreads keyLength))))"

definition verify_password ::
  "argon2 \<Rightarrow> nat \<Rightarrow> (string \<Rightarrow> string) \<Rightarrow> string \<Rightarrow> string \<Rightarrow> password_error option" where
  "verify_password a cpus nfkc encoded plain =
     (case decode_hash a cpus encoded of
        Inl e \<Rightarrow> Some e
      | Inr (memory, passes, threads, salt, want) \<Rightarrow>
        let normalised = nfkc plain in
        if length normalised > MaxPasswordLength then Some ErrPasswordMismatch
        else let size = length want in
          if size < keyLength div 2 \<or> size > keyLength * 2
          then Some (ErrHashUnreadable (HashLength size))
          else let got = id_key a (to_bytes normalised) salt passes memory threads size in
            if got \<noteq> want then Some ErrPasswordMismatch else None)"

definition needs_rehash :: "argon2 \<Rightarrow> nat \<Rightarrow> string \<Rightarrow> bool" where
  "needs_rehash a cpus encoded =
     (case decode_hash a cpus encoded of
        Inl e \<Rightarrow> True
      | Inr (memory, passes, threads, salt, key) \<Rightarrow>
        memory < argonMemoryKiB \<or> passes < argonTime \<or> threads \<noteq> argonThreads
        \<or> length key \<noteq> keyLength)"

subsection \<open>Reading back what was written\<close>

lemma no_dollar_digits: "CHR ''$'' \<notin> set (dec_string n)"
  using dec_string_digits [of n] by (auto simp: is_dec_digit_def less_eq_char_def)

lemma no_dollar_std: "CHR ''$'' \<notin> set (base64_encode std_alphabet bs)"
proof -
  have "CHR ''$'' \<notin> set std_alphabet" by code_simp
  then show ?thesis using base64_encode_chars [OF alphabets_good(2), of bs] by auto
qed

lemma encode_hash_fields:
  "split_on CHR ''$'' (encode_hash v m t p salt key) =
    [[], ''argon2id'', ''v='' @ dec_string v,
     ''m='' @ dec_string m @ '',t='' @ dec_string t @ '',p='' @ dec_string p,
     base64_encode std_alphabet salt, base64_encode std_alphabet key]"
proof -
  let ?d = "CHR ''$''"
  have shape: "encode_hash v m t p salt key =
    ?d # ''argon2id'' @ ?d # (''v='' @ dec_string v) @
    ?d # (''m='' @ dec_string m @ '',t='' @ dec_string t @ '',p='' @ dec_string p) @
    ?d # base64_encode std_alphabet salt @ ?d # base64_encode std_alphabet key"
    by (simp add: encode_hash_def)
  let ?a = "''argon2id''" and ?v = "''v='' @ dec_string v"
    and ?p = "''m='' @ dec_string m @ '',t='' @ dec_string t @ '',p='' @ dec_string p"
  have free: "?d \<notin> set ?a" "?d \<notin> set ?v" "?d \<notin> set ?p"
    by (simp_all add: no_dollar_digits)
  have first: "split_on ?d (?d # xs) = [] # split_on ?d xs" for xs by simp
  show ?thesis
    unfolding shape first split_on_append [OF free(1)] split_on_append [OF free(2)]
      split_on_append [OF free(3)] split_on_append [OF no_dollar_std] split_on_free [OF no_dollar_std]
    by (rule refl)
qed

lemma stops_number_literals [simp]:
  "stops_number []" "stops_number (CHR '','' # s)"
  by (simp_all add: stops_number_def is_dec_digit_def less_eq_char_def)

lemma scan_version_dec_string:
  "v < 2 ^ 63 \<Longrightarrow> scan_version (''v='' @ dec_string v) = Some (int v)"
  using scan_int_dec_string [of "[]" v] by (simp add: scan_version_def scan_literal_def)

lemma scan_parameters_printed:
  assumes "m < 2 ^ 32" "t < 2 ^ 32" "p < 2 ^ 8"
  shows "scan_parameters (''m='' @ dec_string m @ '',t='' @ dec_string t @ '',p='' @ dec_string p)
    = Some (m, t, p)"
proof -
  let ?sp = "'',p='' @ dec_string p" and ?st = "'',t='' @ dec_string t @ '',p='' @ dec_string p"
  have "scan_uint 8 (dec_string p) = Some (p, [])"
    using scan_uint_dec_string [of "[]" p 8] assms by simp
  moreover have "scan_uint 32 (dec_string t @ ?sp) = Some (t, ?sp)"
    by (rule scan_uint_dec_string) (use assms in simp_all)
  moreover have "scan_uint 32 (dec_string m @ ?st) = Some (m, ?st)"
    by (rule scan_uint_dec_string) (use assms in simp_all)
  ultimately show ?thesis
    unfolding scan_parameters_def
    by (simp only: scan_literal_append option.case prod.case)
qed

text \<open>The parameters a stored hash may carry.\<close>

definition hash_in_bounds :: "nat \<Rightarrow> nat \<Rightarrow> nat \<Rightarrow> nat \<Rightarrow> byte list \<Rightarrow> byte list \<Rightarrow> bool" where
  "hash_in_bounds cpus m t p salt key \<longleftrightarrow>
     0 < m \<and> m \<le> argonMemoryKiB * maxCostFactor \<and> 0 < t \<and> t \<le> argonTime * maxCostFactor \<and>
     0 < p \<and> p \<le> cpus \<and> saltLength \<le> length salt \<and>
     keyLength div 2 \<le> length key \<and> length key \<le> keyLength * 2"

lemma decode_encode:
  assumes "hash_in_bounds cpus m t p salt key" "p < 2 ^ 8" "argon_version a < 2 ^ 63"
  shows "decode_hash a cpus (encode_hash (argon_version a) m t p salt key) = Inr (m, t, p, salt, key)"
proof -
  have bounds: "m < 2 ^ 32" "t < 2 ^ 32" using assms(1) by (auto simp: hash_in_bounds_def password_consts)
  note scans = scan_version_dec_string [OF assms(3)] scan_parameters_printed [OF bounds assms(2)]
  have lims: "\<not> (m = 0 \<or> t = 0 \<or> p = 0)"
    "\<not> (m > argonMemoryKiB * maxCostFactor \<or> t > argonTime * maxCostFactor \<or> p > cpus)"
    "\<not> (length salt < saltLength \<or> length key < keyLength div 2 \<or> length key > keyLength * 2)"
    using assms(1) by (auto simp: hash_in_bounds_def)
  show ?thesis
    unfolding decode_hash_def Let_def encode_hash_fields
    using scans lims by (simp add: base64_roundtrip del: append_Cons)
qed

lemma decode_hash_bounds:
  assumes "decode_hash a cpus h = Inr (m, t, p, salt, key)"
  shows "hash_in_bounds cpus m t p salt key"
  using assms unfolding decode_hash_def Let_def hash_in_bounds_def
  by (auto split: if_splits option.splits)


subsection \<open>Properties\<close>

lemma hash_password_Inr:
  "hash_password a nfkc random plain = Inr h \<longleftrightarrow>
    (\<exists>salt. random = Some salt \<and> length (nfkc plain) \<le> MaxPasswordLength \<and>
      MinPasswordLength \<le> rune_count (nfkc plain) \<and>
      h = encode_hash (argon_version a) argonMemoryKiB argonTime argonThreads salt
        (id_key a (to_bytes (nfkc plain)) salt argonTime argonMemoryKiB argonThreads keyLength))"
  by (auto simp: hash_password_def validate_password_def Let_def not_less split: option.splits)

text \<open>
  What the code relies on of Argon2id: it returns as many bytes as it is asked for, and its
  version is a number of the range of \<open>int\<close>.
\<close>

definition argon2_documented :: "argon2 \<Rightarrow> bool" where
  "argon2_documented a \<longleftrightarrow>
     argon_version a < 2 ^ 63 \<and>
     (\<forall>pw salt t m p size. length (id_key a pw salt t m p size) = size)"

lemma decode_hash_password:
  assumes "hash_password a nfkc (Some salt) plain = Inr h" "argon2_documented a"
    "length salt = saltLength" "0 < cpus"
  shows "decode_hash a cpus h = Inr (argonMemoryKiB, argonTime, argonThreads, salt,
    id_key a (to_bytes (nfkc plain)) salt argonTime argonMemoryKiB argonThreads keyLength)"
proof -
  let ?key = "id_key a (to_bytes (nfkc plain)) salt argonTime argonMemoryKiB argonThreads keyLength"
  from assms have "hash_in_bounds cpus argonMemoryKiB argonTime argonThreads salt ?key"
    by (simp add: hash_in_bounds_def argon2_documented_def password_consts)
  from decode_encode [OF this, of a] assms show ?thesis
    by (simp add: hash_password_Inr argon2_documented_def argonThreads_def)
qed

lemma verify_fresh:
  assumes "hash_password a nfkc (Some salt) plain = Inr h" "argon2_documented a"
    "length salt = saltLength" "0 < cpus"
  shows "verify_password a cpus nfkc h g =
      (if length (nfkc g) \<le> MaxPasswordLength \<and>
          id_key a (to_bytes (nfkc g)) salt argonTime argonMemoryKiB argonThreads keyLength
          = id_key a (to_bytes (nfkc plain)) salt argonTime argonMemoryKiB argonThreads keyLength
       then None else Some ErrPasswordMismatch)"
    "\<not> needs_rehash a cpus h"
proof -
  note d = decode_hash_password [OF assms]
  have len: "length (id_key a pw salt t m p size) = size" for pw t m p size
    using assms(2) by (simp add: argon2_documented_def)
  show "verify_password a cpus nfkc h g =
      (if length (nfkc g) \<le> MaxPasswordLength \<and>
          id_key a (to_bytes (nfkc g)) salt argonTime argonMemoryKiB argonThreads keyLength
          = id_key a (to_bytes (nfkc plain)) salt argonTime argonMemoryKiB argonThreads keyLength
       then None else Some ErrPasswordMismatch)"
    by (simp add: verify_password_def d len Let_def not_less) (simp add: keyLength_def)
  show "\<not> needs_rehash a cpus h" by (simp add: needs_rehash_def d len)
qed

text \<open>
  C5: a stored hash lets in exactly the passwords that hash alike.  Whatever \<open>HashPassword\<close>
  stored for a password, \<open>VerifyPassword\<close> accepts that password against it, however it is
  typed (only its NFKC form matters); it accepts another guess only if Argon2id gives the same key for
  both, and answers every other guess with a mismatch, never with an unreadable hash.  A fresh hash
  never asks to be rewritten.
\<close>
theorem stored_hash_verifies:
  assumes "hash_password a nfkc (Some salt) plain = Inr h" "argon2_documented a"
    and "length salt = saltLength" "0 < cpus"
  shows "verify_password a cpus nfkc h guess =
      (if length (nfkc guess) \<le> MaxPasswordLength \<and>
          id_key a (to_bytes (nfkc guess)) salt argonTime argonMemoryKiB argonThreads keyLength
          = id_key a (to_bytes (nfkc plain)) salt argonTime argonMemoryKiB argonThreads keyLength
       then None else Some ErrPasswordMismatch)
    \<and> verify_password a cpus nfkc h plain = None
    \<and> \<not> needs_rehash a cpus h"
  using verify_fresh [OF assms] assms(1) by (simp add: hash_password_Inr)

definition sample_argon2 :: argon2 where
  "sample_argon2 =
     \<lparr>argon_version = 19, id_key = (\<lambda>pw salt t m p size. take size (pw @ replicate size 0))\<rparr>"

lemma stored_hash_verifies_witness:
  "\<exists>h. hash_password sample_argon2 id (Some (replicate 16 1)) ''correct horse'' = Inr h \<and>
    verify_password sample_argon2 4 id h ''correct horse'' = None \<and>
    verify_password sample_argon2 4 id h ''battery staple'' = Some ErrPasswordMismatch"
proof -
  have doc: "argon2_documented sample_argon2"
    by (auto simp: argon2_documented_def sample_argon2_def)
  obtain h where h: "hash_password sample_argon2 id (Some (replicate 16 1)) ''correct horse'' = Inr h"
    by (simp add: hash_password_def validate_password_def rune_count.simps password_consts byte_in_def)
  have ne: "id_key sample_argon2 (to_bytes ''battery staple'') (replicate 16 1) argonTime
      argonMemoryKiB argonThreads keyLength \<noteq>
    id_key sample_argon2 (to_bytes ''correct horse'') (replicate 16 1) argonTime
      argonMemoryKiB argonThreads keyLength"
    by (simp add: sample_argon2_def keyLength_def to_bytes_def)
  note t = stored_hash_verifies [OF h doc, of 4]
  show ?thesis
    using h t [of "''battery staple''"] ne by (simp add: saltLength_def)
qed

text \<open>
  C6: what a stored string can ask of the server is bounded.  Verifying a password against any
  string whatever calls Argon2id only with at most eight times the memory and passes in force, no more
  threads than processors, an input of at most 1024 bytes and a key of at most 64: two
  implementations that agree on those calls cannot be told apart.
\<close>
theorem verify_cost_bounded:
  assumes "argon_version a = argon_version b"
    and "\<And>pw salt t m p size. length pw \<le> MaxPasswordLength \<Longrightarrow> saltLength \<le> length salt \<Longrightarrow>
      0 < t \<and> t \<le> 16 \<Longrightarrow> 0 < m \<and> m \<le> 152 * 1024 \<Longrightarrow> 0 < p \<and> p \<le> cpus \<Longrightarrow>
      16 \<le> size \<and> size \<le> 64 \<Longrightarrow> id_key a pw salt t m p size = id_key b pw salt t m p size"
  shows "verify_password a cpus nfkc stored guess = verify_password b cpus nfkc stored guess"
proof -
  have same: "decode_hash a cpus stored = decode_hash b cpus stored"
    by (simp only: decode_hash_def assms(1))
  show ?thesis
  proof (cases "decode_hash b cpus stored")
    case (Inl e)
    with same show ?thesis by (simp add: verify_password_def)
  next
    case (Inr r)
    obtain m t p salt key where r: "r = (m, t, p, salt, key)" by (cases r)
    from decode_hash_bounds [OF Inr [unfolded r]] have
      "id_key a pw salt t m p (length key) = id_key b pw salt t m p (length key)"
      if "length pw \<le> MaxPasswordLength" for pw
      using that by (intro assms(2)) (simp_all add: hash_in_bounds_def password_consts)
    with same Inr r show ?thesis
      by (simp add: verify_password_def Let_def to_bytes_def not_less)
  qed
qed

lemma verify_cost_bounded_witness:
  "verify_password sample_argon2 4 id ''$argon2id$v=19$m=4294967295,t=9,p=1$AQ$AQ'' ''guess'' =
    verify_password (sample_argon2\<lparr>id_key := (\<lambda>pw salt t m p size.
      if m \<le> 152 * 1024 then id_key sample_argon2 pw salt t m p size else [])\<rparr>) 4 id
      ''$argon2id$v=19$m=4294967295,t=9,p=1$AQ$AQ'' ''guess''"
  by (rule verify_cost_bounded) simp_all

text \<open>
  The stored form survives the round trip with whatever parameters it was written, as long as
  they are within the limits, so raising the cost does not invalidate older hashes; and nothing
  outside the limits is ever read back from any string.
\<close>
theorem hash_encoding_roundtrip:
  assumes "argon_version a < 2 ^ 63" "threads < 2 ^ 8"
  shows "(hash_in_bounds cpus memory passes threads salt key \<longleftrightarrow>
      decode_hash a cpus (encode_hash (argon_version a) memory passes threads salt key)
        = Inr (memory, passes, threads, salt, key))
    \<and> (\<forall>stored m t p s k. decode_hash a cpus stored = Inr (m, t, p, s, k) \<longrightarrow>
      hash_in_bounds cpus m t p s k)"
  using decode_encode [OF _ assms(2,1)] decode_hash_bounds by blast

lemma hash_encoding_roundtrip_witness:
  "decode_hash sample_argon2 2 (encode_hash 19 4096 3 2 (replicate 16 1) (replicate 32 2))
    = Inr (4096, 3, 2, replicate 16 1, replicate 32 2)"
  using hash_encoding_roundtrip [of sample_argon2 2 2 4096 3 "replicate 16 1" "replicate 32 2"]
  by (simp add: sample_argon2_def hash_in_bounds_def password_consts)

end
