(* ===== verification/Redis.thy ===== *)
theory Redis
  imports GoText GoTime
begin

text \<open>
  The rate limiter and the failure counter: \<open>backend/internal/redis\<close>.  Redis itself is the
  parameter \<open>'r redis\<close>: its commands on a server state \<open>'r\<close>.  The three Lua scripts are Isabelle
  functions over those commands; a script is atomic, so it is one step on the server state.
  Members of a sorted set and key names are strings, scores are integers: the scripts use
  milliseconds, which a Lua number holds exactly and prints in full below ten to the fourteenth.
\<close>

subsection \<open>The commands the scripts call\<close>

text \<open>
  \<open>time_of\<close> is \<open>TIME\<close> (seconds and microseconds), \<open>zremrangebyscore k x\<close> removes the scores from
  \<open>-inf\<close> to \<open>x\<close>, \<open>zrange_first\<close> and \<open>zrangebyscore_first\<close> return the score of the first member
  (of those above \<open>x\<close>), \<open>zcount_above k x\<close> counts from \<open>(x\<close> to \<open>+inf\<close>.
\<close>

record 'r redis =
  time_of :: "'r \<Rightarrow> nat \<times> nat"
  zremrangebyscore :: "string \<Rightarrow> int \<Rightarrow> 'r \<Rightarrow> 'r"
  zcard :: "string \<Rightarrow> 'r \<Rightarrow> int"
  zrange_first :: "string \<Rightarrow> 'r \<Rightarrow> int option"
  zcount_above :: "string \<Rightarrow> int \<Rightarrow> 'r \<Rightarrow> int"
  zrangebyscore_first :: "string \<Rightarrow> int \<Rightarrow> 'r \<Rightarrow> int option"
  incr :: "string \<Rightarrow> 'r \<Rightarrow> int \<times> 'r"
  zadd :: "string \<Rightarrow> int \<Rightarrow> string \<Rightarrow> 'r \<Rightarrow> 'r"
  pexpire :: "string \<Rightarrow> int \<Rightarrow> 'r \<Rightarrow> 'r"
  del_keys :: "string list \<Rightarrow> 'r \<Rightarrow> 'r"

text \<open>How Lua and \<open>strconv.FormatInt\<close> print a whole number.\<close>

definition int_string :: "int \<Rightarrow> string" where
  "int_string n = (if n < 0 then CHR ''-'' # dec_string (nat (- n)) else dec_string (nat n))"

definition server_now :: "'r redis \<Rightarrow> 'r \<Rightarrow> int" where
  "server_now rd r = (let (secs, micros) = time_of rd r in int secs * 1000 + int (micros div 1000))"

subsection \<open>The script \<open>admitOne\<close>\<close>

text \<open>\<open>KEYS\<close> holds a hits key and a sequence key per tier, \<open>ARGV\<close> a window and a limit.\<close>

fun admit_check ::
  "'r redis \<Rightarrow> int \<Rightarrow> string list \<Rightarrow> int list \<Rightarrow> int \<Rightarrow> 'r \<Rightarrow> int \<times> 'r" where
  "admit_check rd now (hits # seq # keys) (window # limit # argv) wait r =
     (let r1 = zremrangebyscore rd hits (now - window) r in
      if zcard rd hits r1 \<ge> limit
      then let retry = (case zrange_first rd hits r1 of
                          None \<Rightarrow> window
                        | Some oldest \<Rightarrow> oldest + window - now)
           in admit_check rd now keys argv (if retry > wait then retry else wait) r1
      else admit_check rd now keys argv wait r1)"
| "admit_check rd now keys argv wait r = (wait, r)"

fun admit_record :: "'r redis \<Rightarrow> int \<Rightarrow> string list \<Rightarrow> int list \<Rightarrow> 'r \<Rightarrow> 'r" where
  "admit_record rd now (hits # seq # keys) (window # limit # argv) r =
     (let (n, r1) = incr rd seq r;
          r2 = zadd rd hits now (int_string now @ ''-'' @ int_string n) r1;
          r3 = pexpire rd hits window r2;
          r4 = pexpire rd seq window r3
      in admit_record rd now keys argv r4)"
| "admit_record rd now keys argv r = r"

definition admit_one :: "'r redis \<Rightarrow> string list \<Rightarrow> int list \<Rightarrow> 'r \<Rightarrow> int list \<times> 'r" where
  "admit_one rd keys argv r =
     (let now = server_now rd r;
          (wait, r1) = admit_check rd now keys argv 0 r
      in if wait > 0 then ([0, wait], r1)
         else ([1, 0], admit_record rd now keys argv r1))"

subsection \<open>The scripts \<open>countFailures\<close> and \<open>recordFailure\<close>\<close>

fun count_check :: "'r redis \<Rightarrow> int \<Rightarrow> string list \<Rightarrow> int list \<Rightarrow> int \<Rightarrow> 'r \<Rightarrow> int" where
  "count_check rd now (hits # keys) (window # limit # argv) wait r =
     (let alive = now - window in
      if zcount_above rd hits alive r \<ge> limit
      then let retry = (case zrangebyscore_first rd hits alive r of
                          None \<Rightarrow> window
                        | Some oldest \<Rightarrow> oldest + window - now)
           in count_check rd now keys argv (if retry > wait then retry else wait) r
      else count_check rd now keys argv wait r)"
| "count_check rd now keys argv wait r = wait"

definition count_failures :: "'r redis \<Rightarrow> string list \<Rightarrow> int list \<Rightarrow> 'r \<Rightarrow> int list \<times> 'r" where
  "count_failures rd keys argv r =
     (let wait = count_check rd (server_now rd r) keys argv 0 r
      in if wait > 0 then ([0, wait], r) else ([1, 0], r))"

fun record_loop :: "'r redis \<Rightarrow> int \<Rightarrow> string list \<Rightarrow> int list \<Rightarrow> 'r \<Rightarrow> 'r" where
  "record_loop rd now (hits # seq # keys) (window # argv) r =
     (let r0 = zremrangebyscore rd hits (now - window) r;
          (n, r1) = incr rd seq r0;
          r2 = zadd rd hits now (int_string now @ ''-'' @ int_string n) r1;
          r3 = pexpire rd hits window r2;
          r4 = pexpire rd seq window r3
      in record_loop rd now keys argv r4)"
| "record_loop rd now keys argv r = r"

definition record_failure :: "'r redis \<Rightarrow> string list \<Rightarrow> int list \<Rightarrow> 'r \<Rightarrow> int list \<times> 'r" where
  "record_failure rd keys argv r = ([1], record_loop rd (server_now rd r) keys argv r)"

subsection \<open>Tiers and keys\<close>

record tier =
  tier_limit :: int
  tier_window :: duration

definition rateLimitNamespace :: string where "rateLimitNamespace = ''ratelimit''"
definition failureNamespace :: string where "failureNamespace = ''failures''"

definition hits_key :: "string \<Rightarrow> int \<Rightarrow> string \<Rightarrow> string" where
  "hits_key namespace window key = namespace @ '':hits:'' @ int_string window @ '':'' @ key"

definition sequence_key :: "string \<Rightarrow> int \<Rightarrow> string \<Rightarrow> string" where
  "sequence_key namespace window key = namespace @ '':seq:'' @ int_string window @ '':'' @ key"

definition longest_window :: "tier list \<Rightarrow> duration" where
  "longest_window tiers = foldl (\<lambda>longest t. max longest (tier_window t)) 0 tiers"

subsection \<open>The Go operations\<close>

text \<open>The errors Go wraps: Redis did not answer, or the script answered with another shape.\<close>

datatype 'e redis_error = RedisDown string 'e | ScriptShape string nat

definition tier_keys :: "string \<Rightarrow> tier list \<Rightarrow> string \<Rightarrow> string list" where
  "tier_keys namespace tiers key =
     concat (map (\<lambda>t. let window = milliseconds (tier_window t)
                      in [hits_key namespace window key, sequence_key namespace window key]) tiers)"

definition tier_args :: "tier list \<Rightarrow> int list" where
  "tier_args tiers = concat (map (\<lambda>t. [milliseconds (tier_window t), tier_limit t]) tiers)"

definition verdict :: "tier list \<Rightarrow> string \<Rightarrow> 'e + int list \<Rightarrow> bool \<times> duration \<times> 'e redis_error option" where
  "verdict tiers key reply =
     (case reply of
        Inl e \<Rightarrow> (False, 0, Some (RedisDown key e))
      | Inr res \<Rightarrow>
        if length res \<noteq> 2 then (False, 0, Some (ScriptShape key (length res)))
        else if res ! 0 = 1 then (True, 0, None)
        else if res ! 1 \<le> 0 then (False, longest_window tiers, None)
        else (False, (res ! 1) * millisecond, None))"

definition allow ::
  "'r redis \<Rightarrow> tier list \<Rightarrow> 'e delivery \<Rightarrow> string \<Rightarrow> 'r \<Rightarrow>
    (bool \<times> duration \<times> 'e redis_error option) \<times> 'r" where
  "allow rd tiers d key r =
     (if tiers = [] then ((True, 0, None), r)
      else let (reply, r') = send d (admit_one rd (tier_keys rateLimitNamespace tiers key)
                 (tier_args tiers)) r
           in (verdict tiers key reply, r'))"

definition check ::
  "'r redis \<Rightarrow> tier list \<Rightarrow> 'e delivery \<Rightarrow> string \<Rightarrow> 'r \<Rightarrow>
    (bool \<times> duration \<times> 'e redis_error option) \<times> 'r" where
  "check rd tiers d key r =
     (if tiers = [] then ((True, 0, None), r)
      else let keys = map (\<lambda>t. hits_key failureNamespace (milliseconds (tier_window t)) key) tiers;
               (reply, r') = send d (count_failures rd keys (tier_args tiers)) r
           in (verdict tiers key reply, r'))"

definition record_hit ::
  "'r redis \<Rightarrow> tier list \<Rightarrow> 'e delivery \<Rightarrow> string \<Rightarrow> 'r \<Rightarrow> 'e redis_error option \<times> 'r" where
  "record_hit rd tiers d key r =
     (if tiers = [] then (None, r)
      else let (reply, r') = send d (record_failure rd (tier_keys failureNamespace tiers key)
                 (map (\<lambda>t. milliseconds (tier_window t)) tiers)) r
           in (case reply of Inl e \<Rightarrow> (Some (RedisDown key e), r') | Inr _ \<Rightarrow> (None, r')))"

definition reset ::
  "'r redis \<Rightarrow> tier list \<Rightarrow> 'e delivery \<Rightarrow> string \<Rightarrow> 'r \<Rightarrow> 'e redis_error option \<times> 'r" where
  "reset rd tiers d key r =
     (if tiers = [] then (None, r)
      else let (reply, r') = send d (\<lambda>s. ((), del_keys rd (tier_keys failureNamespace tiers key) s)) r
           in (case reply of Inl e \<Rightarrow> (Some (RedisDown key e), r') | Inr _ \<Rightarrow> (None, r')))"

subsection \<open>The client (\<open>redis.go\<close>)\<close>

record redis_options =
  dial_timeout :: duration
  read_timeout :: duration
  write_timeout :: duration
  max_retries :: int
  pool_timeout :: duration
  pool_size :: int

text \<open>\<open>parse_url\<close> is go-redis's: it gives the options of the string, or an error.\<close>

definition redis_new :: "(string \<Rightarrow> redis_options option) \<Rightarrow> string \<Rightarrow> int \<Rightarrow> redis_options option" where
  "redis_new parse_url url conns =
     (case parse_url url of
        None \<Rightarrow> None
      | Some opts \<Rightarrow>
          Some (opts\<lparr>dial_timeout := 2 * second, read_timeout := 500 * millisecond,
            write_timeout := 500 * millisecond, max_retries := - 1, pool_timeout := second,
            pool_size := conns\<rparr>))"

subsection \<open>Keys are told apart\<close>

lemma int_string_chars: "c \<in> set (int_string n) \<Longrightarrow> is_dec_digit c \<or> c = CHR ''-''"
  using dec_string_digits by (auto simp: int_string_def split: if_splits)

lemma int_string_no_colon: "CHR '':'' \<notin> set (int_string n)"
  using int_string_chars [of "CHR '':''" n] by (auto simp: is_dec_digit_def less_eq_char_def)

lemma int_string_inj: "int_string m = int_string n \<longleftrightarrow> m = n"
proof
  have sign: "CHR ''-'' # dec_string i \<noteq> dec_string j" for i j
  proof
    assume eq: "CHR ''-'' # dec_string i = dec_string j"
    have "CHR ''-'' \<in> set (dec_string j)" unfolding eq [symmetric] by simp
    then show False using dec_string_digits [of j] by (auto simp: is_dec_digit_def less_eq_char_def)
  qed
  show "int_string m = int_string n \<Longrightarrow> m = n"
    by (auto simp: int_string_def sign sign [symmetric] dest: dec_string_inj split: if_splits)
qed simp

lemma split_at_sep:
  assumes "xs @ c # ys = xs' @ c # ys'" "c \<notin> set xs" "c \<notin> set xs'"
  shows "xs = xs' \<and> ys = ys'"
  using assms
  by (induction xs arbitrary: xs') (case_tac xs'; auto)+

lemma hits_key_inj: "hits_key ns w k = hits_key ns w' k' \<longleftrightarrow> w = w' \<and> k = k'"
  using split_at_sep [of "int_string w" "CHR '':''" k "int_string w'" k']
  by (auto simp: hits_key_def int_string_no_colon int_string_inj)

lemma sequence_key_inj: "sequence_key ns w k = sequence_key ns w' k' \<longleftrightarrow> w = w' \<and> k = k'"
  using split_at_sep [of "int_string w" "CHR '':''" k "int_string w'" k']
  by (auto simp: sequence_key_def int_string_no_colon int_string_inj)

lemma hits_not_sequence [simp]: "hits_key ns w k \<noteq> sequence_key ns w' k'"
  "sequence_key ns w' k' \<noteq> hits_key ns w k"
  by (simp_all add: hits_key_def sequence_key_def)

lemma namespaces_differ [simp]:
  "hits_key rateLimitNamespace w k \<noteq> hits_key failureNamespace w' k'"
  "sequence_key rateLimitNamespace w k \<noteq> sequence_key failureNamespace w' k'"
  by (simp_all add: hits_key_def sequence_key_def rateLimitNamespace_def failureNamespace_def)

end
