(* ===== verification/Redis_Db.thy ===== *)
theory Redis_Db
  imports Redis
begin

text \<open>
  What the scripts rely on of Redis.  \<open>db\<close> is the database as the documentation describes it: the
  live keys, each with its value and the time it expires at.  \<open>redis_documented\<close> says that a
  server's commands act on the database seen through \<open>view\<close> as documented; the locale
  \<open>redis_server\<close> derives that the scripts then act as the same scripts on a \<open>db\<close>.
\<close>

text \<open>A sorted set is its members with their scores, no member twice.\<close>

datatype redis_value = ZSet "(string \<times> int) list" | Counter int

record db =
  seconds :: nat
  microseconds :: nat
  entries :: "string \<Rightarrow> (redis_value \<times> int option) option"

definition db_now :: "db \<Rightarrow> int" where
  "db_now db = int (seconds db) * 1000 + int (microseconds db div 1000)"

definition holds_zset :: "db \<Rightarrow> string \<Rightarrow> bool" where
  "holds_zset db k = (case entries db k of Some (Counter _, _) \<Rightarrow> False | _ \<Rightarrow> True)"

definition holds_counter :: "db \<Rightarrow> string \<Rightarrow> bool" where
  "holds_counter db k = (case entries db k of Some (ZSet _, _) \<Rightarrow> False | _ \<Rightarrow> True)"

definition zset_at :: "db \<Rightarrow> string \<Rightarrow> (string \<times> int) list" where
  "zset_at db k = (case entries db k of Some (ZSet l, _) \<Rightarrow> l | _ \<Rightarrow> [])"

definition counter_at :: "db \<Rightarrow> string \<Rightarrow> int" where
  "counter_at db k = (case entries db k of Some (Counter n, _) \<Rightarrow> n | _ \<Rightarrow> 0)"

text \<open>Writing a value keeps the key's expiry; an empty sorted set is no key at all.\<close>

definition put :: "string \<Rightarrow> redis_value \<Rightarrow> db \<Rightarrow> db" where
  "put k v db = db\<lparr>entries := (entries db)
     (k := (if v = ZSet [] then None
            else Some (v, case entries db k of None \<Rightarrow> None | Some (_, expiry) \<Rightarrow> expiry)))\<rparr>"

definition lowest :: "(string \<times> int) list \<Rightarrow> int option" where
  "lowest l = (if l = [] then None else Some (fold min (map snd l) (snd (hd l))))"

definition db_zrem :: "string \<Rightarrow> int \<Rightarrow> db \<Rightarrow> db" where
  "db_zrem k x db = put k (ZSet (filter (\<lambda>(m, s). \<not> s \<le> x) (zset_at db k))) db"

definition db_zadd :: "string \<Rightarrow> int \<Rightarrow> string \<Rightarrow> db \<Rightarrow> db" where
  "db_zadd k s m db = put k (ZSet ((m, s) # filter (\<lambda>p. fst p \<noteq> m) (zset_at db k))) db"

definition db_incr :: "string \<Rightarrow> db \<Rightarrow> int \<times> db" where
  "db_incr k db = (let n = counter_at db k + 1 in (n, put k (Counter n) db))"

definition db_pexpire :: "string \<Rightarrow> int \<Rightarrow> db \<Rightarrow> db" where
  "db_pexpire k ms db = db\<lparr>entries := (entries db)
     (k := (case entries db k of
              None \<Rightarrow> None
            | Some (v, _) \<Rightarrow> if ms \<le> 0 then None else Some (v, Some (db_now db + ms))))\<rparr>"

definition db_del :: "string list \<Rightarrow> db \<Rightarrow> db" where
  "db_del ks db = db\<lparr>entries := (\<lambda>k. if k \<in> set ks then None else entries db k)\<rparr>"

definition above :: "int \<Rightarrow> (string \<times> int) list \<Rightarrow> (string \<times> int) list" where
  "above x l = filter (\<lambda>(m, s). \<not> s \<le> x) l"

definition db_redis :: "db redis" where
  "db_redis =
     \<lparr>time_of = (\<lambda>db. (seconds db, microseconds db)),
      zremrangebyscore = db_zrem,
      zcard = (\<lambda>k db. int (length (zset_at db k))),
      zrange_first = (\<lambda>k db. lowest (zset_at db k)),
      zcount_above = (\<lambda>k x db. int (length (above x (zset_at db k)))),
      zrangebyscore_first = (\<lambda>k x db. lowest (above x (zset_at db k))),
      incr = db_incr,
      zadd = db_zadd,
      pexpire = db_pexpire,
      del_keys = db_del\<rparr>"

text \<open>
  The clock moves on: a key whose time has passed is gone.  \<open>env_step ks d d'\<close> is whatever happens
  between two commands of this application: time passes and other keys than \<open>ks\<close> may change.
\<close>

definition alive_at :: "int \<Rightarrow> redis_value \<times> int option \<Rightarrow> bool" where
  "alive_at t e = (case snd e of None \<Rightarrow> True | Some expiry \<Rightarrow> t \<le> expiry)"

definition expire :: "int \<Rightarrow> (redis_value \<times> int option) option \<Rightarrow> (redis_value \<times> int option) option" where
  "expire t e = (case e of None \<Rightarrow> None | Some v \<Rightarrow> if alive_at t v then Some v else None)"

definition env_step :: "string set \<Rightarrow> db \<Rightarrow> db \<Rightarrow> bool" where
  "env_step ks d d' \<longleftrightarrow> db_now d \<le> db_now d' \<and> (\<forall>k \<in> ks. entries d' k = expire (db_now d') (entries d k))"

text \<open>The documented behaviour of the commands, on keys that hold the right kind of value.\<close>

definition redis_documented :: "'r redis \<Rightarrow> ('r \<Rightarrow> db) \<Rightarrow> bool" where
  "redis_documented rd view \<longleftrightarrow>
     (\<forall>r. time_of rd r = (seconds (view r), microseconds (view r))) \<and>
     (\<forall>r k. holds_zset (view r) k \<longrightarrow>
        (\<forall>x. view (zremrangebyscore rd k x r) = db_zrem k x (view r)) \<and>
        zcard rd k r = int (length (zset_at (view r) k)) \<and>
        zrange_first rd k r = lowest (zset_at (view r) k) \<and>
        (\<forall>x. zcount_above rd k x r = int (length (above x (zset_at (view r) k)))) \<and>
        (\<forall>x. zrangebyscore_first rd k x r = lowest (above x (zset_at (view r) k))) \<and>
        (\<forall>s m. view (zadd rd k s m r) = db_zadd k s m (view r))) \<and>
     (\<forall>r k. holds_counter (view r) k \<longrightarrow>
        fst (incr rd k r) = fst (db_incr k (view r)) \<and>
        view (snd (incr rd k r)) = snd (db_incr k (view r))) \<and>
     (\<forall>r k ms. view (pexpire rd k ms r) = db_pexpire k ms (view r)) \<and>
     (\<forall>r ks. view (del_keys rd ks r) = db_del ks (view r))"

lemma db_redis_commands [simp]:
  "time_of db_redis = (\<lambda>db. (seconds db, microseconds db))"
  "zremrangebyscore db_redis = db_zrem" "zcard db_redis = (\<lambda>k db. int (length (zset_at db k)))"
  "zrange_first db_redis = (\<lambda>k db. lowest (zset_at db k))"
  "zcount_above db_redis = (\<lambda>k x db. int (length (above x (zset_at db k))))"
  "zrangebyscore_first db_redis = (\<lambda>k x db. lowest (above x (zset_at db k)))"
  "incr db_redis = db_incr" "zadd db_redis = db_zadd" "pexpire db_redis = db_pexpire"
  "del_keys db_redis = db_del"
  by (simp_all add: db_redis_def)

lemma db_redis_documented: "redis_documented db_redis (\<lambda>d. d)"
  by (simp add: redis_documented_def)

subsection \<open>The kinds of values are kept\<close>

lemma db_now_updates [simp]:
  "db_now (put k v db) = db_now db" "db_now (db_zrem k x db) = db_now db"
  "db_now (db_zadd k s m db) = db_now db" "db_now (snd (db_incr k db)) = db_now db"
  "db_now (db_pexpire k ms db) = db_now db" "db_now (db_del ks db) = db_now db"
  by (simp_all add: db_now_def put_def db_zrem_def db_zadd_def db_incr_def db_pexpire_def db_del_def
      Let_def)

lemma holds_zset_updates [simp]:
  "holds_zset db k' \<Longrightarrow> holds_zset (db_zrem k x db) k'"
  "holds_zset db k' \<Longrightarrow> holds_zset (db_zadd k s m db) k'"
  "holds_zset db k' \<Longrightarrow> k \<noteq> k' \<Longrightarrow> holds_zset (snd (db_incr k db)) k'"
  "holds_zset db k' \<Longrightarrow> holds_zset (db_pexpire k ms db) k'"
  by (auto simp: holds_zset_def db_zrem_def db_zadd_def db_incr_def db_pexpire_def put_def Let_def
      split: option.splits prod.splits redis_value.splits)

lemma holds_counter_updates [simp]:
  "holds_counter db k' \<Longrightarrow> k \<noteq> k' \<Longrightarrow> holds_counter (db_zrem k x db) k'"
  "holds_counter db k' \<Longrightarrow> k \<noteq> k' \<Longrightarrow> holds_counter (db_zadd k s m db) k'"
  "holds_counter db k' \<Longrightarrow> holds_counter (snd (db_incr k db)) k'"
  "holds_counter db k' \<Longrightarrow> holds_counter (db_pexpire k ms db) k'"
  by (auto simp: holds_counter_def db_zrem_def db_zadd_def db_incr_def db_pexpire_def put_def Let_def
      split: option.splits prod.splits redis_value.splits)

subsection \<open>The scripts act on the server as they act on the database\<close>

text \<open>Hits keys and sequence keys alternate; the former hold sorted sets, the latter counters.\<close>

fun well_typed :: "db \<Rightarrow> string list \<Rightarrow> bool" where
  "well_typed db (hits # seq # keys) \<longleftrightarrow>
     holds_zset db hits \<and> holds_counter db seq \<and> well_typed db keys"
| "well_typed db _ \<longleftrightarrow> True"

fun hits_of :: "string list \<Rightarrow> string set" where
  "hits_of (hits # seq # keys) = insert hits (hits_of keys)"
| "hits_of _ = {}"

fun sequences_of :: "string list \<Rightarrow> string set" where
  "sequences_of (hits # seq # keys) = insert seq (sequences_of keys)"
| "sequences_of _ = {}"

definition apart :: "string list \<Rightarrow> bool" where
  "apart keys \<longleftrightarrow> hits_of keys \<inter> sequences_of keys = {}"

lemma well_typed_iff:
  "well_typed db keys \<longleftrightarrow> (\<forall>k \<in> hits_of keys. holds_zset db k) \<and> (\<forall>k \<in> sequences_of keys. holds_counter db k)"
  by (induction db keys rule: well_typed.induct) auto

lemma two_two_induct [case_names step nil one no_args one_arg]:
  fixes P :: "string list \<Rightarrow> int list \<Rightarrow> bool"
  assumes "\<And>h s ks w l as. P ks as \<Longrightarrow> P (h # s # ks) (w # l # as)"
    and "\<And>as. P [] as" "\<And>h as. P [h] as" "\<And>ks. P ks []" "\<And>ks w. P ks [w]"
  shows "P ks as"
proof (induction ks arbitrary: as rule: hits_of.induct)
  case (1 h s ks)
  show ?case
  proof (cases as)
    case (Cons w as')
    then show ?thesis using assms(1,5) 1 by (cases as') auto
  qed (simp add: assms(4))
qed (simp_all add: assms(2,3))

lemma admit_check_typed:
  assumes "well_typed db ks" "apart ks"
  shows "well_typed (snd (admit_check db_redis now ks argv wait db)) ks"
proof -
  have "\<lbrakk>well_typed d ks; hits_of keys \<inter> sequences_of ks = {}\<rbrakk> \<Longrightarrow>
    well_typed (snd (admit_check db_redis now keys argv wait d)) ks" for d keys
  proof (induction keys argv arbitrary: wait d rule: two_two_induct)
    case (step hits seq keys window limit argv)
    let ?d = "db_zrem hits (now - window) d"
    have "well_typed ?d ks" "hits_of keys \<inter> sequences_of ks = {}"
      using step.prems by (auto simp: well_typed_iff intro!: holds_counter_updates)
    from step.IH [OF this] show ?case by (simp add: Let_def)
  qed simp_all
  with assms show ?thesis by (simp add: apart_def)
qed

locale redis_server =
  fixes rd :: "'r redis" and view :: "'r \<Rightarrow> db"
  assumes documented: "redis_documented rd view"
begin

lemma time: "server_now rd r = db_now (view r)"
  using documented by (simp add: redis_documented_def server_now_def db_now_def)

lemma zset_laws:
  assumes "holds_zset (view r) k"
  shows "view (zremrangebyscore rd k x r) = db_zrem k x (view r)"
    "zcard rd k r = int (length (zset_at (view r) k))"
    "zrange_first rd k r = lowest (zset_at (view r) k)"
    "zcount_above rd k x r = int (length (above x (zset_at (view r) k)))"
    "zrangebyscore_first rd k x r = lowest (above x (zset_at (view r) k))"
    "view (zadd rd k s m r) = db_zadd k s m (view r)"
  using documented assms by (auto simp: redis_documented_def)

lemma counter_laws:
  assumes "holds_counter (view r) k" "incr rd k r = (n, r')"
  shows "n = counter_at (view r) k + 1" "view r' = snd (db_incr k (view r))"
proof -
  have "fst (incr rd k r) = fst (db_incr k (view r))"
    "view (snd (incr rd k r)) = snd (db_incr k (view r))"
    using documented assms(1) by (auto simp: redis_documented_def)
  with assms(2) show "n = counter_at (view r) k + 1" "view r' = snd (db_incr k (view r))"
    by (simp_all add: db_incr_def Let_def)
qed

lemma key_laws:
  "view (pexpire rd k ms r) = db_pexpire k ms (view r)" "view (del_keys rd ks r) = db_del ks (view r)"
  using documented by (simp_all add: redis_documented_def)

lemma admit_check_view:
  "\<forall>k \<in> hits_of keys. holds_zset (view r) k \<Longrightarrow>
    fst (admit_check rd now keys argv wait r) = fst (admit_check db_redis now keys argv wait (view r)) \<and>
    view (snd (admit_check rd now keys argv wait r)) = snd (admit_check db_redis now keys argv wait (view r))"
proof (induction keys argv arbitrary: wait r rule: two_two_induct)
  case (step hits seq keys window limit argv)
  have typed: "holds_zset (view r) hits" using step.prems by simp
  let ?r = "zremrangebyscore rd hits (now - window) r"
  have v: "view ?r = db_zrem hits (now - window) (view r)"
    by (rule zset_laws [OF typed])
  have typed': "holds_zset (view ?r) hits" "\<forall>k \<in> hits_of keys. holds_zset (view ?r) k"
    using step.prems by (simp_all add: v)
  note laws = zset_laws(2,3) [OF typed'(1)]
  show ?case
    unfolding admit_check.simps Let_def laws
    using step.IH [OF typed'(2)] by (simp add: v)
qed simp_all

lemma admit_record_view:
  "well_typed (view r) keys \<Longrightarrow> apart keys \<Longrightarrow>
    view (admit_record rd now keys argv r) = admit_record db_redis now keys argv (view r)"
proof (induction keys argv arbitrary: r rule: two_two_induct)
  case (step hits seq keys window limit argv)
  obtain n r1 where inc: "incr rd seq r = (n, r1)" by fastforce
  have ne: "seq \<noteq> hits" "\<forall>k \<in> hits_of keys. seq \<noteq> k" "\<forall>k \<in> sequences_of keys. hits \<noteq> k" "apart keys"
    using step.prems(2) by (auto simp: apart_def)
  let ?m = "int_string now @ CHR ''-'' # int_string n"
  let ?r4 = "pexpire rd seq window (pexpire rd hits window (zadd rd hits now ?m r1))"
  have c: "n = counter_at (view r) seq + 1" "view r1 = snd (db_incr seq (view r))"
    using counter_laws [OF _ inc] step.prems(1) by simp_all
  have z: "holds_zset (view r1) hits" using step.prems(1) ne by (simp add: c)
  have v: "view ?r4 = db_pexpire seq window (db_pexpire hits window (db_zadd hits now ?m (view r1)))"
    by (simp add: key_laws zset_laws(6) [OF z])
  have "well_typed (view ?r4) keys"
    using step.prems(1) ne unfolding v c(2) well_typed_iff by auto
  note ih = step.IH [OF this ne(4)]
  have "db_incr seq (view r) = (n, view r1)"
    using c by (simp add: db_incr_def Let_def)
  then show ?case by (simp add: inc Let_def ih v)
qed simp_all

lemma admit_one_view:
  assumes "well_typed (view r) keys" "apart keys"
  shows "fst (admit_one rd keys argv r) = fst (admit_one db_redis keys argv (view r))"
    "view (snd (admit_one rd keys argv r)) = snd (admit_one db_redis keys argv (view r))"
proof -
  obtain wait r1 where chk: "admit_check rd (db_now (view r)) keys argv 0 r = (wait, r1)" by fastforce
  have now: "server_now db_redis d = db_now d" for d
    by (simp add: server_now_def db_now_def)
  from admit_check_view [of keys r "db_now (view r)" argv 0] assms(1)
  have c: "admit_check db_redis (db_now (view r)) keys argv 0 (view r) = (wait, view r1)"
    by (simp add: well_typed_iff chk prod_eq_iff)
  have "well_typed (view r1) keys"
    using admit_check_typed [OF assms, of "db_now (view r)" argv 0] by (simp add: c)
  then have "view (admit_record rd (db_now (view r)) keys argv r1)
      = admit_record db_redis (db_now (view r)) keys argv (view r1)"
    by (rule admit_record_view) (rule assms(2))
  then show "fst (admit_one rd keys argv r) = fst (admit_one db_redis keys argv (view r))"
    "view (snd (admit_one rd keys argv r)) = snd (admit_one db_redis keys argv (view r))"
    by (simp_all add: admit_one_def time now chk c Let_def)
qed

end

interpretation db_server: redis_server db_redis "\<lambda>d. d"
  by unfold_locales (rule db_redis_documented)

end
