(* ===== verification/Redis_Cells.thy ===== *)
theory Redis_Cells
  imports Redis_Db "HOL-Library.Multiset"
begin

text \<open>
  What one tier's pair of keys holds.  The times of the hits recorded against a key are the
  abstract state; \<open>cell_inv\<close> relates them to the sorted set and the sequence counter, and every
  command the scripts send keeps the relation.
\<close>

subsection \<open>Member names\<close>

definition member_name :: "int \<Rightarrow> int \<Rightarrow> string" where
  "member_name t n = int_string t @ ''-'' @ int_string n"

lemma member_name_inj:
  assumes "0 \<le> t" "0 \<le> t'" "member_name t n = member_name t' n'"
  shows "t = t' \<and> n = n'"
proof -
  have "CHR ''-'' \<notin> set (int_string u)" if "0 \<le> u" for u
    using that dec_string_digits [of "nat u"]
    by (auto simp: int_string_def is_dec_digit_def less_eq_char_def)
  then show ?thesis
    using split_at_sep [of "int_string t" "CHR ''-''" "int_string n" "int_string t'" "int_string n'"] assms
    by (simp add: member_name_def int_string_inj)
qed

subsection \<open>One cell\<close>

type_synonym cell_entry = "(redis_value \<times> int option) option"

text \<open>The times younger than a window.\<close>

definition recent :: "int \<Rightarrow> int \<Rightarrow> int list \<Rightarrow> int list" where
  "recent now w ts = filter (\<lambda>t. now - w < t) ts"

definition scores_above :: "int \<Rightarrow> (string \<times> int) list \<Rightarrow> int list" where
  "scores_above x l = filter (\<lambda>s. x < s) (map snd l)"

lemma scores_above_alt: "scores_above x l = map snd (above x l)"
  by (induction l) (auto simp: scores_above_def above_def not_le)

text \<open>The members are named by their score and a number the sequence has passed.\<close>

definition named :: "int \<Rightarrow> (string \<times> int) list \<Rightarrow> bool" where
  "named c l \<longleftrightarrow>
     (\<forall>p \<in> set l. 0 \<le> snd p \<and> (\<exists>n. n \<le> c \<and> fst p = member_name (snd p) n))"

lemma named_Nil [simp]: "named c []"
  by (simp add: named_def)

lemma named_subset: "named c l \<Longrightarrow> set l' \<subseteq> set l \<Longrightarrow> named c l'"
  by (auto simp: named_def)

lemma named_more: "named c l \<Longrightarrow> c \<le> c' \<Longrightarrow> named c' l"
  by (meson named_def order_trans)

definition cell_inv :: "int \<Rightarrow> int \<Rightarrow> cell_entry \<Rightarrow> cell_entry \<Rightarrow> int list \<Rightarrow> bool" where
  "cell_inv now w h s ts \<longleftrightarrow>
     (\<forall>t \<in> set ts. 0 \<le> t \<and> t \<le> now) \<and>
     (case s of Some (ZSet _, _) \<Rightarrow> False | Some (Counter c, _) \<Rightarrow> 0 \<le> c | None \<Rightarrow> True) \<and>
     (case h of
        None \<Rightarrow> recent now w ts = []
      | Some (Counter _, _) \<Rightarrow> False
      | Some (ZSet l, e) \<Rightarrow>
          (\<exists>d c. e = Some d \<and> s = Some (Counter c, Some d) \<and> (\<forall>t \<in> set ts. t + w \<le> d) \<and>
             named c l) \<and>
          mset (scores_above (now - w) l) = mset (recent now w ts))"

lemma cell_inv_start: "cell_inv now w None None []"
  by (simp add: cell_inv_def recent_def)

lemma cell_inv_None:
  "cell_inv now w None s ts \<longleftrightarrow>
    (\<forall>t \<in> set ts. 0 \<le> t \<and> t \<le> now) \<and> recent now w ts = [] \<and>
    (case s of Some (ZSet _, _) \<Rightarrow> False | Some (Counter c, _) \<Rightarrow> 0 \<le> c | None \<Rightarrow> True)"
  by (auto simp: cell_inv_def)

lemma cell_inv_Some:
  "cell_inv now w (Some (ZSet l, e)) s ts \<longleftrightarrow>
    (\<forall>t \<in> set ts. 0 \<le> t \<and> t \<le> now) \<and>
    (\<exists>d c. e = Some d \<and> s = Some (Counter c, Some d) \<and> 0 \<le> c \<and> (\<forall>t \<in> set ts. t + w \<le> d) \<and>
       named c l) \<and>
    mset (scores_above (now - w) l) = mset (recent now w ts)"
  by (auto simp: cell_inv_def)

text \<open>The scores younger than any later moment are then known, too.\<close>

lemma scores_above_later:
  "x \<le> y \<Longrightarrow> scores_above y l = filter (\<lambda>s. y < s) (scores_above x l)"
  by (auto simp: scores_above_def intro: filter_cong)

lemma recent_later:
  "now \<le> now' \<Longrightarrow> recent now' w ts = filter (\<lambda>t. now' - w < t) (recent now w ts)"
  by (auto simp: recent_def intro: filter_cong)

lemma cell_scores_later:
  assumes "mset (scores_above (now - w) l) = mset (recent now w ts)" "now \<le> now'"
  shows "mset (scores_above (now' - w) l) = mset (recent now' w ts)"
  using assms by (simp add: scores_above_later [of "now - w" "now' - w"] recent_later [of now now'] mset_filter)

lemma cell_inv_later:
  assumes "cell_inv now w h s ts" "now \<le> now'"
  shows "cell_inv now' w (expire now' h) (expire now' s) ts"
proof (cases h)
  case None
  with assms have "recent now' w ts = []" by (simp add: cell_inv_None recent_later [of now now'])
  with assms None show ?thesis
    by (auto simp: cell_inv_None expire_def split: option.splits redis_value.splits)
next
  case (Some v)
  obtain l e where h: "h = Some (ZSet l, e)"
    using Some assms(1) by (cases v; cases "fst v") (auto simp: cell_inv_def)
  from assms(1) obtain d c where dc: "e = Some d" "s = Some (Counter c, Some d)" "0 \<le> c"
    "\<forall>t \<in> set ts. t + w \<le> d" "named c l"
    and ts: "\<forall>t \<in> set ts. 0 \<le> t \<and> t \<le> now"
    and sc: "mset (scores_above (now - w) l) = mset (recent now w ts)"
    unfolding h cell_inv_Some by blast
  have ts': "\<forall>t \<in> set ts. 0 \<le> t \<and> t \<le> now'" using ts assms(2) by fastforce
  show ?thesis
  proof (cases "now' \<le> d")
    case True
    then show ?thesis
      using dc ts' cell_scores_later [OF sc assms(2)]
      by (simp add: h expire_def alive_at_def cell_inv_Some)
  next
    case False
    then have "recent now' w ts = []" using dc(4) by (fastforce simp: recent_def filter_empty_conv)
    with False ts' show ?thesis by (simp add: h dc(1,2) expire_def alive_at_def cell_inv_None)
  qed
qed

subsection \<open>Trimming and adding\<close>

text \<open>What \<open>ZREMRANGEBYSCORE\<close> up to \<open>x\<close> makes of a sorted set.\<close>

definition trim :: "int \<Rightarrow> cell_entry \<Rightarrow> cell_entry" where
  "trim x h =
     (case h of
        Some (ZSet l, e) \<Rightarrow> (if above x l = [] then None else Some (ZSet (above x l), e))
      | _ \<Rightarrow> None)"

definition scores :: "cell_entry \<Rightarrow> int list" where
  "scores h = (case h of Some (ZSet l, _) \<Rightarrow> map snd l | _ \<Rightarrow> [])"

lemma above_above: "x \<le> y \<Longrightarrow> above y (above x l) = above y l"
  by (auto simp: above_def intro: filter_cong)

lemma cell_inv_trim:
  assumes "cell_inv now w h s ts"
  shows "cell_inv now w (trim (now - w) h) s ts"
    "mset (scores (trim (now - w) h)) = mset (recent now w ts)"
proof -
  have "cell_inv now w (trim (now - w) h) s ts \<and>
    mset (scores (trim (now - w) h)) = mset (recent now w ts)"
  proof (cases h)
    case None
    with assms show ?thesis by (simp add: trim_def scores_def cell_inv_None)
  next
    case (Some v)
    obtain l e where h: "h = Some (ZSet l, e)"
      using Some assms by (cases v; cases "fst v") (auto simp: cell_inv_def)
    note inv = assms [unfolded h cell_inv_Some]
    have sc: "mset (map snd (above (now - w) l)) = mset (recent now w ts)"
      using inv by (simp add: scores_above_alt)
    have sub: "set (above (now - w) l) \<subseteq> set l" by (auto simp: above_def)
    show ?thesis
    proof (cases "above (now - w) l = []")
      case True
      with sc have "recent now w ts = []" by simp
      with True inv show ?thesis
        by (auto simp: h trim_def scores_def cell_inv_None)
    next
      case False
      with inv sc show ?thesis
        by (auto simp: h trim_def scores_def cell_inv_Some scores_above_alt above_above
            intro: named_subset [OF _ sub])
    qed
  qed
  then show "cell_inv now w (trim (now - w) h) s ts"
    "mset (scores (trim (now - w) h)) = mset (recent now w ts)" by auto
qed

text \<open>What \<open>INCR\<close>, \<open>ZADD\<close> and the two \<open>PEXPIRE\<close> make of the pair of keys.\<close>

definition counter_of :: "cell_entry \<Rightarrow> int" where
  "counter_of s = (case s of Some (Counter c, _) \<Rightarrow> c | _ \<Rightarrow> 0)"

definition members :: "cell_entry \<Rightarrow> (string \<times> int) list" where
  "members h = (case h of Some (ZSet l, _) \<Rightarrow> l | _ \<Rightarrow> [])"

definition add_hit :: "int \<Rightarrow> int \<Rightarrow> cell_entry \<times> cell_entry \<Rightarrow> cell_entry \<times> cell_entry" where
  "add_hit now w hs =
     (let n = counter_of (snd hs) + 1; m = member_name now n in
      (Some (ZSet ((m, now) # filter (\<lambda>p. fst p \<noteq> m) (members (fst hs))), Some (now + w)),
       Some (Counter n, Some (now + w))))"

lemma cell_inv_add:
  assumes "cell_inv now w h s ts" "0 \<le> now" "0 < w"
  shows "cell_inv now w (fst (add_hit now w (h, s))) (snd (add_hit now w (h, s))) (now # ts)"
proof -
  let ?c = "counter_of s" and ?l = "members h"
  let ?m = "member_name now (?c + 1)"
  have ts: "\<forall>t \<in> set ts. 0 \<le> t \<and> t \<le> now" "0 \<le> ?c"
    using assms(1) by (auto simp: cell_inv_def counter_of_def split: option.splits redis_value.splits)
  have l: "named ?c ?l"
    "mset (scores_above (now - w) ?l) = mset (recent now w ts)"
    using assms(1)
    by (auto simp: members_def counter_of_def cell_inv_None cell_inv_def scores_above_def
        split: option.splits redis_value.splits)
  have "m \<noteq> ?m" if mem: "(m, t) \<in> set ?l" for m t
  proof
    assume eq: "m = ?m"
    obtain n where n: "0 \<le> t" "n \<le> ?c" "m = member_name t n"
      using bspec [OF l(1) [unfolded named_def] mem] by auto
    with eq have "n = ?c + 1" using member_name_inj [of t now n "?c + 1"] assms(2) by simp
    with n(2) show False by simp
  qed
  then have "filter (\<lambda>p. fst p \<noteq> ?m) ?l = ?l" by (auto simp: filter_id_conv)
  then have add: "add_hit now w (h, s) =
    (Some (ZSet ((?m, now) # ?l), Some (now + w)), Some (Counter (?c + 1), Some (now + w)))"
    by (simp add: add_hit_def Let_def)
  have old: "named (?c + 1) ((?m, now) # ?l)"
    using named_more [OF l(1), of "?c + 1"] assms(2) by (auto simp: named_def)
  have "mset (scores_above (now - w) ((?m, now) # ?l)) = mset (recent now w (now # ts))"
    using l(2) assms(3) by (simp add: scores_above_def recent_def)
  then show ?thesis using ts old assms(2) by (auto simp: add cell_inv_Some)
qed

end
