(* ===== verification/Redis_Limits.thy ===== *)
theory Redis_Limits
  imports Redis_Cells
begin

text \<open>
  The scripts refine a log of recorded hits: \<open>tracks\<close> relates the database to the times of
  the hits of every key, each script step keeps it, and the wait a script answers is the one computed
  on the log.
\<close>

definition window_ms :: "tier \<Rightarrow> int" where
  "window_ms t = milliseconds (tier_window t)"

definition tracks :: "string \<Rightarrow> int list \<Rightarrow> (int \<Rightarrow> string \<Rightarrow> int list) \<Rightarrow> db \<Rightarrow> bool" where
  "tracks ns ws tms db \<longleftrightarrow>
     (\<forall>w \<in> set ws. \<forall>key. cell_inv (db_now db) w (entries db (hits_key ns w key))
        (entries db (sequence_key ns w key)) (tms w key))"

lemma db_now_nonneg [simp]: "0 \<le> db_now db"
  by (simp add: db_now_def)

subsection \<open>Commands on entries\<close>

lemma entries_put:
  "entries (put k v db) k' = (if k' = k then (if v = ZSet [] then None
     else Some (v, case entries db k of None \<Rightarrow> None | Some (_, e) \<Rightarrow> e)) else entries db k')"
  by (simp add: put_def)

lemma entries_zrem:
  "entries (db_zrem k x db) k' = (if k' = k then trim x (entries db k) else entries db k')"
  by (auto simp: db_zrem_def entries_put trim_def zset_at_def above_def
      split: option.splits redis_value.splits prod.splits)

lemma entries_pexpire:
  "0 < ms \<Longrightarrow> entries (db_pexpire k ms db) k' =
    (if k' = k then map_option (\<lambda>(v, e). (v, Some (db_now db + ms))) (entries db k) else entries db k')"
  by (auto simp: db_pexpire_def split: option.split)

lemma entries_zadd:
  "entries (db_zadd k s m db) k' =
    (if k' = k then Some (ZSet ((m, s) # filter (\<lambda>p. fst p \<noteq> m) (members (entries db k))),
       case entries db k of None \<Rightarrow> None | Some (_, e) \<Rightarrow> e) else entries db k')"
  by (simp add: db_zadd_def entries_put zset_at_def members_def)

lemma entries_incr:
  "fst (db_incr k db) = counter_of (entries db k) + 1"
  "entries (snd (db_incr k db)) k' =
    (if k' = k then Some (Counter (counter_of (entries db k) + 1),
       case entries db k of None \<Rightarrow> None | Some (_, e) \<Rightarrow> e) else entries db k')"
  by (simp_all add: db_incr_def Let_def entries_put counter_at_def counter_of_def)

text \<open>The commands by which a script records one hit of one tier.\<close>

definition add_step :: "string \<Rightarrow> string \<Rightarrow> int \<Rightarrow> db \<Rightarrow> db" where
  "add_step hits seq w db =
     (let (n, d) = db_incr seq db
      in db_pexpire seq w (db_pexpire hits w (db_zadd hits (db_now db) (member_name (db_now db) n) d)))"

lemma db_now_add_step [simp]: "db_now (add_step hits seq w db) = db_now db"
  by (simp add: add_step_def db_incr_def Let_def)

lemma entries_add_step:
  assumes "hits \<noteq> seq" "0 < w"
  shows "entries (add_step hits seq w db) k =
    (if k = hits then fst (add_hit (db_now db) w (entries db hits, entries db seq))
     else if k = seq then snd (add_hit (db_now db) w (entries db hits, entries db seq))
     else entries db k)"
proof -
  obtain n d where nd: "db_incr seq db = (n, d)" by fastforce
  have n: "n = counter_of (entries db seq) + 1" using entries_incr(1) [of seq db] nd by simp
  have d: "entries d k = (if k = seq then Some (Counter n,
      case entries db seq of None \<Rightarrow> None | Some (_, e) \<Rightarrow> e) else entries db k)" for k
    using entries_incr(2) [of seq db k] nd n by simp
  have now: "db_now d = db_now db" using db_now_updates(4) [of seq db] nd by simp
  show ?thesis
    using assms by (simp add: add_step_def nd entries_pexpire entries_zadd d now add_hit_def n Let_def)
qed

subsection \<open>Steps keep the relation\<close>

lemma tracks_zrem:
  assumes "tracks ns ws tms db"
  shows "tracks ns ws tms (db_zrem (hits_key ns w key) (db_now db - w) db)"
  using assms cell_inv_trim(1)
  by (auto simp: tracks_def entries_zrem hits_key_inj)

lemma tracks_add:
  assumes "tracks ns ws tms db" "0 < w"
  shows "tracks ns ws (\<lambda>w' k. if w' = w \<and> k = key then db_now db # tms w' k else tms w' k)
    (add_step (hits_key ns w key) (sequence_key ns w key) w db)"
  unfolding tracks_def
proof (intro ballI allI)
  fix w' k assume w': "w' \<in> set ws"
  note inv = assms(1) [unfolded tracks_def, rule_format, OF w', of k]
  show "cell_inv (db_now (add_step (hits_key ns w key) (sequence_key ns w key) w db)) w'
      (entries (add_step (hits_key ns w key) (sequence_key ns w key) w db) (hits_key ns w' k))
      (entries (add_step (hits_key ns w key) (sequence_key ns w key) w db) (sequence_key ns w' k))
      (if w' = w \<and> k = key then db_now db # tms w' k else tms w' k)"
  proof (cases "w' = w \<and> k = key")
    case True
    with cell_inv_add [OF inv db_now_nonneg] assms(2) show ?thesis
      by (simp add: entries_add_step)
  next
    case False
    with inv assms(2) show ?thesis
      by (auto simp: entries_add_step hits_key_inj sequence_key_inj)
  qed
qed

lemma tracks_env:
  assumes "tracks ns ws tms db"
    "env_step {k. \<exists>w \<in> set ws. \<exists>key. k = hits_key ns w key \<or> k = sequence_key ns w key} db db'"
  shows "tracks ns ws tms db'"
  unfolding tracks_def
proof (intro ballI allI)
  fix w key assume w: "w \<in> set ws"
  let ?h = "hits_key ns w key" and ?s = "sequence_key ns w key"
  have "entries db' ?h = expire (db_now db') (entries db ?h)"
    "entries db' ?s = expire (db_now db') (entries db ?s)" "db_now db \<le> db_now db'"
    using assms(2) w unfolding env_step_def by blast+
  moreover have "cell_inv (db_now db) w (entries db ?h) (entries db ?s) (tms w key)"
    using assms(1) w by (simp add: tracks_def)
  ultimately show "cell_inv (db_now db') w (entries db' ?h) (entries db' ?s) (tms w key)"
    by (simp add: cell_inv_later)
qed

subsection \<open>The wait on the log\<close>

definition tier_retry :: "int \<Rightarrow> int \<Rightarrow> int list \<Rightarrow> int" where
  "tier_retry now w ts =
     (if recent now w ts = [] then w else Min (set (recent now w ts)) + w - now)"

fun log_wait :: "int \<Rightarrow> (int \<Rightarrow> int list) \<Rightarrow> tier list \<Rightarrow> int \<Rightarrow> int" where
  "log_wait now tms [] wait = wait"
| "log_wait now tms (t # tiers) wait =
     (let w = window_ms t in
      if tier_limit t \<le> int (length (recent now w (tms w)))
      then log_wait now tms tiers (max wait (tier_retry now w (tms w)))
      else log_wait now tms tiers wait)"

lemma lowest_eq: "lowest l = (if l = [] then None else Some (Min (set (map snd l))))"
proof (cases l)
  case (Cons p ps)
  then show ?thesis
    using Min.set_eq_fold [of "snd p" "map snd (p # ps)"] by (simp add: lowest_def)
qed (simp add: lowest_def)

lemma cell_counts:
  assumes "mset (scores h) = mset (recent now w ts)"
  shows "length (members h) = length (recent now w ts)"
    "lowest (members h) = (if recent now w ts = [] then None else Some (Min (set (recent now w ts))))"
proof -
  have sc: "scores h = map snd (members h)"
    by (auto simp: scores_def members_def split: option.splits redis_value.splits)
  have "length (scores h) = length (recent now w ts)" "set (scores h) = set (recent now w ts)"
    using assms by (auto dest: mset_eq_length mset_eq_setD)
  then show "length (members h) = length (recent now w ts)"
    "lowest (members h) = (if recent now w ts = [] then None else Some (Min (set (recent now w ts))))"
    by (auto simp: sc lowest_eq)
qed

lemma tier_keys_Cons:
  "tier_keys ns (t # ts) key =
    hits_key ns (window_ms t) key # sequence_key ns (window_ms t) key # tier_keys ns ts key"
  "tier_args (t # ts) = window_ms t # tier_limit t # tier_args ts"
  "tier_keys ns [] key = []" "tier_args [] = []"
  by (simp_all add: tier_keys_def tier_args_def window_ms_def Let_def)

lemma trimmed_cell:
  assumes "tracks ns ws tms db" "w \<in> set ws"
  shows "length (zset_at (db_zrem (hits_key ns w key) (db_now db - w) db) (hits_key ns w key))
      = length (recent (db_now db) w (tms w key))"
    "lowest (zset_at (db_zrem (hits_key ns w key) (db_now db - w) db) (hits_key ns w key))
      = (if recent (db_now db) w (tms w key) = [] then None
         else Some (Min (set (recent (db_now db) w (tms w key)))))"
proof -
  have "cell_inv (db_now db) w (entries db (hits_key ns w key)) (entries db (sequence_key ns w key))
    (tms w key)" using assms by (simp add: tracks_def)
  note c = cell_counts [OF cell_inv_trim(2) [OF this]]
  have m: "zset_at (db_zrem (hits_key ns w key) (db_now db - w) db) (hits_key ns w key)
    = members (trim (db_now db - w) (entries db (hits_key ns w key)))"
    by (simp add: zset_at_def members_def entries_zrem)
  show "length (zset_at (db_zrem (hits_key ns w key) (db_now db - w) db) (hits_key ns w key))
      = length (recent (db_now db) w (tms w key))"
    "lowest (zset_at (db_zrem (hits_key ns w key) (db_now db - w) db) (hits_key ns w key))
      = (if recent (db_now db) w (tms w key) = [] then None
         else Some (Min (set (recent (db_now db) w (tms w key)))))"
    unfolding m by (rule c(1), rule c(2))
qed

lemma admit_check_tiers:
  "tracks ns ws tms db \<Longrightarrow> window_ms ` set tiers \<subseteq> set ws \<Longrightarrow> db_now db = now \<Longrightarrow>
    fst (admit_check db_redis now (tier_keys ns tiers key) (tier_args tiers) wait db)
      = log_wait now (\<lambda>w. tms w key) tiers wait \<and>
    tracks ns ws tms (snd (admit_check db_redis now (tier_keys ns tiers key) (tier_args tiers) wait db)) \<and>
    db_now (snd (admit_check db_redis now (tier_keys ns tiers key) (tier_args tiers) wait db)) = now"
proof (induction tiers arbitrary: db wait)
  case (Cons t tiers)
  let ?w = "window_ms t"
  let ?d = "db_zrem (hits_key ns ?w key) (now - ?w) db"
  have d: "tracks ns ws tms ?d" "db_now ?d = now"
    using tracks_zrem [OF Cons.prems(1), of ?w key] Cons.prems(3) by simp_all
  have w: "?w \<in> set ws" "window_ms ` set tiers \<subseteq> set ws" using Cons.prems(2) by auto
  note cell = trimmed_cell [OF Cons.prems(1) w(1), of key, unfolded Cons.prems(3)]
  have retry: "(case lowest (zset_at ?d (hits_key ns ?w key)) of
      None \<Rightarrow> ?w | Some oldest \<Rightarrow> oldest + ?w - now) = tier_retry now ?w (tms ?w key)"
    by (simp add: cell tier_retry_def)
  have mx: "(if x > wait then x else wait) = max wait x" for x by (simp add: max_def)
  show ?case
    using Cons.IH [OF d(1) w(2) d(2)]
    by (simp add: tier_keys_Cons Let_def cell(1) retry mx)
qed (simp add: tier_keys_Cons)

lemma admit_record_Cons:
  "db_now db = now \<Longrightarrow> admit_record db_redis now (tier_keys ns (t # tiers) key) (tier_args (t # tiers)) db =
    admit_record db_redis now (tier_keys ns tiers key) (tier_args tiers)
      (add_step (hits_key ns (window_ms t) key) (sequence_key ns (window_ms t) key) (window_ms t) db)"
  by (simp add: tier_keys_Cons add_step_def member_name_def Let_def split: prod.split)

lemma admit_record_tiers:
  "tracks ns ws tms db \<Longrightarrow> db_now db = now \<Longrightarrow> distinct (map window_ms tiers) \<Longrightarrow>
    \<forall>t \<in> set tiers. 0 < window_ms t \<Longrightarrow>
    tracks ns ws (\<lambda>w k. if w \<in> window_ms ` set tiers \<and> k = key then now # tms w k else tms w k)
      (admit_record db_redis now (tier_keys ns tiers key) (tier_args tiers) db) \<and>
    db_now (admit_record db_redis now (tier_keys ns tiers key) (tier_args tiers) db) = now"
proof (induction tiers arbitrary: db tms)
  case (Cons t tiers)
  let ?w = "window_ms t"
  let ?d = "add_step (hits_key ns ?w key) (sequence_key ns ?w key) ?w db"
  let ?tms = "\<lambda>w' k. if w' = ?w \<and> k = key then now # tms w' k else tms w' k"
  have "0 < ?w" using Cons.prems(4) by simp
  from tracks_add [OF Cons.prems(1) this, of key, unfolded Cons.prems(2)]
  have "tracks ns ws ?tms ?d" "db_now ?d = now" by (simp_all add: Cons.prems(2))
  note ih = Cons.IH [OF this]
  have eq: "(\<lambda>w k. if w \<in> window_ms ` set tiers \<and> k = key then now # ?tms w k else ?tms w k)
    = (\<lambda>w k. if w \<in> window_ms ` set (t # tiers) \<and> k = key then now # tms w k else tms w k)"
    using Cons.prems(3) by (auto simp: fun_eq_iff)
  note step = admit_record_Cons [OF Cons.prems(2), of ns t tiers key]
  show ?case using ih Cons.prems unfolding eq step by simp
qed (simp add: tier_keys_Cons)

end
