(* ===== verification/Rate_Limiter.thy ===== *)
theory Rate_Limiter
  imports Redis_Limits
begin

text \<open>
  Runs of one \<open>SlidingWindow\<close>: calls of \<open>Allow\<close>, each a step on the server, with anything else
  between them that leaves the limiter's keys alone.  The log lists the hits the script recorded,
  newest first, with the server's time and the key.
\<close>

definition limiter_keys :: "string \<Rightarrow> tier list \<Rightarrow> string set" where
  "limiter_keys ns tiers =
     {k. \<exists>w \<in> set (map window_ms tiers). \<exists>key. k = hits_key ns w key \<or> k = sequence_key ns w key}"

definition good_tiers :: "tier list \<Rightarrow> bool" where
  "good_tiers tiers \<longleftrightarrow>
     tiers \<noteq> [] \<and> distinct (map window_ms tiers) \<and> (\<forall>t \<in> set tiers. 0 < window_ms t)"

type_synonym hit_log = "(int \<times> string) list"

definition hit_times :: "hit_log \<Rightarrow> string \<Rightarrow> int list" where
  "hit_times log key = map fst (filter (\<lambda>e. snd e = key) log)"

text \<open>Did this call record its hit?\<close>

definition records :: "'r redis \<Rightarrow> tier list \<Rightarrow> 'e delivery \<Rightarrow> string \<Rightarrow> 'r \<Rightarrow> bool" where
  "records rd tiers d key r =
     (case d of
        NotRun _ \<Rightarrow> False
      | _ \<Rightarrow> fst (admit_one rd (tier_keys rateLimitNamespace tiers key) (tier_args tiers) r) = [1, 0])"

inductive limiter_run :: "'r redis \<Rightarrow> ('r \<Rightarrow> db) \<Rightarrow> tier list \<Rightarrow> hit_log \<Rightarrow> 'r \<Rightarrow> bool"
  for rd view tiers where
  fresh: "\<forall>k \<in> limiter_keys rateLimitNamespace tiers. entries (view r) k = None \<Longrightarrow>
    limiter_run rd view tiers [] r"
| call: "limiter_run rd view tiers log r \<Longrightarrow>
    limiter_run rd view tiers
      (if records rd tiers (d :: string delivery) key r then (server_now rd r, key) # log else log)
      (snd (allow rd tiers d key r))"
| other: "limiter_run rd view tiers log r \<Longrightarrow>
    env_step (limiter_keys rateLimitNamespace tiers) (view r) (view r') \<Longrightarrow>
    limiter_run rd view tiers log r'"

subsection \<open>The keys of a limiter are well typed\<close>

lemma tracks_typed:
  "tracks ns ws tms db \<Longrightarrow> window_ms ` set tiers \<subseteq> set ws \<Longrightarrow> well_typed db (tier_keys ns tiers key)"
proof (induction tiers)
  case (Cons t tiers)
  then have "cell_inv (db_now db) (window_ms t) (entries db (hits_key ns (window_ms t) key))
      (entries db (sequence_key ns (window_ms t) key)) (tms (window_ms t) key)"
    by (auto simp: tracks_def)
  then have "holds_zset db (hits_key ns (window_ms t) key)"
    "holds_counter db (sequence_key ns (window_ms t) key)"
    by (auto simp: cell_inv_def holds_zset_def holds_counter_def
        split: option.splits prod.splits redis_value.splits)
  with Cons show ?case by (simp add: tier_keys_Cons)
qed (simp add: tier_keys_Cons)

lemma tier_keys_apart: "apart (tier_keys ns tiers key)"
proof -
  have "hits_of (tier_keys ns tiers key) \<subseteq> {k. \<exists>w. k = hits_key ns w key}"
    "sequences_of (tier_keys ns tiers key) \<subseteq> {k. \<exists>w. k = sequence_key ns w key}"
    by (induction tiers) (auto simp: tier_keys_Cons)
  then show ?thesis unfolding apart_def by fastforce
qed

subsection \<open>One call on the database\<close>

definition add_time :: "int list \<Rightarrow> string \<Rightarrow> int \<Rightarrow> (int \<Rightarrow> string \<Rightarrow> int list) \<Rightarrow> int \<Rightarrow> string \<Rightarrow> int list" where
  "add_time ws key now tms w k = (if w \<in> set ws \<and> k = key then now # tms w k else tms w k)"

lemma server_now_db: "server_now db_redis db = db_now db"
  by (simp add: server_now_def db_now_def)

lemma admit_one_db:
  fixes key :: string
  assumes "tracks ns (map window_ms tiers) tms db" "good_tiers tiers"
  defines "wait \<equiv> log_wait (db_now db) (\<lambda>w. tms w key) tiers 0"
  shows "fst (admit_one db_redis (tier_keys ns tiers key) (tier_args tiers) db)
      = (if wait > 0 then [0, wait] else [1, 0])"
    "tracks ns (map window_ms tiers)
       (if wait > 0 then tms else add_time (map window_ms tiers) key (db_now db) tms)
       (snd (admit_one db_redis (tier_keys ns tiers key) (tier_args tiers) db))"
    "db_now (snd (admit_one db_redis (tier_keys ns tiers key) (tier_args tiers) db)) = db_now db"
proof -
  let ?k = "tier_keys ns tiers key" and ?a = "tier_args tiers" and ?now = "db_now db"
  obtain w d where c: "admit_check db_redis ?now ?k ?a 0 db = (w, d)" by fastforce
  have d: "w = wait" "tracks ns (map window_ms tiers) tms d" "db_now d = ?now"
    using admit_check_tiers [OF assms(1), of tiers ?now key 0] by (simp_all add: c wait_def)
  have g: "distinct (map window_ms tiers)" "\<forall>t \<in> set tiers. 0 < window_ms t"
    using assms(2) by (simp_all add: good_tiers_def)
  have "tracks ns (map window_ms tiers) (add_time (map window_ms tiers) key ?now tms)
      (admit_record db_redis ?now ?k ?a d) \<and> db_now (admit_record db_redis ?now ?k ?a d) = ?now"
    using admit_record_tiers [OF d(2,3) g, of key] by (simp add: add_time_def [abs_def])
  then show "fst (admit_one db_redis ?k ?a db) = (if wait > 0 then [0, wait] else [1, 0])"
    "tracks ns (map window_ms tiers)
       (if wait > 0 then tms else add_time (map window_ms tiers) key ?now tms)
       (snd (admit_one db_redis ?k ?a db))"
    "db_now (snd (admit_one db_redis ?k ?a db)) = ?now"
    using d by (simp_all add: admit_one_def server_now_db c Let_def)
qed

text \<open>The log of a run, as \<open>tracks\<close> reads it.\<close>

abbreviation log_times :: "hit_log \<Rightarrow> int \<Rightarrow> string \<Rightarrow> int list" where
  "log_times log \<equiv> (\<lambda>w. hit_times log)"

lemma tracks_add_time:
  "tracks ns (map window_ms tiers) (add_time (map window_ms tiers) key now (log_times log)) db \<longleftrightarrow>
    tracks ns (map window_ms tiers) (log_times ((now, key) # log)) db"
  by (auto simp: tracks_def add_time_def hit_times_def)

context redis_server
begin

lemma admit_one_tracked:
  fixes key :: string
  assumes "tracks ns (map window_ms tiers) (log_times log) (view r)" "good_tiers tiers"
  defines "wait \<equiv> log_wait (db_now (view r)) (\<lambda>w. hit_times log key) tiers 0"
  shows "fst (admit_one rd (tier_keys ns tiers key) (tier_args tiers) r)
      = (if wait > 0 then [0, wait] else [1, 0])"
    "tracks ns (map window_ms tiers)
       (log_times (if wait > 0 then log else (db_now (view r), key) # log))
       (view (snd (admit_one rd (tier_keys ns tiers key) (tier_args tiers) r)))"
    "db_now (view (snd (admit_one rd (tier_keys ns tiers key) (tier_args tiers) r))) = db_now (view r)"
proof -
  have "well_typed (view r) (tier_keys ns tiers key)"
    by (rule tracks_typed [OF assms(1)]) simp
  note v = admit_one_view [OF this tier_keys_apart, of "tier_args tiers"]
  note db = admit_one_db [OF assms(1,2), of key, folded wait_def]
  show "fst (admit_one rd (tier_keys ns tiers key) (tier_args tiers) r)
      = (if wait > 0 then [0, wait] else [1, 0])"
    by (simp add: v(1) db(1))
  show "tracks ns (map window_ms tiers)
       (log_times (if wait > 0 then log else (db_now (view r), key) # log))
       (view (snd (admit_one rd (tier_keys ns tiers key) (tier_args tiers) r)))"
    using db(2) by (simp add: v(2) tracks_add_time split: if_splits)
  show "db_now (view (snd (admit_one rd (tier_keys ns tiers key) (tier_args tiers) r))) = db_now (view r)"
    by (simp add: v(2) db(3))
qed

lemma allow_state:
  assumes "tiers \<noteq> []"
  shows "snd (allow rd tiers d key r) =
    (case d of NotRun _ \<Rightarrow> r
     | _ \<Rightarrow> snd (admit_one rd (tier_keys rateLimitNamespace tiers key) (tier_args tiers) r))"
  using assms by (simp add: allow_def send_def Let_def split: delivery.split prod.split)

lemma allow_verdict:
  assumes "tiers \<noteq> []"
  shows "fst (allow rd tiers d key r) =
    (case d of Delivered \<Rightarrow>
       verdict tiers key
         (Inr (fst (admit_one rd (tier_keys rateLimitNamespace tiers key) (tier_args tiers) r)))
     | NotRun e \<Rightarrow> (False, 0, Some (RedisDown key e))
     | ReplyLost e \<Rightarrow> (False, 0, Some (RedisDown key e)))"
  using assms by (simp add: allow_def send_def verdict_def Let_def split: delivery.split prod.split)

lemma run_tracks:
  assumes "limiter_run rd view tiers log r" "good_tiers tiers"
  shows "tracks rateLimitNamespace (map window_ms tiers) (log_times log) (view r)"
  using assms(1)
proof (induction rule: limiter_run.induct)
  case (fresh r)
  have "entries (view r) (hits_key rateLimitNamespace w key) = None \<and>
    entries (view r) (sequence_key rateLimitNamespace w key) = None"
    if "w \<in> set (map window_ms tiers)" for w key
    using fresh that unfolding limiter_keys_def by blast
  then show ?case by (simp add: tracks_def hit_times_def cell_inv_start)
next
  case (call log r d key)
  note t = admit_one_tracked [OF call.IH assms(2), of key]
  have ne: "tiers \<noteq> []" using assms(2) by (simp add: good_tiers_def)
  show ?case
    using t(2) call.IH unfolding allow_state [OF ne] records_def time
    by (auto simp: t(1) split: delivery.splits if_splits)
next
  case (other log r r')
  from tracks_env [OF other.IH other.hyps(2) [unfolded limiter_keys_def]] show ?case .
qed

end

subsection \<open>The log's wait\<close>

definition tier_full :: "int \<Rightarrow> int list \<Rightarrow> tier \<Rightarrow> bool" where
  "tier_full now ts t \<longleftrightarrow> tier_limit t \<le> int (length (recent now (window_ms t) ts))"

lemma log_wait_gt:
  "y < log_wait now tms tiers wait \<longleftrightarrow>
    y < wait \<or> (\<exists>t \<in> set tiers. tier_full now (tms (window_ms t)) t \<and>
      y < tier_retry now (window_ms t) (tms (window_ms t)))"
  by (induction tiers arbitrary: wait) (auto simp: Let_def tier_full_def less_max_iff_disj)

lemma tier_retry_pos:
  assumes "0 < w"
  shows "0 < tier_retry now w ts"
proof (cases "recent now w ts = []")
  case False
  then have "Min (set (recent now w ts)) \<in> set (recent now w ts)" by (intro Min_in) simp_all
  then have "now - w < Min (set (recent now w ts))" by (auto simp: recent_def)
  moreover have "tier_retry now w ts = Min (set (recent now w ts)) + w - now"
    using False by (simp add: tier_retry_def)
  ultimately show ?thesis by linarith
qed (simp add: tier_retry_def assms)

lemma log_wait_pos:
  assumes "\<forall>t \<in> set tiers. 0 < window_ms t"
  shows "0 < log_wait now tms tiers 0 \<longleftrightarrow> (\<exists>t \<in> set tiers. tier_full now (tms (window_ms t)) t)"
  using assms tier_retry_pos by (auto simp: log_wait_gt)

lemma log_wait_nonneg: "0 \<le> wait \<Longrightarrow> 0 \<le> log_wait now tms tiers wait"
  by (induction tiers arbitrary: wait) (auto simp: Let_def)

text \<open>A full tier has room again exactly when its oldest hit has aged out.\<close>

lemma full_later:
  assumes "0 < tier_limit t" "0 < window_ms t" "now \<le> u"
    and le: "int (length (recent now (window_ms t) ts)) \<le> tier_limit t"
  shows "tier_full u ts t \<longleftrightarrow>
    tier_full now ts t \<and> u < now + tier_retry now (window_ms t) ts"
proof -
  let ?w = "window_ms t"
  let ?r = "recent now ?w ts"
  have later: "recent u ?w ts = filter (\<lambda>x. u - ?w < x) ?r" by (rule recent_later [OF assms(3)])
  have len: "length (recent u ?w ts) \<le> length ?r" by (simp add: later)
  show ?thesis
  proof (cases "tier_full now ts t")
    case False
    with len show ?thesis by (simp add: tier_full_def)
  next
    case True
    with le have eq: "int (length ?r) = tier_limit t" by (simp add: tier_full_def)
    with assms(1) have ne: "?r \<noteq> []" by auto
    have "tier_full u ts t \<longleftrightarrow> length (recent u ?w ts) = length ?r"
      using eq len by (auto simp: tier_full_def)
    also have "\<dots> \<longleftrightarrow> (\<forall>x \<in> set ?r. u - ?w < x)"
      unfolding later by (metis filter_id_conv filter_True length_filter_less nat_less_le)
    also have "\<dots> \<longleftrightarrow> u - ?w < Min (set ?r)" using ne by (simp add: Min_gr_iff)
    also have "\<dots> \<longleftrightarrow> u < now + tier_retry now ?w ts"
    proof -
      have "tier_retry now ?w ts = Min (set ?r) + ?w - now" using ne by (simp add: tier_retry_def)
      then show ?thesis by linarith
    qed
    finally show ?thesis using True by simp
  qed
qed

lemma wait_is_exact:
  assumes "\<forall>t \<in> set tiers. 0 < tier_limit t \<and> 0 < window_ms t" "now \<le> u"
    and "\<forall>t \<in> set tiers. int (length (recent now (window_ms t) ts)) \<le> tier_limit t"
  shows "0 < log_wait u (\<lambda>w. ts) tiers 0 \<longleftrightarrow> u < now + log_wait now (\<lambda>w. ts) tiers 0"
proof -
  have "0 < log_wait u (\<lambda>w. ts) tiers 0 \<longleftrightarrow> (\<exists>t \<in> set tiers. tier_full u ts t)"
    using assms(1) by (simp add: log_wait_pos)
  also have "\<dots> \<longleftrightarrow> (\<exists>t \<in> set tiers. tier_full now ts t \<and> u < now + tier_retry now (window_ms t) ts)"
    using assms full_later by (intro bex_cong refl) simp
  also have "\<dots> \<longleftrightarrow> u - now < log_wait now (\<lambda>w. ts) tiers 0"
    using assms(2) by (auto simp: log_wait_gt)
  finally show ?thesis by auto
qed

subsection \<open>No window ever holds more than the limit\<close>

text \<open>The hits of a key in the window that ends at \<open>end_time\<close>.\<close>

definition hits_within :: "hit_log \<Rightarrow> string \<Rightarrow> int \<Rightarrow> int \<Rightarrow> nat" where
  "hits_within log key w end_time =
     length (filter (\<lambda>(t, k). k = key \<and> end_time - w < t \<and> t \<le> end_time) log)"

lemma hits_within_recent:
  assumes "\<forall>e \<in> set log. fst e \<le> now"
  shows "hits_within log key w now = length (recent now w (hit_times log key))"
  using assms
  by (induction log) (auto simp: hits_within_def recent_def hit_times_def)

lemma hits_within_later:
  assumes "\<forall>e \<in> set log. fst e \<le> now" "now \<le> u"
  shows "hits_within log key w u \<le> length (recent now w (hit_times log key))"
  using assms
  by (induction log) (auto simp: hits_within_def recent_def hit_times_def)

context redis_server
begin

lemma run_times:
  assumes "limiter_run rd view tiers log r" "good_tiers tiers" "e \<in> set log"
  shows "fst e \<le> db_now (view r)"
proof -
  obtain t where t: "t \<in> set tiers" using assms(2) by (cases tiers) (auto simp: good_tiers_def)
  have "fst e \<in> set (hit_times log (snd e))" using assms(3) by (force simp: hit_times_def)
  with run_tracks [OF assms(1,2)] t show ?thesis
    by (auto simp: tracks_def cell_inv_def)
qed

lemma run_within_limit:
  assumes "limiter_run rd view tiers log r" "good_tiers tiers" "t \<in> set tiers"
  shows "int (hits_within log key (window_ms t) u) \<le> max 0 (tier_limit t)"
  using assms(1)
proof (induction arbitrary: u rule: limiter_run.induct)
  case (call log r d key')
  let ?now = "db_now (view r)" and ?w = "window_ms t"
  have old: "\<forall>e \<in> set log. fst e \<le> ?now" using run_times [OF call.hyps assms(2)] by blast
  show ?case
  proof (cases "records rd tiers d key' r \<and> key' = key \<and> ?now \<le> u")
    case False
    then have "hits_within (if records rd tiers d key' r then (server_now rd r, key') # log else log)
        key ?w u = hits_within log key ?w u"
      by (auto simp: hits_within_def time)
    with call.IH [of u] show ?thesis by simp
  next
    case True
    have "log_wait ?now (\<lambda>w. hit_times log key) tiers 0 \<le> 0"
      using True admit_one_tracked(1) [OF run_tracks [OF call.hyps assms(2)] assms(2), of key]
      by (auto simp: records_def split: delivery.splits if_splits)
    with assms(2,3) have "\<not> tier_full ?now (hit_times log key) t"
      using log_wait_pos [of tiers ?now "\<lambda>w. hit_times log key"]
      by (auto simp: good_tiers_def not_less [symmetric])
    then have "int (length (recent ?now ?w (hit_times log key))) < tier_limit t"
      by (simp add: tier_full_def)
    moreover have "hits_within ((?now, key) # log) key ?w u
        \<le> Suc (length (recent ?now ?w (hit_times log key)))"
      using hits_within_later [OF old, of u key ?w] True by (auto simp: hits_within_def)
    ultimately show ?thesis using True by (auto simp: time)
  qed
qed (simp_all add: hits_within_def)

lemma run_recent_le:
  assumes "limiter_run rd view tiers log r" "good_tiers tiers" "t \<in> set tiers" "0 < tier_limit t"
  shows "int (length (recent (db_now (view r)) (window_ms t) (hit_times log key))) \<le> tier_limit t"
proof -
  have "\<forall>e \<in> set log. fst e \<le> db_now (view r)" using run_times [OF assms(1,2)] by blast
  from hits_within_recent [OF this] run_within_limit [OF assms(1-3)] assms(4) show ?thesis
    by (metis max.absorb2 order_less_imp_le)
qed

lemma run_allow:
  fixes key :: string
  assumes "limiter_run rd view tiers log r" "good_tiers tiers"
  defines "wait \<equiv> log_wait (db_now (view r)) (\<lambda>w. hit_times log key) tiers 0"
  shows "fst (allow rd tiers Delivered key r) =
    (if wait > 0 then (False, wait * millisecond, None) else (True, 0, None))"
proof -
  have ne: "tiers \<noteq> []" using assms(2) by (simp add: good_tiers_def)
  have "fst (admit_one rd (tier_keys rateLimitNamespace tiers key) (tier_args tiers) r)
      = (if wait > 0 then [0, wait] else [1, 0])"
    unfolding wait_def by (rule admit_one_tracked(1) [OF run_tracks [OF assms(1,2)] assms(2)])
  then show ?thesis by (simp add: allow_verdict [OF ne] verdict_def)
qed

lemma run_refused_again:
  assumes "limiter_run rd view tiers log r" "good_tiers tiers" "\<forall>t \<in> set tiers. 0 < tier_limit t"
    and "fst (allow rd tiers (Delivered :: string delivery) key r) = (False, retry_after, None)"
    and "env_step (limiter_keys rateLimitNamespace tiers)
      (view (snd (allow rd tiers (Delivered :: string delivery) key r))) (view r')"
  shows "fst (fst (allow rd tiers (Delivered :: string delivery) key r')) \<longleftrightarrow>
    server_now rd r + milliseconds retry_after \<le> server_now rd r'"
proof -
  let ?now = "db_now (view r)" and ?ts = "hit_times log key"
  let ?wait = "log_wait ?now (\<lambda>w. ?ts) tiers 0"
  have g: "\<forall>t \<in> set tiers. 0 < tier_limit t \<and> 0 < window_ms t"
    using assms(2,3) by (simp add: good_tiers_def)
  have w: "0 < ?wait" "retry_after = ?wait * millisecond"
  proof -
    have "fst (allow rd tiers (Delivered :: string delivery) key r) =
      (if ?wait > 0 then (False, ?wait * millisecond, None) else (True, 0, None))"
      by (rule run_allow [OF assms(1,2)])
    with assms(4) show "0 < ?wait" "retry_after = ?wait * millisecond" by (simp_all split: if_splits)
  qed
  have ms: "milliseconds retry_after = ?wait"
    using w by (auto simp: milliseconds_def duration_defs)
  let ?r = "snd (allow rd tiers (Delivered :: string delivery) key r)"
  have "\<not> records rd tiers (Delivered :: string delivery) key r"
    using admit_one_tracked(1) [OF run_tracks [OF assms(1,2)] assms(2), of key] w(1)
    by (simp add: records_def)
  then have "limiter_run rd view tiers log ?r"
    using limiter_run.call [OF assms(1), of Delivered key] by simp
  from limiter_run.other [OF this assms(5)]
  have run': "limiter_run rd view tiers log r'" .
  have ne: "tiers \<noteq> []" using assms(2) by (simp add: good_tiers_def)
  have now: "db_now (view ?r) = ?now"
    using admit_one_tracked(3) [OF run_tracks [OF assms(1,2)] assms(2)] by (simp add: allow_state [OF ne])
  have "?now \<le> db_now (view r')" using assms(5) now by (simp add: env_step_def)
  from wait_is_exact [OF g this] run_recent_le [OF assms(1,2)] g
  have "0 < log_wait (db_now (view r')) (\<lambda>w. ?ts) tiers 0 \<longleftrightarrow> db_now (view r') < ?now + ?wait"
    by blast
  moreover have "fst (allow rd tiers (Delivered :: string delivery) key r') =
    (if log_wait (db_now (view r')) (\<lambda>w. ?ts) tiers 0 > 0
     then (False, log_wait (db_now (view r')) (\<lambda>w. ?ts) tiers 0 * millisecond, None)
     else (True, 0, None))"
    by (rule run_allow [OF run' assms(2)])
  ultimately show ?thesis by (auto simp: time ms)
qed

end

subsection \<open>Properties\<close>

text \<open>
  C7: the limit holds over every window, wherever it starts.  In any run of a limiter on a server
  whose commands behave as documented, for every tier and every key, the hits that were recorded in
  any window of the tier's length never outnumber its limit; and every call that was answered
  "allowed" recorded its hit.
\<close>
theorem sliding_window_limit:
  assumes "redis_documented rd view" "good_tiers tiers"
    and "limiter_run rd view tiers log r" "t \<in> set tiers"
  shows "int (hits_within log key (window_ms t) end_time) \<le> max 0 (tier_limit t)
    \<and> (fst (fst (allow rd tiers (d :: string delivery) key r)) \<longrightarrow> records rd tiers d key r)"
proof -
  have server: "redis_server rd view" by (rule redis_server.intro) (rule assms(1))
  note bound = redis_server.run_within_limit [OF server assms(3,2,4)]
  have ne: "tiers \<noteq> []" using assms(2) by (simp add: good_tiers_def)
  note t = redis_server.admit_one_tracked(1)
    [OF server redis_server.run_tracks [OF server assms(3,2)] assms(2), of key]
  show ?thesis
    using bound t unfolding redis_server.allow_verdict [OF server ne]
    by (auto simp: records_def verdict_def split: delivery.splits)
qed

definition sample_db :: db where
  "sample_db = \<lparr>seconds = 1000, microseconds = 0, entries = (\<lambda>k. None)\<rparr>"

definition sample_tiers :: "tier list" where
  "sample_tiers = [\<lparr>tier_limit = 1, tier_window = second\<rparr>]"

lemma sample_tiers_good: "good_tiers sample_tiers"
  by (simp add: good_tiers_def sample_tiers_def window_ms_def milliseconds_def duration_defs)

lemma sample_run_empty: "limiter_run db_redis (\<lambda>d. d) sample_tiers [] sample_db"
  by (rule limiter_run.fresh) (simp add: sample_db_def)

lemma sample_window: "window_ms \<lparr>tier_limit = 1, tier_window = second\<rparr> = 1000"
  by (simp add: window_ms_def milliseconds_def duration_defs)

lemma sample_records: "records db_redis sample_tiers (Delivered :: string delivery) ''k'' sample_db"
  by (simp add: records_def sample_tiers_def tier_keys_Cons sample_window admit_one_def Let_def
      db_zrem_def entries_put zset_at_def put_def sample_db_def)

text \<open>The first hit of a second is recorded; the second one is refused until the second is over.\<close>

definition sample_after :: db where
  "sample_after = snd (allow db_redis sample_tiers (Delivered :: string delivery) ''k'' sample_db)"

lemma sample_run: "limiter_run db_redis (\<lambda>d. d) sample_tiers [(1000000, ''k'')] sample_after"
proof -
  have "server_now db_redis sample_db = 1000000"
    by (simp add: server_now_db db_now_def sample_db_def)
  with limiter_run.call [OF sample_run_empty, of Delivered "''k''"] sample_records show ?thesis
    by (simp add: sample_after_def)
qed

lemma sliding_window_limit_witness:
  "int (hits_within [(1000000, ''k'')] ''k'' 1000 1000500) \<le> 1"
proof -
  have "\<lparr>tier_limit = 1, tier_window = second\<rparr> \<in> set sample_tiers" by (simp add: sample_tiers_def)
  from sliding_window_limit [OF db_redis_documented sample_tiers_good sample_run this,
      of "''k''" 1000500 Delivered]
  show ?thesis by (simp add: sample_window)
qed

text \<open>
  C8: \<open>Allow\<close> is a log of hits seen through the database.  In any run, a call that reaches the
  server is refused exactly when some tier already holds its limit of hits younger than its window,
  and the wait it answers is the longest of the waits until the oldest of those has aged out; a call
  Redis did not answer is an error and neither verdict.
\<close>
theorem allow_refines_log:
  fixes d :: "'e delivery"
  assumes "redis_documented rd view" "good_tiers tiers" "limiter_run rd view tiers log r"
  shows "fst (allow rd tiers d key r) =
    (case d of
       Delivered \<Rightarrow>
         if \<exists>t \<in> set tiers. tier_full (server_now rd r) (hit_times log key) t
         then (False, log_wait (server_now rd r) (\<lambda>w. hit_times log key) tiers 0 * millisecond, None)
         else (True, 0, None)
     | NotRun e \<Rightarrow> (False, 0, Some (RedisDown key e))
     | ReplyLost e \<Rightarrow> (False, 0, Some (RedisDown key e)))"
proof -
  have server: "redis_server rd view" by (rule redis_server.intro) (rule assms(1))
  have g: "tiers \<noteq> []" "\<forall>t \<in> set tiers. 0 < window_ms t"
    using assms(2) by (simp_all add: good_tiers_def)
  have "fst (allow rd tiers (Delivered :: 'e delivery) key r) =
    (if log_wait (db_now (view r)) (\<lambda>w. hit_times log key) tiers 0 > 0
     then (False, log_wait (db_now (view r)) (\<lambda>w. hit_times log key) tiers 0 * millisecond, None)
     else (True, 0, None))"
    by (rule redis_server.run_allow [OF server assms(3,2)])
  then show ?thesis
    using log_wait_pos [OF g(2), of "server_now rd r" "\<lambda>w. hit_times log key"]
    by (simp add: redis_server.time [OF server] redis_server.allow_verdict [OF server g(1)]
        split: delivery.split)
qed

lemma sample_after_now: "server_now db_redis sample_after = 1000000"
proof -
  have "db_now sample_after = db_now sample_db"
    using db_server.admit_one_tracked(3)
      [OF db_server.run_tracks [OF sample_run_empty sample_tiers_good] sample_tiers_good, of "''k''"]
    by (simp add: sample_after_def db_server.allow_state sample_tiers_def)
  then show ?thesis by (simp add: server_now_db) (simp add: db_now_def sample_db_def)
qed

lemma sample_wait:
  "log_wait 1000000 (\<lambda>w. hit_times [(1000000, ''k'')] ''k'') sample_tiers 0 = 1000"
  "tier_full 1000000 (hit_times [(1000000, ''k'')] ''k'') \<lparr>tier_limit = 1, tier_window = second\<rparr>"
  by (simp_all add: sample_tiers_def hit_times_def recent_def sample_window tier_full_def tier_retry_def)

lemma sample_refused:
  "fst (allow db_redis sample_tiers (Delivered :: string delivery) ''k'' sample_after)
    = (False, second, None)"
proof -
  have "fst (allow db_redis sample_tiers (Delivered :: string delivery) ''k'' sample_after) =
    (if 0 < log_wait (db_now sample_after) (\<lambda>w. hit_times [(1000000, ''k'')] ''k'') sample_tiers 0
     then (False, log_wait (db_now sample_after) (\<lambda>w. hit_times [(1000000, ''k'')] ''k'') sample_tiers 0
       * millisecond, None) else (True, 0, None))"
    by (rule db_server.run_allow [OF sample_run sample_tiers_good])
  then show ?thesis
    by (simp add: sample_after_now [unfolded server_now_db] sample_wait) (simp add: second_def)
qed

lemma allow_refines_log_witness:
  "fst (allow db_redis sample_tiers (NotRun ''down'') ''k'' sample_after)
      = (False, 0, Some (RedisDown ''k'' ''down''))
    \<and> \<not> fst (fst (allow db_redis sample_tiers (Delivered :: string delivery) ''k'' sample_after))"
proof -
  have "\<exists>t \<in> set sample_tiers. tier_full (server_now db_redis sample_after)
      (hit_times [(1000000, ''k'')] ''k'') t"
    using sample_wait(2) by (simp add: sample_after_now sample_tiers_def)
  then show ?thesis
    unfolding allow_refines_log [OF db_redis_documented sample_tiers_good sample_run] by simp
qed

text \<open>
  The wait is exact.  When every limit is at least one and nothing else uses the limiter's keys,
  a caller that was refused is allowed at a later moment if and only if the time it was told to wait
  has passed: not a millisecond earlier, and never longer, because a refused call is not counted.
\<close>
theorem refusal_wait_exact:
  assumes "redis_documented rd view" "good_tiers tiers" "\<forall>t \<in> set tiers. 0 < tier_limit t"
    and "limiter_run rd view tiers log r"
    and "fst (allow rd tiers (Delivered :: string delivery) key r) = (False, retry_after, None)"
    and "env_step (limiter_keys rateLimitNamespace tiers)
      (view (snd (allow rd tiers (Delivered :: string delivery) key r))) (view r')"
  shows "fst (fst (allow rd tiers (Delivered :: string delivery) key r')) \<longleftrightarrow>
    server_now rd r + milliseconds retry_after \<le> server_now rd r'"
proof -
  have "redis_server rd view" by (rule redis_server.intro) (rule assms(1))
  from redis_server.run_refused_again [OF this assms(4,2,3,5,6)] show ?thesis .
qed

text \<open>The state a second later.\<close>

definition sample_later :: db where
  "sample_later = (snd (allow db_redis sample_tiers (Delivered :: string delivery) ''k'' sample_after))
     \<lparr>seconds := 1001, microseconds := 0,
      entries := (\<lambda>k. expire 1001000 (entries (snd (allow db_redis sample_tiers
        (Delivered :: string delivery) ''k'' sample_after)) k))\<rparr>"

lemma refusal_wait_exact_witness:
  "fst (fst (allow db_redis sample_tiers (Delivered :: string delivery) ''k'' sample_later))"
proof -
  let ?r = "snd (allow db_redis sample_tiers (Delivered :: string delivery) ''k'' sample_after)"
  have "db_now ?r = 1000000"
    using db_server.admit_one_tracked(3)
      [OF db_server.run_tracks [OF sample_run sample_tiers_good] sample_tiers_good, of "''k''"]
      sample_after_now
    by (simp add: db_server.allow_state sample_tiers_def server_now_db)
  then have step: "env_step (limiter_keys rateLimitNamespace sample_tiers) ?r sample_later"
    by (simp add: env_step_def sample_later_def) (simp add: db_now_def)
  have pos: "\<forall>t \<in> set sample_tiers. 0 < tier_limit t" by (simp add: sample_tiers_def)
  have "server_now db_redis sample_later = 1001000"
    by (simp add: server_now_db db_now_def sample_later_def)
  moreover have "milliseconds second = 1000" by (simp add: milliseconds_def duration_defs)
  ultimately show ?thesis
    using refusal_wait_exact [OF db_redis_documented sample_tiers_good pos sample_run sample_refused step]
      sample_after_now by simp
qed

text \<open>Two tiers over the same minute, with room for two hits and for three.\<close>

definition twin_tiers :: "tier list" where
  "twin_tiers = [\<lparr>tier_limit = 2, tier_window = minute\<rparr>, \<lparr>tier_limit = 3, tier_window = minute\<rparr>]"

definition twin_after :: db where
  "twin_after = snd (allow db_redis twin_tiers (Delivered :: string delivery) ''k'' sample_db)"

lemma twin_window: "window_ms \<lparr>tier_limit = n, tier_window = minute\<rparr> = 60000"
  by (simp add: window_ms_def milliseconds_def duration_defs)

lemma sample_db_zrem: "db_zrem k x sample_db = sample_db"
  by (simp add: db_zrem_def put_def zset_at_def sample_db_def)

lemma sample_db_empty: "zset_at sample_db k = []" "db_now sample_db = 1000000"
  "entries sample_db k = None"
  by (simp_all add: zset_at_def sample_db_def db_now_def)

lemma twin_first:
  "admit_one db_redis (tier_keys rateLimitNamespace twin_tiers ''k'') (tier_args twin_tiers) sample_db
    = ([1, 0], add_step (hits_key rateLimitNamespace 60000 ''k'') (sequence_key rateLimitNamespace 60000 ''k'')
        60000 (add_step (hits_key rateLimitNamespace 60000 ''k'')
          (sequence_key rateLimitNamespace 60000 ''k'') 60000 sample_db))"
proof -
  have "admit_check db_redis 1000000 (tier_keys rateLimitNamespace twin_tiers ''k'')
      (tier_args twin_tiers) 0 sample_db = (0, sample_db)"
    by (simp add: twin_tiers_def tier_keys_Cons twin_window sample_db_zrem sample_db_empty Let_def)
  then show ?thesis
    by (simp add: admit_one_def server_now_db sample_db_empty Let_def)
      (simp add: twin_tiers_def admit_record_Cons sample_db_empty twin_window,
       simp add: tier_keys_Cons)
qed

lemma twin_members:
  "\<exists>m m'. entries twin_after (hits_key rateLimitNamespace 60000 ''k'')
      = Some (ZSet [(m, 1000000), (m', 1000000)], Some 1060000) \<and> db_now twin_after = 1000000"
proof -
  have "member_name 1000000 1 \<noteq> member_name 1000000 2"
    using member_name_inj [of 1000000 1000000 1 2] by auto
  moreover have "twin_tiers \<noteq> []" by (simp add: twin_tiers_def)
  ultimately show ?thesis
    by (simp add: twin_after_def db_server.allow_state twin_first entries_add_step add_hit_def
        sample_db_empty members_def counter_of_def)
qed


end
