(* ===== verification/Failure_Counter.thy ===== *)
theory Failure_Counter
  imports Rate_Limiter
begin

text \<open>
  Runs of one \<open>FailureCounter\<close>: the failures recorded against each key and not yet reset.
\<close>

definition ran :: "'e delivery \<Rightarrow> bool" where
  "ran d = (case d of NotRun _ \<Rightarrow> False | _ \<Rightarrow> True)"

inductive failure_run :: "'r redis \<Rightarrow> ('r \<Rightarrow> db) \<Rightarrow> tier list \<Rightarrow> hit_log \<Rightarrow> 'r \<Rightarrow> bool"
  for rd view tiers where
  fresh: "\<forall>k \<in> limiter_keys failureNamespace tiers. entries (view r) k = None \<Longrightarrow>
    failure_run rd view tiers [] r"
| failed: "failure_run rd view tiers log r \<Longrightarrow>
    failure_run rd view tiers
      (if ran (d :: string delivery) then (server_now rd r, key) # log else log)
      (snd (record_hit rd tiers d key r))"
| succeeded: "failure_run rd view tiers log r \<Longrightarrow>
    failure_run rd view tiers
      (if ran (d :: string delivery) then filter (\<lambda>e. snd e \<noteq> key) log else log)
      (snd (reset rd tiers d key r))"
| other: "failure_run rd view tiers log r \<Longrightarrow>
    env_step (limiter_keys failureNamespace tiers) (view r) (view r') \<Longrightarrow>
    failure_run rd view tiers log r'"

text \<open>A check reads and never writes.\<close>

lemma check_keeps_state [simp]: "snd (check rd tiers d key r) = r"
  by (auto simp: check_def send_def count_failures_def Let_def split: delivery.split)

lemma cell_above:
  assumes "cell_inv now w h s ts"
  shows "length (above (now - w) (members h)) = length (recent now w ts)"
    "lowest (above (now - w) (members h)) =
      (if recent now w ts = [] then None else Some (Min (set (recent now w ts))))"
proof -
  have "mset (scores (trim (now - w) h)) = mset (recent now w ts)"
    by (rule cell_inv_trim(2) [OF assms])
  from cell_counts [OF this] have m:
    "length (members (trim (now - w) h)) = length (recent now w ts)"
    "lowest (members (trim (now - w) h)) =
      (if recent now w ts = [] then None else Some (Min (set (recent now w ts))))" .
  have "members (trim (now - w) h) = above (now - w) (members h)"
    by (auto simp: trim_def members_def above_def split: option.splits redis_value.splits)
  with m show "length (above (now - w) (members h)) = length (recent now w ts)"
    "lowest (above (now - w) (members h)) =
      (if recent now w ts = [] then None else Some (Min (set (recent now w ts))))" by simp_all
qed

lemma tracks_cell:
  assumes "tracks ns ws tms db" "w \<in> set ws"
  shows "cell_inv (db_now db) w (entries db (hits_key ns w key)) (entries db (sequence_key ns w key)) (tms w key)"
    "holds_zset db (hits_key ns w key)" "holds_counter db (sequence_key ns w key)"
proof -
  show c: "cell_inv (db_now db) w (entries db (hits_key ns w key)) (entries db (sequence_key ns w key)) (tms w key)"
    using assms by (simp add: tracks_def)
  then show "holds_zset db (hits_key ns w key)" "holds_counter db (sequence_key ns w key)"
    by (auto simp: cell_inv_def holds_zset_def holds_counter_def
        split: option.splits prod.splits redis_value.splits)
qed

lemma tier_keys_set:
  "set (tier_keys ns tiers key) =
    (\<Union>t \<in> set tiers. {hits_key ns (window_ms t) key, sequence_key ns (window_ms t) key})"
  by (induction tiers) (auto simp: tier_keys_Cons)

lemma tracks_del:
  assumes "tracks ns (map window_ms tiers) tms db"
  shows "tracks ns (map window_ms tiers) (\<lambda>w k. if k = key then [] else tms w k)
    (db_del (tier_keys ns tiers key) db)"
  using assms
  by (auto simp: tracks_def db_del_def db_now_def tier_keys_set hits_key_inj sequence_key_inj cell_inv_start)

context redis_server
begin

lemma count_check_tiers:
  assumes "tracks ns ws tms (view r)" "db_now (view r) = now"
  shows "window_ms ` set tiers \<subseteq> set ws \<Longrightarrow>
    count_check rd now (map (\<lambda>t. hits_key ns (window_ms t) key) tiers) (tier_args tiers) wait r
      = log_wait now (\<lambda>w. tms w key) tiers wait"
proof (induction tiers arbitrary: wait)
  case (Cons t tiers)
  let ?w = "window_ms t"
  have w: "?w \<in> set ws" "window_ms ` set tiers \<subseteq> set ws" using Cons.prems by auto
  note cell = tracks_cell [OF assms(1) w(1), of key]
  note above = cell_above [OF cell(1), unfolded assms(2)]
  have m: "zset_at (view r) (hits_key ns ?w key) = members (entries (view r) (hits_key ns ?w key))"
    by (simp add: zset_at_def members_def)
  have retry: "(case zrangebyscore_first rd (hits_key ns ?w key) (now - ?w) r of
      None \<Rightarrow> ?w | Some oldest \<Rightarrow> oldest + ?w - now) = tier_retry now ?w (tms ?w key)"
    by (simp add: zset_laws(5) [OF cell(2)] m above tier_retry_def)
  have mx: "(if x > wait then x else wait) = max wait x" for x by (simp add: max_def)
  show ?case
    using Cons.IH [OF w(2)]
    by (simp add: tier_keys_Cons Let_def zset_laws(4) [OF cell(2)] m above(1) retry mx)
qed (simp add: tier_keys_Cons)

text \<open>One tier of \<open>recordFailure\<close>.\<close>

definition record_step :: "string \<Rightarrow> string \<Rightarrow> int \<Rightarrow> int \<Rightarrow> 'r \<Rightarrow> 'r" where
  "record_step hits seq window now r =
     (let r0 = zremrangebyscore rd hits (now - window) r;
          (n, r1) = incr rd seq r0;
          r2 = zadd rd hits now (int_string now @ ''-'' @ int_string n) r1
      in pexpire rd seq window (pexpire rd hits window r2))"

lemma record_step_view:
  assumes "holds_zset (view r) hits" "holds_counter (view r) seq" "hits \<noteq> seq" "db_now (view r) = now"
  shows "view (record_step hits seq window now r) =
    add_step hits seq window (db_zrem hits (now - window) (view r))"
proof -
  let ?r0 = "zremrangebyscore rd hits (now - window) r"
  have v0: "view ?r0 = db_zrem hits (now - window) (view r)" by (rule zset_laws(1) [OF assms(1)])
  obtain n r1 where inc: "incr rd seq ?r0 = (n, r1)" by fastforce
  have "holds_counter (view ?r0) seq" using assms(2,3) by (simp add: v0)
  note c = counter_laws [OF this inc]
  then have inc_db: "db_incr seq (view ?r0) = (n, view r1)" by (simp add: db_incr_def Let_def)
  have "holds_zset (view r1) hits" using assms(1,3) by (simp add: c(2) v0)
  note z = zset_laws(6) [OF this]
  show ?thesis
    using inc_db [unfolded v0] assms(4)
    by (simp add: record_step_def inc Let_def key_laws z add_step_def member_name_def)
qed

lemma record_loop_tiers:
  "tracks ns ws tms (view r) \<Longrightarrow> db_now (view r) = now \<Longrightarrow> window_ms ` set tiers \<subseteq> set ws \<Longrightarrow>
    distinct (map window_ms tiers) \<Longrightarrow> \<forall>t \<in> set tiers. 0 < window_ms t \<Longrightarrow>
    tracks ns ws (add_time (map window_ms tiers) key now tms)
      (view (record_loop rd now (tier_keys ns tiers key) (map window_ms tiers) r)) \<and>
    db_now (view (record_loop rd now (tier_keys ns tiers key) (map window_ms tiers) r)) = now"
proof (induction tiers arbitrary: r tms)
  case Nil
  then show ?case by (simp add: tier_keys_Cons add_time_def [abs_def])
next
  case (Cons t tiers)
  let ?w = "window_ms t"
  let ?h = "hits_key ns ?w key" and ?s = "sequence_key ns ?w key"
  let ?r = "record_step ?h ?s ?w now r"
  let ?tms = "\<lambda>w k. if w = ?w \<and> k = key then now # tms w k else tms w k"
  have w: "?w \<in> set ws" "window_ms ` set tiers \<subseteq> set ws" "0 < ?w" using Cons.prems(3,5) by auto
  note cell = tracks_cell [OF Cons.prems(1) w(1), of key]
  have v: "view ?r = add_step ?h ?s ?w (db_zrem ?h (now - ?w) (view r))"
    using record_step_view [OF cell(2,3)] Cons.prems(2) by simp
  have z: "tracks ns ws tms (db_zrem ?h (now - ?w) (view r))"
    using tracks_zrem [OF Cons.prems(1), of ?w key] Cons.prems(2) by simp
  have "tracks ns ws ?tms (view ?r)"
    using tracks_add [OF z w(3), of key, unfolded db_now_updates(2) Cons.prems(2)] unfolding v .
  note ih = Cons.IH [OF this _ w(2)]
  have eq: "add_time (map window_ms tiers) key now ?tms = add_time (map window_ms (t # tiers)) key now tms"
    using Cons.prems(4) by (auto simp: fun_eq_iff add_time_def)
  have "record_loop rd now (tier_keys ns (t # tiers) key) (map window_ms (t # tiers)) r =
    record_loop rd now (tier_keys ns tiers key) (map window_ms tiers) ?r"
    by (simp add: tier_keys_Cons record_step_def Let_def split: prod.split)
  with ih Cons.prems show ?case by (simp add: eq v)
qed

lemma record_hit_state:
  "tiers \<noteq> [] \<Longrightarrow> snd (record_hit rd tiers d key r) =
    (if ran d then record_loop rd (server_now rd r) (tier_keys failureNamespace tiers key)
       (map window_ms tiers) r else r)"
  by (simp add: record_hit_def send_def record_failure_def ran_def window_ms_def [abs_def] Let_def
      split: delivery.split)

lemma reset_state:
  "tiers \<noteq> [] \<Longrightarrow> snd (reset rd tiers d key r) =
    (if ran d then del_keys rd (tier_keys failureNamespace tiers key) r else r)"
  by (simp add: reset_def send_def ran_def Let_def split: delivery.split)

lemma failure_run_tracks:
  assumes "failure_run rd view tiers log r" "good_tiers tiers"
  shows "tracks failureNamespace (map window_ms tiers) (log_times log) (view r)"
  using assms(1)
proof (induction rule: failure_run.induct)
  case (fresh r)
  have "entries (view r) (hits_key failureNamespace w key) = None \<and>
    entries (view r) (sequence_key failureNamespace w key) = None"
    if "w \<in> set (map window_ms tiers)" for w key
    using fresh that unfolding limiter_keys_def by blast
  then show ?case by (simp add: tracks_def hit_times_def cell_inv_start)
next
  case (failed log r d key)
  have g: "tiers \<noteq> []" "distinct (map window_ms tiers)" "\<forall>t \<in> set tiers. 0 < window_ms t"
    using assms(2) by (simp_all add: good_tiers_def)
  from record_loop_tiers [OF failed.IH refl _ g(2,3), of key] failed.IH
  show ?case unfolding record_hit_state [OF g(1)] by (simp add: time tracks_add_time)
next
  case (succeeded log r d key)
  have g: "tiers \<noteq> []" using assms(2) by (simp add: good_tiers_def)
  have "hit_times (filter (\<lambda>e. snd e \<noteq> key) log) k = (if k = key then [] else hit_times log k)" for k
    by (auto simp: hit_times_def filter_empty_conv intro!: arg_cong [where f = "map fst"] filter_cong)
  with tracks_del [OF succeeded.IH, of key] succeeded.IH show ?case
    unfolding reset_state [OF g] by (simp add: key_laws)
next
  case (other log r r')
  from tracks_env [OF other.IH other.hyps(2) [unfolded limiter_keys_def]] show ?case .
qed

end

subsection \<open>Properties\<close>

text \<open>
  \<open>Check\<close> answers from the failures recorded against the key since it was last reset, and
  from nothing else: it refuses exactly when some tier holds its limit of failures younger than its
  window, with the longest wait among them, leaves the server as it found it, and answers neither
  verdict when Redis did not reply.
\<close>
theorem check_refines_failures:
  fixes d :: "'e delivery"
  assumes "redis_documented rd view" "good_tiers tiers" "failure_run rd view tiers log r"
  shows "check rd tiers d key r =
    ((case d of
       Delivered \<Rightarrow>
         if \<exists>t \<in> set tiers. tier_full (server_now rd r) (hit_times log key) t
         then (False, log_wait (server_now rd r) (\<lambda>w. hit_times log key) tiers 0 * millisecond, None)
         else (True, 0, None)
     | NotRun e \<Rightarrow> (False, 0, Some (RedisDown key e))
     | ReplyLost e \<Rightarrow> (False, 0, Some (RedisDown key e))), r)"
proof -
  have server: "redis_server rd view" by (rule redis_server.intro) (rule assms(1))
  have g: "tiers \<noteq> []" "\<forall>t \<in> set tiers. 0 < window_ms t"
    using assms(2) by (simp_all add: good_tiers_def)
  have "count_check rd (server_now rd r) (map (\<lambda>t. hits_key failureNamespace (window_ms t) key) tiers)
      (tier_args tiers) 0 r = log_wait (server_now rd r) (\<lambda>w. hit_times log key) tiers 0"
    unfolding redis_server.time [OF server]
    by (rule redis_server.count_check_tiers [OF server
          redis_server.failure_run_tracks [OF server assms(3,2)] refl]) simp
  then show ?thesis
    using g(1) log_wait_pos [OF g(2), of "server_now rd r" "\<lambda>w. hit_times log key"]
    by (cases "\<exists>t \<in> set tiers. tier_full (server_now rd r) (hit_times log key) t")
      (simp_all add: check_def send_def count_failures_def verdict_def window_ms_def [symmetric] Let_def
        split: delivery.split)
qed

lemma check_refines_failures_witness:
  "fst (fst (check db_redis sample_tiers (Delivered :: string delivery) ''k'' sample_db))
    \<and> \<not> fst (fst (check db_redis sample_tiers (Delivered :: string delivery) ''k''
        (snd (record_hit db_redis sample_tiers (Delivered :: string delivery) ''k'' sample_db))))"
proof -
  have empty: "failure_run db_redis (\<lambda>d. d) sample_tiers [] sample_db"
    by (rule failure_run.fresh) (simp add: sample_db_def)
  let ?d = "snd (record_hit db_redis sample_tiers (Delivered :: string delivery) ''k'' sample_db)"
  have one: "failure_run db_redis (\<lambda>d. d) sample_tiers [(1000000, ''k'')] ?d"
    using failure_run.failed [OF empty, of Delivered "''k''"]
    by (simp add: ran_def server_now_db sample_db_empty)
  have t: "tracks failureNamespace (map window_ms sample_tiers) (log_times []) sample_db"
    by (rule db_server.failure_run_tracks [OF empty sample_tiers_good])
  have g: "sample_tiers \<noteq> []" "distinct (map window_ms sample_tiers)"
    "\<forall>t \<in> set sample_tiers. 0 < window_ms t"
    using sample_tiers_good by (simp_all add: good_tiers_def)
  have "db_now ?d = 1000000"
    using db_server.record_loop_tiers [OF t sample_db_empty(2) _ g(2,3), of "''k''"]
    by (simp add: db_server.record_hit_state [OF g(1)] ran_def server_now_db sample_db_empty)
  then show ?thesis
    unfolding check_refines_failures [OF db_redis_documented sample_tiers_good empty]
      check_refines_failures [OF db_redis_documented sample_tiers_good one]
    by (simp add: server_now_db sample_tiers_def tier_full_def sample_window hit_times_def recent_def)
qed

text \<open>
  Success forgets.  After a \<open>Reset\<close> that reached the server the key has its full allowance
  again, whatever had been recorded against it, and the other keys keep their failures.
\<close>
theorem reset_restores_allowance:
  fixes key other :: string
  assumes "redis_documented rd view" "good_tiers tiers" "\<forall>t \<in> set tiers. 0 < tier_limit t"
    and "failure_run rd view tiers log r"
  defines "r' \<equiv> snd (reset rd tiers (Delivered :: string delivery) key r)"
  shows "fst (check rd tiers (Delivered :: string delivery) key r') = (True, 0, None)
    \<and> (other \<noteq> key \<longrightarrow>
        fst (check rd tiers (Delivered :: string delivery) other r')
          = fst (check rd tiers (Delivered :: string delivery) other r))"
proof -
  have server: "redis_server rd view" by (rule redis_server.intro) (rule assms(1))
  have run': "failure_run rd view tiers (filter (\<lambda>e. snd e \<noteq> key) log) r'"
    using failure_run.succeeded [OF assms(4), of Delivered key] by (simp add: r'_def ran_def)
  note c = check_refines_failures [OF assms(1,2)]
  have "hit_times (filter (\<lambda>e. snd e \<noteq> key) log) key = []" by (simp add: hit_times_def)
  moreover have "other \<noteq> key \<Longrightarrow> hit_times (filter (\<lambda>e. snd e \<noteq> key) log) other = hit_times log other"
    by (auto simp: hit_times_def intro!: arg_cong [where f = "map fst"] filter_cong)
  moreover have "tiers \<noteq> []" using assms(2) by (simp add: good_tiers_def)
  then have "server_now rd r' = server_now rd r"
    by (simp add: redis_server.time [OF server] r'_def redis_server.reset_state [OF server]
        redis_server.key_laws [OF server] ran_def)
  ultimately show ?thesis
    using assms(3) by (auto simp: c [OF run'] c [OF assms(4)] tier_full_def recent_def)
qed

lemma reset_restores_allowance_witness:
  "fst (check db_redis sample_tiers (Delivered :: string delivery) ''k''
      (snd (reset db_redis sample_tiers (Delivered :: string delivery) ''k''
        (snd (record_hit db_redis sample_tiers (Delivered :: string delivery) ''k'' sample_db)))))
    = (True, 0, None)"
proof -
  have empty: "failure_run db_redis (\<lambda>d. d) sample_tiers [] sample_db"
    by (rule failure_run.fresh) (simp add: sample_db_def)
  have pos: "\<forall>t \<in> set sample_tiers. 0 < tier_limit t" by (simp add: sample_tiers_def)
  note one = failure_run.failed [OF empty, of Delivered "''k''"]
  from reset_restores_allowance [OF db_redis_documented sample_tiers_good pos one, of "''k''"]
  show ?thesis by simp
qed

end
