(* ===== verification/Repository.thy ===== *)
theory Repository
  imports Base64 GoTime GoText "HOL-Library.Product_Lexorder"
begin

text \<open>
  The queries of \<open>backend/internal/modules/identity/repository\<close> as functions on the four
  tables they touch.  Each definition is one SQL statement with the constraints of the schema
  (\<open>backend/db/migrations\<close>) that it can violate; the columns no query reads or writes are left out.
  A row of \<open>users_live\<close> is a row of \<open>users\<close> with no \<open>deleted_at\<close>.
\<close>

subsection \<open>Tables and server\<close>

record user_row =
  u_id :: string
  u_email :: string
  u_name :: string
  u_password_hash :: string
  u_timezone :: string
  u_role :: string
  u_created_at :: time
  u_updated_at :: time
  u_deleted_at :: "time option"

record session_row =
  ss_id :: string
  ss_user_id :: string
  ss_token_hash :: "byte list"
  ss_user_agent :: string
  ss_created_at :: time
  ss_last_seen_at :: time
  ss_expires_at :: time

record invitation_row =
  in_id :: string
  in_email :: string
  in_token_hash :: "byte list"
  in_invited_by :: string
  in_role :: string
  in_expires_at :: time
  in_accepted_at :: "time option"
  in_created_at :: time

record reset_row =
  pr_id :: string
  pr_user_id :: string
  pr_token_hash :: "byte list"
  pr_expires_at :: time
  pr_used_at :: "time option"
  pr_created_at :: time

text \<open>
  \<open>pg_now\<close> is \<open>now()\<close>, the time the transaction began; \<open>new_uuid\<close> are the values \<open>uuidv7()\<close>
  will return, of which \<open>uuid_count\<close> have been taken; \<open>pg_lower\<close> is \<open>lower()\<close> under the database's
  collation and \<open>to_uuid\<close> the cast \<open>::uuid\<close>, in the canonical spelling; \<open>deliveries\<close> says what
  becomes of the next statements on their way to the server.
\<close>

record pg =
  users :: "user_row list"
  sessions :: "session_row list"
  invitations :: "invitation_row list"
  resets :: "reset_row list"
  pg_now :: time
  new_uuid :: "nat \<Rightarrow> string"
  uuid_count :: nat
  pg_lower :: "string \<Rightarrow> string"
  to_uuid :: "string \<Rightarrow> string option"
  deliveries :: "string delivery list"

datatype db_error =
  NoRows
  | UniqueViolation string
  | CheckViolation string
  | ForeignKeyViolation string
  | InvalidText string
  | Unavailable string

type_synonym 'a stmt = "pg \<Rightarrow> (db_error + 'a) \<times> pg"

definition statement :: "'a stmt \<Rightarrow> 'a stmt" where
  "statement f d =
     (let (dl, d0) = (case deliveries d of [] \<Rightarrow> (Delivered, d) | x # xs \<Rightarrow> (x, d\<lparr>deliveries := xs\<rparr>));
          (reply, d1) = send dl f d0
      in (case reply of Inl e \<Rightarrow> (Inl (Unavailable e), d1) | Inr r \<Rightarrow> (r, d1)))"

text \<open>A parameter the statement casts to \<open>uuid\<close>.\<close>

definition with_uuid :: "string \<Rightarrow> (string \<Rightarrow> 'a stmt) \<Rightarrow> 'a stmt" where
  "with_uuid txt f d = (case to_uuid d txt of None \<Rightarrow> (Inl (InvalidText txt), d) | Some i \<Rightarrow> f i d)"

definition users_live :: "pg \<Rightarrow> user_row list" where
  "users_live d = filter (\<lambda>u. u_deleted_at u = None) (users d)"

definition not_blank :: "string \<Rightarrow> bool" where
  "not_blank s \<longleftrightarrow> (\<exists>c \<in> set s. c \<noteq> CHR '' '')"

definition next_uuid :: "pg \<Rightarrow> string" where
  "next_uuid d = new_uuid d (uuid_count d)"

text \<open>\<open>UPDATE\<close> and \<open>DELETE\<close> over a table, with the number of rows they met.\<close>

definition update_rows :: "('r \<Rightarrow> bool) \<Rightarrow> ('r \<Rightarrow> 'r) \<Rightarrow> 'r list \<Rightarrow> 'r list" where
  "update_rows P f rows = map (\<lambda>r. if P r then f r else r) rows"

definition row_count :: "('r \<Rightarrow> bool) \<Rightarrow> 'r list \<Rightarrow> int" where
  "row_count P rows = int (length (filter P rows))"

subsection \<open>\<open>users.sql\<close>\<close>

definition account_roles :: "string list" where
  "account_roles = [''owner'', ''maintainer'', ''contributor'', ''viewer'']"

definition create_user :: "string \<Rightarrow> string \<Rightarrow> string \<Rightarrow> string \<Rightarrow> user_row stmt" where
  "create_user email name password_hash role = statement (\<lambda>d.
     let u = \<lparr>u_id = next_uuid d, u_email = email, u_name = name, u_password_hash = password_hash,
              u_timezone = ''Asia/Jakarta'', u_role = role, u_created_at = pg_now d,
              u_updated_at = pg_now d, u_deleted_at = None\<rparr>;
         d' = d\<lparr>uuid_count := uuid_count d + 1\<rparr>
     in if \<not> not_blank email then (Inl (CheckViolation ''users_email_not_blank''), d')
        else if \<not> not_blank name then (Inl (CheckViolation ''users_name_not_blank''), d')
        else if role \<notin> set account_roles then (Inl (CheckViolation ''users_role_known''), d')
        else if u_id u \<in> u_id ` set (users d) then (Inl (UniqueViolation ''users_pkey''), d')
        else if \<exists>x \<in> set (users_live d). pg_lower d (u_email x) = pg_lower d email
        then (Inl (UniqueViolation ''users_email_key''), d')
        else if role = ''owner'' \<and> (\<exists>x \<in> set (users_live d). u_role x = ''owner'')
        then (Inl (UniqueViolation ''users_single_owner_role_key''), d')
        else (Inr u, d'\<lparr>users := users d @ [u]\<rparr>))"

definition find_row :: "('r \<Rightarrow> bool) \<Rightarrow> 'r list \<Rightarrow> db_error + 'r" where
  "find_row P rows = (case find P rows of None \<Rightarrow> Inl NoRows | Some r \<Rightarrow> Inr r)"

definition get_user_by_email :: "string \<Rightarrow> user_row stmt" where
  "get_user_by_email email = statement (\<lambda>d.
     (find_row (\<lambda>u. pg_lower d (u_email u) = pg_lower d email) (users_live d), d))"

definition get_user_by_id :: "string \<Rightarrow> user_row stmt" where
  "get_user_by_id i = statement (with_uuid i (\<lambda>i d. (find_row (\<lambda>u. u_id u = i) (users_live d), d)))"

text \<open>
  \<open>collate\<close> is the key by which the database's collation compares; rows with equal keys come in no
  particular order.
\<close>

record list_users_row =
  lu_id :: string
  lu_email :: string
  lu_name :: string
  lu_role :: string
  lu_created_at :: time

definition list_users :: "(string \<Rightarrow> string) \<Rightarrow> list_users_row list stmt" where
  "list_users collate = statement (\<lambda>d.
     (Inr (map (\<lambda>u. \<lparr>lu_id = u_id u, lu_email = u_email u, lu_name = u_name u, lu_role = u_role u,
                   lu_created_at = u_created_at u\<rparr>)
            (sort_key (\<lambda>u. collate (pg_lower d (u_name u))) (users_live d))), d))"

definition set_user_password_hash :: "string \<Rightarrow> string \<Rightarrow> user_row stmt" where
  "set_user_password_hash password_hash i = statement (with_uuid i (\<lambda>i d.
     let P = (\<lambda>u. u_id u = i \<and> u_deleted_at u = None);
         users' = update_rows P (\<lambda>u. u\<lparr>u_password_hash := password_hash, u_updated_at := pg_now d\<rparr>)
           (users d)
     in (find_row P users', d\<lparr>users := users'\<rparr>)))"

definition soft_delete_user :: "string \<Rightarrow> int stmt" where
  "soft_delete_user i = statement (with_uuid i (\<lambda>i d.
     let P = (\<lambda>u. u_id u = i \<and> u_deleted_at u = None);
         mask = (\<lambda>u. u\<lparr>u_deleted_at := Some (pg_now d), u_email := ''deleted+'' @ u_id u @ ''@invalid'',
                      u_name := ''Pengguna dihapus'', u_updated_at := pg_now d\<rparr>)
     in (Inr (row_count P (users d)), d\<lparr>users := update_rows P mask (users d)\<rparr>)))"

definition update_user_password_hash :: "string \<Rightarrow> string \<Rightarrow> string \<Rightarrow> int stmt" where
  "update_user_password_hash new_hash i current_hash = statement (with_uuid i (\<lambda>i d.
     let P = (\<lambda>u. u_id u = i \<and> u_password_hash u = current_hash \<and> u_deleted_at u = None)
     in (Inr (row_count P (users d)),
         d\<lparr>users := update_rows P
             (\<lambda>u. u\<lparr>u_password_hash := new_hash, u_updated_at := pg_now d\<rparr>) (users d)\<rparr>)))"

subsection \<open>\<open>sessions.sql\<close>\<close>

definition create_session :: "string \<Rightarrow> byte list \<Rightarrow> string \<Rightarrow> time \<Rightarrow> session_row stmt" where
  "create_session user_id token_hash user_agent expires_at = statement (with_uuid user_id (\<lambda>user_id d.
     let s = \<lparr>ss_id = next_uuid d, ss_user_id = user_id, ss_token_hash = token_hash,
              ss_user_agent = user_agent, ss_created_at = pg_now d, ss_last_seen_at = pg_now d,
              ss_expires_at = expires_at\<rparr>;
         d' = d\<lparr>uuid_count := uuid_count d + 1\<rparr>
     in if length token_hash \<noteq> 32 then (Inl (CheckViolation ''sessions_token_hash_len''), d')
        else if ss_id s \<in> ss_id ` set (sessions d) then (Inl (UniqueViolation ''sessions_pkey''), d')
        else if token_hash \<in> ss_token_hash ` set (sessions d)
        then (Inl (UniqueViolation ''sessions_token_hash_key''), d')
        else if user_id \<notin> u_id ` set (users d)
        then (Inl (ForeignKeyViolation ''sessions_user_id_fkey''), d')
        else (Inr s, d'\<lparr>sessions := sessions d @ [s]\<rparr>)))"

definition delete_sessions :: "(session_row \<Rightarrow> bool) \<Rightarrow> int stmt" where
  "delete_sessions P d =
     (Inr (row_count P (sessions d)), d\<lparr>sessions := filter (\<lambda>s. \<not> P s) (sessions d)\<rparr>)"

definition delete_all_sessions_for_user :: "string \<Rightarrow> int stmt" where
  "delete_all_sessions_for_user user_id = statement (with_uuid user_id (\<lambda>user_id.
     delete_sessions (\<lambda>s. ss_user_id s = user_id)))"

definition delete_other_sessions_for_user :: "string \<Rightarrow> string \<Rightarrow> int stmt" where
  "delete_other_sessions_for_user user_id current_id =
     statement (with_uuid user_id (\<lambda>user_id. with_uuid current_id (\<lambda>current_id.
       delete_sessions (\<lambda>s. ss_user_id s = user_id \<and> ss_id s \<noteq> current_id))))"

definition delete_session_by_token_hash :: "byte list \<Rightarrow> int stmt" where
  "delete_session_by_token_hash token_hash =
     statement (delete_sessions (\<lambda>s. ss_token_hash s = token_hash))"

definition delete_session_for_user :: "string \<Rightarrow> string \<Rightarrow> int stmt" where
  "delete_session_for_user i user_id =
     statement (with_uuid i (\<lambda>i. with_uuid user_id (\<lambda>user_id.
       delete_sessions (\<lambda>s. ss_id s = i \<and> ss_user_id s = user_id))))"

text \<open>The join of a session with its live user; a session has at most one.\<close>

definition get_session_by_token_hash :: "byte list \<Rightarrow> (session_row \<times> user_row) stmt" where
  "get_session_by_token_hash token_hash = statement (\<lambda>d.
     (find_row (\<lambda>(s, u). u_id u = ss_user_id s \<and> ss_token_hash s = token_hash)
        (List.product (sessions d) (users_live d)), d))"

definition list_sessions_by_user :: "string \<Rightarrow> session_row list stmt" where
  "list_sessions_by_user user_id = statement (with_uuid user_id (\<lambda>user_id d.
     (Inr (sort_key (\<lambda>s. (- ss_last_seen_at s, ss_id s))
        (filter (\<lambda>s. ss_user_id s = user_id \<and> ss_expires_at s > pg_now d) (sessions d))), d)))"

definition touch_session :: "time \<Rightarrow> string \<Rightarrow> int stmt" where
  "touch_session expires_at i = statement (with_uuid i (\<lambda>i d.
     (Inr (row_count (\<lambda>s. ss_id s = i) (sessions d)),
      d\<lparr>sessions := update_rows (\<lambda>s. ss_id s = i)
          (\<lambda>s. s\<lparr>ss_last_seen_at := pg_now d, ss_expires_at := expires_at\<rparr>) (sessions d)\<rparr>)))"

subsection \<open>\<open>invitations.sql\<close>\<close>

definition accept_invitation :: "string \<Rightarrow> int stmt" where
  "accept_invitation i = statement (with_uuid i (\<lambda>i d.
     let P = (\<lambda>r. in_id r = i \<and> in_accepted_at r = None \<and> in_expires_at r > pg_now d)
     in (Inr (row_count P (invitations d)),
         d\<lparr>invitations := update_rows P (\<lambda>r. r\<lparr>in_accepted_at := Some (pg_now d)\<rparr>) (invitations d)\<rparr>)))"

definition create_invitation ::
  "string \<Rightarrow> byte list \<Rightarrow> string \<Rightarrow> string \<Rightarrow> time \<Rightarrow> invitation_row stmt" where
  "create_invitation email token_hash invited_by role expires_at =
     statement (with_uuid invited_by (\<lambda>invited_by d.
     let r = \<lparr>in_id = next_uuid d, in_email = email, in_token_hash = token_hash,
              in_invited_by = invited_by, in_role = role, in_expires_at = expires_at,
              in_accepted_at = None, in_created_at = pg_now d\<rparr>;
         d' = d\<lparr>uuid_count := uuid_count d + 1\<rparr>
     in if role \<notin> {''maintainer'', ''contributor'', ''viewer''}
        then (Inl (CheckViolation ''invitations_role_known''), d')
        else if length token_hash \<noteq> 32 then (Inl (CheckViolation ''invitations_token_hash_len''), d')
        else if in_id r \<in> in_id ` set (invitations d)
        then (Inl (UniqueViolation ''invitations_pkey''), d')
        else if token_hash \<in> in_token_hash ` set (invitations d)
        then (Inl (UniqueViolation ''invitations_token_hash_key''), d')
        else if invited_by \<notin> u_id ` set (users d)
        then (Inl (ForeignKeyViolation ''invitations_invited_by_fkey''), d')
        else (Inr r, d'\<lparr>invitations := invitations d @ [r]\<rparr>)))"

definition expire_open_invitations_for_email :: "string \<Rightarrow> int stmt" where
  "expire_open_invitations_for_email email = statement (\<lambda>d.
     let P = (\<lambda>r. pg_lower d (in_email r) = pg_lower d email \<and> in_accepted_at r = None \<and>
                  in_expires_at r > pg_now d)
     in (Inr (row_count P (invitations d)),
         d\<lparr>invitations := update_rows P (\<lambda>r. r\<lparr>in_expires_at := pg_now d\<rparr>) (invitations d)\<rparr>))"

definition get_invitation_by_token_hash :: "byte list \<Rightarrow> invitation_row stmt" where
  "get_invitation_by_token_hash token_hash = statement (\<lambda>d.
     (find_row (\<lambda>r. in_token_hash r = token_hash) (invitations d), d))"

subsection \<open>\<open>password_resets.sql\<close>\<close>

definition create_password_reset :: "string \<Rightarrow> byte list \<Rightarrow> time \<Rightarrow> reset_row stmt" where
  "create_password_reset user_id token_hash expires_at = statement (with_uuid user_id (\<lambda>user_id d.
     let r = \<lparr>pr_id = next_uuid d, pr_user_id = user_id, pr_token_hash = token_hash,
              pr_expires_at = expires_at, pr_used_at = None, pr_created_at = pg_now d\<rparr>;
         d' = d\<lparr>uuid_count := uuid_count d + 1\<rparr>
     in if length token_hash \<noteq> 32 then (Inl (CheckViolation ''password_resets_token_hash_len''), d')
        else if pr_id r \<in> pr_id ` set (resets d)
        then (Inl (UniqueViolation ''password_resets_pkey''), d')
        else if token_hash \<in> pr_token_hash ` set (resets d)
        then (Inl (UniqueViolation ''password_resets_token_hash_key''), d')
        else if user_id \<notin> u_id ` set (users d)
        then (Inl (ForeignKeyViolation ''password_resets_user_id_fkey''), d')
        else (Inr r, d'\<lparr>resets := resets d @ [r]\<rparr>)))"

definition expire_open_password_resets_for_user :: "string \<Rightarrow> int stmt" where
  "expire_open_password_resets_for_user user_id = statement (with_uuid user_id (\<lambda>user_id d.
     let P = (\<lambda>r. pr_user_id r = user_id \<and> pr_used_at r = None \<and> pr_expires_at r > pg_now d)
     in (Inr (row_count P (resets d)),
         d\<lparr>resets := update_rows P (\<lambda>r. r\<lparr>pr_expires_at := pg_now d\<rparr>) (resets d)\<rparr>)))"

definition get_password_reset_by_token_hash :: "byte list \<Rightarrow> reset_row stmt" where
  "get_password_reset_by_token_hash token_hash = statement (\<lambda>d.
     (find_row (\<lambda>r. pr_token_hash r = token_hash) (resets d), d))"

definition use_password_reset :: "string \<Rightarrow> int stmt" where
  "use_password_reset i = statement (with_uuid i (\<lambda>i d.
     let P = (\<lambda>r. pr_id r = i \<and> pr_used_at r = None \<and> pr_expires_at r > pg_now d)
     in (Inr (row_count P (resets d)),
         d\<lparr>resets := update_rows P (\<lambda>r. r\<lparr>pr_used_at := Some (pg_now d)\<rparr>) (resets d)\<rparr>)))"

subsection \<open>Transactions (\<open>inTx\<close> in \<open>cmd/api/main.go\<close>)\<close>

datatype 'e tx_error = Begin db_error | Body 'e | Commit db_error

text \<open>
  Rolling back restores the tables.  The commit is a statement like the others: when its reply is
  lost the error is returned although the transaction is committed.
\<close>

definition rolled_back :: "pg \<Rightarrow> pg \<Rightarrow> pg" where
  "rolled_back d d' = d\<lparr>uuid_count := uuid_count d', deliveries := deliveries d'\<rparr>"

definition in_tx :: "(pg \<Rightarrow> ('e + 'a) \<times> pg) \<Rightarrow> pg \<Rightarrow> ('e tx_error + 'a) \<times> pg" where
  "in_tx body d =
     (case statement (\<lambda>d. (Inr (), d)) d of
        (Inl e, d0) \<Rightarrow> (Inl (Begin e), d0)
      | (Inr _, d0) \<Rightarrow>
        (case body d0 of
           (Inl e, d1) \<Rightarrow> (Inl (Body e), rolled_back d0 d1)
         | (Inr a, d1) \<Rightarrow>
           (case deliveries d1 of
              NotRun e # rest \<Rightarrow> (Inl (Commit (Unavailable e)), rolled_back d0 (d1\<lparr>deliveries := rest\<rparr>))
            | ReplyLost e # rest \<Rightarrow> (Inl (Commit (Unavailable e)), d1\<lparr>deliveries := rest\<rparr>)
            | Delivered # rest \<Rightarrow> (Inr a, d1\<lparr>deliveries := rest\<rparr>)
            | [] \<Rightarrow> (Inr a, d1))))"

end
