(* ===== verification/Repository_Facts.thy ===== *)
theory Repository_Facts
  imports Repository
begin

text \<open>
  Facts about statements: what a fault can do, the schema's invariant and that every statement and
  every transaction keeps it.
\<close>

subsection \<open>Statements and faults\<close>

lemma statement_plain [simp]: "deliveries d = [] \<Longrightarrow> statement f d = f d"
  by (simp add: statement_def send_def split: prod.split)

lemma statement_cases:
  obtains xs where "statement f d = f (d\<lparr>deliveries := xs\<rparr>)"
  | xs e where "statement f d = (Inl (Unavailable e), d\<lparr>deliveries := xs\<rparr>)"
  | xs e where "statement f d = (Inl (Unavailable e), snd (f (d\<lparr>deliveries := xs\<rparr>)))"
proof (cases "deliveries d")
  case Nil
  then have "d\<lparr>deliveries := []\<rparr> = d" by (cases d) simp
  moreover have "statement f d = f d" using Nil by simp
  ultimately have "statement f d = f (d\<lparr>deliveries := []\<rparr>)" by (simp only:)
  then show ?thesis by (rule that(1))
next
  case (Cons x xs)
  show ?thesis
  proof (cases x)
    case Delivered
    with Cons have "statement f d = f (d\<lparr>deliveries := xs\<rparr>)"
      by (simp add: statement_def send_def split: prod.split)
    then show ?thesis by (rule that(1))
  next
    case (NotRun e)
    with Cons have "statement f d = (Inl (Unavailable e), d\<lparr>deliveries := xs\<rparr>)"
      by (simp add: statement_def send_def)
    then show ?thesis by (rule that(2))
  next
    case (ReplyLost e)
    with Cons have "statement f d = (Inl (Unavailable e), snd (f (d\<lparr>deliveries := xs\<rparr>)))"
      by (simp add: statement_def send_def)
    then show ?thesis by (rule that(3))
  qed
qed

lemma statement_Inr:
  assumes "statement f d = (Inr a, d')"
  obtains xs where "f (d\<lparr>deliveries := xs\<rparr>) = (Inr a, d')"
  using assms by (cases rule: statement_cases [of f d]) auto

lemma statement_NoRows:
  assumes "statement f d = (Inl NoRows, d')"
  obtains xs where "f (d\<lparr>deliveries := xs\<rparr>) = (Inl NoRows, d')"
  using assms by (cases rule: statement_cases [of f d]) auto

text \<open>What holds of every outcome of the statement itself holds of the state it leaves.\<close>

lemma statement_keeps:
  assumes "\<And>d. I d \<Longrightarrow> I (snd (f d))" "\<And>d xs. I d \<Longrightarrow> I (d\<lparr>deliveries := xs\<rparr>)" "I d"
  shows "I (snd (statement f d))"
  using assms by (cases rule: statement_cases [of f d]) auto

lemma with_uuid_keeps:
  assumes "\<And>i d. I d \<Longrightarrow> I (snd (f i d))" "I d"
  shows "I (snd (with_uuid txt f d))"
  using assms by (simp add: with_uuid_def split: option.split)

subsection \<open>Rows\<close>

lemma map_update_rows [simp]: "(\<And>r. g (f r) = g r) \<Longrightarrow> map g (update_rows P f rows) = map g rows"
  by (simp add: update_rows_def)

lemma set_update_rows: "set (update_rows P f rows) = (\<lambda>r. if P r then f r else r) ` set rows"
  by (simp add: update_rows_def)

lemma update_rows_only:
  "(\<And>r. r \<in> set rows \<Longrightarrow> P r \<longleftrightarrow> r = row) \<Longrightarrow>
    update_rows P f rows = map (\<lambda>r. if r = row then f r else r) rows"
  by (auto simp: update_rows_def)

lemma find_in: "find P rows = Some r \<Longrightarrow> r \<in> set rows \<and> P r"
  by (induction rows) (auto split: if_splits)

lemma find_row_Inr: "find_row P rows = Inr r \<Longrightarrow> r \<in> set rows \<and> P r"
  by (auto simp: find_row_def dest: find_in split: option.splits)

lemma find_row_NoRows: "find_row P rows = Inl e \<longleftrightarrow> e = NoRows \<and> (\<forall>r \<in> set rows. \<not> P r)"
proof (cases "find P rows")
  case None
  then have "\<forall>r \<in> set rows. \<not> P r" by (auto simp: find_None_iff)
  then show ?thesis by (auto simp: find_row_def None)
next
  case (Some r)
  then show ?thesis using find_in [OF Some] by (auto simp: find_row_def)
qed

lemma find_row_unique:
  assumes "r \<in> set rows" "P r" "\<And>x. x \<in> set rows \<Longrightarrow> P x \<Longrightarrow> x = r"
  shows "find_row P rows = Inr r"
proof (cases "find_row P rows")
  case (Inl e)
  then have "\<not> P r" using assms(1) by (simp add: find_row_NoRows)
  with assms(2) show ?thesis by contradiction
next
  case (Inr x)
  have "x = r" using find_row_Inr [OF Inr] by (intro assms(3)) auto
  with Inr show ?thesis by simp
qed

lemma row_count_zero: "row_count P rows = 0 \<longleftrightarrow> (\<forall>r \<in> set rows. \<not> P r)"
  by (auto simp: row_count_def filter_empty_conv)

lemma inj_key: "distinct (map g rows) \<Longrightarrow> r \<in> set rows \<Longrightarrow> r' \<in> set rows \<Longrightarrow> g r = g r' \<Longrightarrow> r = r'"
  by (auto simp: distinct_map inj_on_def)

subsection \<open>The schema's invariant\<close>

definition keys_ok :: "pg \<Rightarrow> bool" where
  "keys_ok d \<longleftrightarrow>
     distinct (map u_id (users d)) \<and>
     distinct (map ss_id (sessions d)) \<and> distinct (map ss_token_hash (sessions d)) \<and>
     distinct (map in_id (invitations d)) \<and> distinct (map in_token_hash (invitations d)) \<and>
     distinct (map pr_id (resets d)) \<and> distinct (map pr_token_hash (resets d))"

definition emails_ok :: "pg \<Rightarrow> bool" where
  "emails_ok d \<longleftrightarrow> distinct (map (\<lambda>u. pg_lower d (u_email u)) (users_live d))"

definition owners_ok :: "pg \<Rightarrow> bool" where
  "owners_ok d \<longleftrightarrow> length (filter (\<lambda>u. u_role u = ''owner'') (users_live d)) \<le> 1"

definition refs_ok :: "pg \<Rightarrow> bool" where
  "refs_ok d \<longleftrightarrow>
     ss_user_id ` set (sessions d) \<subseteq> u_id ` set (users d) \<and>
     pr_user_id ` set (resets d) \<subseteq> u_id ` set (users d) \<and>
     in_invited_by ` set (invitations d) \<subseteq> u_id ` set (users d)"

definition values_ok :: "pg \<Rightarrow> bool" where
  "values_ok d \<longleftrightarrow>
     u_role ` set (users d) \<subseteq> set account_roles \<and>
     in_role ` set (invitations d) \<subseteq> {''maintainer'', ''contributor'', ''viewer''}"

definition schema_ok :: "pg \<Rightarrow> bool" where
  "schema_ok d \<longleftrightarrow> keys_ok d \<and> emails_ok d \<and> owners_ok d \<and> refs_ok d \<and> values_ok d"

lemmas schema_defs = schema_ok_def keys_ok_def emails_ok_def owners_ok_def refs_ok_def values_ok_def

lemma schema_ok_untouched [simp]:
  "schema_ok (d\<lparr>deliveries := xs\<rparr>) \<longleftrightarrow> schema_ok d" "schema_ok (d\<lparr>uuid_count := n\<rparr>) \<longleftrightarrow> schema_ok d"
  "schema_ok (d\<lparr>pg_now := t\<rparr>) \<longleftrightarrow> schema_ok d"
  by (simp_all add: schema_defs users_live_def)

text \<open>Updating columns that no constraint mentions.\<close>

lemma schema_ok_sessions:
  assumes "schema_ok d" "distinct (map ss_id ss)" "distinct (map ss_token_hash ss)"
    "ss_user_id ` set ss \<subseteq> u_id ` set (users d)"
  shows "schema_ok (d\<lparr>sessions := ss\<rparr>)"
  using assms by (simp add: schema_defs users_live_def)

lemma schema_ok_delete: "schema_ok d \<Longrightarrow> schema_ok (snd (delete_sessions P d))"
  unfolding delete_sessions_def snd_conv
  by (rule schema_ok_sessions) (auto simp: schema_defs distinct_map_filter)

lemma update_rows_image:
  "(\<And>r. g (f r) = g r) \<Longrightarrow> g ` set (update_rows P f rows) = g ` set rows"
  using map_update_rows [of g f P rows] by (metis set_map)

lemma schema_ok_touch:
  assumes "schema_ok d"
  shows "schema_ok (d\<lparr>sessions := update_rows P (\<lambda>s. s\<lparr>ss_last_seen_at := t, ss_expires_at := e\<rparr>) (sessions d)\<rparr>)"
  using assms by (intro schema_ok_sessions) (auto simp: schema_defs update_rows_image)

lemma schema_ok_invitations:
  assumes "schema_ok d" "\<And>r. in_id (f r) = in_id r" "\<And>r. in_token_hash (f r) = in_token_hash r"
    "\<And>r. in_invited_by (f r) = in_invited_by r" "\<And>r. in_role (f r) = in_role r"
  shows "schema_ok (d\<lparr>invitations := update_rows P f (invitations d)\<rparr>)"
  using assms by (simp add: schema_defs users_live_def update_rows_image)

lemma schema_ok_resets:
  assumes "schema_ok d" "\<And>r. pr_id (f r) = pr_id r" "\<And>r. pr_token_hash (f r) = pr_token_hash r"
    "\<And>r. pr_user_id (f r) = pr_user_id r"
  shows "schema_ok (d\<lparr>resets := update_rows P f (resets d)\<rparr>)"
  using assms by (simp add: schema_defs users_live_def update_rows_image)

lemma live_update_rows:
  "(\<And>u. u_deleted_at (f u) = u_deleted_at u) \<Longrightarrow>
    filter (\<lambda>u. u_deleted_at u = None) (update_rows P f us)
      = update_rows P f (filter (\<lambda>u. u_deleted_at u = None) us)"
  by (induction us) (auto simp: update_rows_def)

lemma filter_update_rows:
  "(\<And>u. Q (f u) = Q u) \<Longrightarrow> length (filter Q (update_rows P f us)) = length (filter Q us)"
  by (induction us) (auto simp: update_rows_def)

lemma schema_ok_users:
  assumes "schema_ok d" "\<And>r. u_id (f r) = u_id r" "\<And>r. u_email (f r) = u_email r"
    "\<And>r. u_role (f r) = u_role r" "\<And>r. u_deleted_at (f r) = u_deleted_at r"
  shows "schema_ok (d\<lparr>users := update_rows P f (users d)\<rparr>)"
  using assms
  by (simp add: schema_defs users_live_def update_rows_image live_update_rows filter_update_rows)

lemma filter_mask:
  assumes "\<And>u. P u \<Longrightarrow> Q u" "\<And>u. \<not> Q (f u)"
  shows "filter Q (update_rows P f us) = filter (\<lambda>u. Q u \<and> \<not> P u) us"
  using assms by (induction us) (auto simp: update_rows_def)

lemma schema_ok_mask:
  assumes "schema_ok d" "\<And>r. u_id (f r) = u_id r" "\<And>r. u_role (f r) = u_role r"
    "\<And>r. u_deleted_at (f r) \<noteq> None" "\<And>r. P r \<Longrightarrow> u_deleted_at r = None"
  shows "schema_ok (d\<lparr>users := update_rows P f (users d)\<rparr>)"
proof -
  have live: "filter (\<lambda>u. u_deleted_at u = None) (update_rows P f (users d))
      = filter (\<lambda>u. \<not> P u) (filter (\<lambda>u. u_deleted_at u = None) (users d))"
    using filter_mask [of P "\<lambda>u. u_deleted_at u = None" f "users d"] assms(4,5)
    by (simp add: conj_commute)
  have le: "length (filter Q (filter R xs)) \<le> length (filter Q xs)" for Q R and xs :: "user_row list"
    by (induction xs) auto
  from assms(1) have "distinct (map (\<lambda>u. pg_lower d (u_email u)) (filter (\<lambda>u. \<not> P u) (users_live d)))"
    by (simp add: schema_defs distinct_map_filter)
  moreover have "length (filter (\<lambda>u. u_role u = ''owner'') (filter (\<lambda>u. \<not> P u) (users_live d))) \<le> 1"
    using assms(1) le by (fastforce simp: schema_defs intro: order_trans)
  ultimately show ?thesis using assms
    by (simp add: schema_defs users_live_def update_rows_image live)
qed

subsection \<open>Every statement keeps it\<close>

lemma schema_statement:
  "(\<And>d. schema_ok d \<Longrightarrow> schema_ok (snd (f d))) \<Longrightarrow> schema_ok d \<Longrightarrow> schema_ok (snd (statement f d))"
  by (rule statement_keeps) simp_all

lemma schema_create_user: "schema_ok d \<Longrightarrow> schema_ok (snd (create_user email name h role d))"
  unfolding create_user_def
  by (rule schema_statement)
    (auto simp: Let_def schema_defs users_live_def filter_empty_conv)

lemma schema_create_session: "schema_ok d \<Longrightarrow> schema_ok (snd (create_session uid h agent e d))"
  unfolding create_session_def
  by (rule schema_statement, rule with_uuid_keeps [where I = schema_ok])
    (auto simp: Let_def schema_defs users_live_def)

lemma schema_create_invitation:
  "schema_ok d \<Longrightarrow> schema_ok (snd (create_invitation email h by_id role e d))"
  unfolding create_invitation_def
  by (rule schema_statement, rule with_uuid_keeps [where I = schema_ok])
    (auto simp: Let_def schema_defs users_live_def)

lemma schema_create_password_reset: "schema_ok d \<Longrightarrow> schema_ok (snd (create_password_reset uid h e d))"
  unfolding create_password_reset_def
  by (rule schema_statement, rule with_uuid_keeps [where I = schema_ok])
    (auto simp: Let_def schema_defs users_live_def)

lemma schema_writes:
  assumes "schema_ok d"
  shows "schema_ok (snd (set_user_password_hash h i d))"
    "schema_ok (snd (update_user_password_hash h i h' d))"
    "schema_ok (snd (delete_all_sessions_for_user i d))"
    "schema_ok (snd (delete_other_sessions_for_user i c d))"
    "schema_ok (snd (delete_session_by_token_hash th d))"
    "schema_ok (snd (delete_session_for_user i c d))"
    "schema_ok (snd (touch_session e i d))"
    "schema_ok (snd (accept_invitation i d))"
    "schema_ok (snd (expire_open_invitations_for_email email d))"
    "schema_ok (snd (expire_open_password_resets_for_user i d))"
    "schema_ok (snd (use_password_reset i d))"
  using assms
  by (auto simp: set_user_password_hash_def update_user_password_hash_def
      delete_all_sessions_for_user_def delete_other_sessions_for_user_def
      delete_session_by_token_hash_def delete_session_for_user_def touch_session_def
      accept_invitation_def expire_open_invitations_for_email_def
      expire_open_password_resets_for_user_def use_password_reset_def Let_def
      intro!: schema_statement with_uuid_keeps [where I = schema_ok] schema_ok_delete schema_ok_touch
        schema_ok_invitations schema_ok_resets schema_ok_users)

lemma schema_soft_delete: "schema_ok d \<Longrightarrow> schema_ok (snd (soft_delete_user i d))"
  unfolding soft_delete_user_def
  by (rule schema_statement, rule with_uuid_keeps [where I = schema_ok])
    (auto simp: Let_def intro!: schema_ok_mask)

text \<open>The listing shows the live accounts, each once, in the order of their names.\<close>

lemma list_users_lists:
  assumes "list_users collate d = (Inr rows, d')"
  shows "lu_id ` set rows = u_id ` set (users_live d)" and "length rows = length (users_live d)"
    and "sorted (map (\<lambda>r. collate (pg_lower d (lu_name r))) rows)"
proof -
  let ?name = "\<lambda>u. collate (pg_lower d (u_name u))"
  have live: "users_live (d\<lparr>deliveries := xs\<rparr>) = users_live d" for xs by (simp add: users_live_def)
  from assms have rows: "rows = map (\<lambda>u. \<lparr>lu_id = u_id u, lu_email = u_email u, lu_name = u_name u, lu_role = u_role u,
      lu_created_at = u_created_at u\<rparr>) (sort_key ?name (users_live d))"
    unfolding list_users_def by (rule statement_Inr) (auto simp: live)
  show "lu_id ` set rows = u_id ` set (users_live d)" and "length rows = length (users_live d)"
    by (simp_all add: rows image_image)
  show "sorted (map (\<lambda>r. collate (pg_lower d (lu_name r))) rows)"
    by (simp add: rows comp_def)
qed

end
