(* ===== verification/Sessions.thy ===== *)
theory Sessions
  imports Domain Repository_Facts
begin

text \<open>
  The session service: \<open>backend/internal/modules/identity/service/session.go\<close>.  The interface
  \<open>SessionStore\<close> is the record \<open>session_store\<close>, the repository one of its values; \<open>scan_uuid\<close> is
  \<open>pgtype.UUID.Scan\<close>, \<open>now\<close> the injected clock.  What is written to the log is left out.
\<close>

subsection \<open>The interface\<close>

record 's session_store =
  st_create :: "string \<Rightarrow> byte list \<Rightarrow> string \<Rightarrow> time \<Rightarrow> 's \<Rightarrow> (db_error + session_row) \<times> 's"
  st_get_by_token_hash :: "byte list \<Rightarrow> 's \<Rightarrow> (db_error + session_row \<times> user_row) \<times> 's"
  st_touch :: "time \<Rightarrow> string \<Rightarrow> 's \<Rightarrow> (db_error + int) \<times> 's"
  st_delete_by_token_hash :: "byte list \<Rightarrow> 's \<Rightarrow> (db_error + int) \<times> 's"
  st_list_by_user :: "string \<Rightarrow> 's \<Rightarrow> (db_error + session_row list) \<times> 's"
  st_delete_for_user :: "string \<Rightarrow> string \<Rightarrow> 's \<Rightarrow> (db_error + int) \<times> 's"
  st_delete_others :: "string \<Rightarrow> string \<Rightarrow> 's \<Rightarrow> (db_error + int) \<times> 's"

definition pg_session_store :: "pg session_store" where
  "pg_session_store =
     \<lparr>st_create = create_session,
      st_get_by_token_hash = get_session_by_token_hash,
      st_touch = touch_session,
      st_delete_by_token_hash = delete_session_by_token_hash,
      st_list_by_user = list_sessions_by_user,
      st_delete_for_user = delete_session_for_user,
      st_delete_others = delete_other_sessions_for_user\<rparr>"

datatype sessions_error =
  ErrUnauthenticated
  | ErrSessionNotFound
  | NewSessionToken token_error
  | CreateSession db_error
  | GetSession db_error
  | DeleteSession db_error
  | ListSessions db_error
  | DeleteOthers db_error
  | CurrentNotUuid string

subsection \<open>The operations\<close>

definition maxUserAgentLength :: nat where
  "maxUserAgentLength = 512"

definition clean_user_agent :: "string \<Rightarrow> string" where
  "clean_user_agent agent =
     to_valid_utf8 (if length agent > maxUserAgentLength then take maxUserAgentLength agent else agent)"

definition session_of :: "session_row \<Rightarrow> session" where
  "session_of row =
     \<lparr>s_id = ss_id row, s_user_id = ss_user_id row, s_created_at = ss_created_at row,
      s_last_seen_at = ss_last_seen_at row, s_expires_at = ss_expires_at row\<rparr>"

definition issue ::
  "'s session_store \<Rightarrow> (byte list \<Rightarrow> byte list) \<Rightarrow> byte list option \<Rightarrow> time \<Rightarrow> string \<Rightarrow> string \<Rightarrow> 's
    \<Rightarrow> (sessions_error + string \<times> session) \<times> 's" where
  "issue st sha random now user_id user_agent s =
     (case new_session_token sha random of
        Inl e \<Rightarrow> (Inl (NewSessionToken e), s)
      | Inr (token, digest) \<Rightarrow>
        (case st_create st user_id digest (clean_user_agent user_agent) (new_session_expiry now) s of
           (Inl e, s') \<Rightarrow> (Inl (CreateSession e), s')
         | (Inr row, s') \<Rightarrow> (Inr (token, session_of row), s')))"

record authenticated =
  au_session_id :: string
  au_user_id :: string
  au_email :: string
  au_name :: string
  au_timezone :: string
  au_role :: string

definition renew :: "'s session_store \<Rightarrow> session \<Rightarrow> time \<Rightarrow> 's \<Rightarrow> 's" where
  "renew st session now s =
     (if \<not> needs_renewal session now then s
      else snd (st_touch st (renewed_expiry session now) (s_id session) s))"

definition authenticate ::
  "'s session_store \<Rightarrow> (byte list \<Rightarrow> byte list) \<Rightarrow> time \<Rightarrow> string \<Rightarrow> 's
    \<Rightarrow> (sessions_error + authenticated) \<times> 's" where
  "authenticate st sha now token s =
     (case session_token_digest sha token of
        Inl _ \<Rightarrow> (Inl ErrUnauthenticated, s)
      | Inr digest \<Rightarrow>
        (case st_get_by_token_hash st digest s of
           (Inl e, s1) \<Rightarrow>
             if e = NoRows then (Inl ErrUnauthenticated, s1) else (Inl (GetSession e), s1)
         | (Inr (row, user), s1) \<Rightarrow>
             let session = session_of row
             in if session_is_expired session now then (Inl ErrUnauthenticated, s1)
                else (Inr \<lparr>au_session_id = s_id session, au_user_id = s_user_id session,
                           au_email = u_email user, au_name = u_name user,
                           au_timezone = u_timezone user, au_role = u_role user\<rparr>,
                      renew st session now s1)))"

definition revoke ::
  "'s session_store \<Rightarrow> (byte list \<Rightarrow> byte list) \<Rightarrow> string \<Rightarrow> 's \<Rightarrow> sessions_error option \<times> 's" where
  "revoke st sha token s =
     (case session_token_digest sha token of
        Inl _ \<Rightarrow> (None, s)
      | Inr digest \<Rightarrow>
        (case st_delete_by_token_hash st digest s of
           (Inl e, s') \<Rightarrow> (Some (DeleteSession e), s')
         | (Inr _, s') \<Rightarrow> (None, s')))"

record session_summary =
  sm_id :: string
  sm_user_agent :: string
  sm_created_at :: time
  sm_last_seen_at :: time
  sm_expires_at :: time
  sm_current :: bool

definition list_sessions ::
  "'s session_store \<Rightarrow> string \<Rightarrow> string \<Rightarrow> 's \<Rightarrow> (sessions_error + session_summary list) \<times> 's" where
  "list_sessions st user_id current_id s =
     (case st_list_by_user st user_id s of
        (Inl e, s') \<Rightarrow> (Inl (ListSessions e), s')
      | (Inr rows, s') \<Rightarrow>
        (Inr (map (\<lambda>row. \<lparr>sm_id = ss_id row, sm_user_agent = ss_user_agent row,
                          sm_created_at = ss_created_at row, sm_last_seen_at = ss_last_seen_at row,
                          sm_expires_at = ss_expires_at row, sm_current = (ss_id row = current_id)\<rparr>) rows),
         s'))"

definition revoke_by_id ::
  "'s session_store \<Rightarrow> (string \<Rightarrow> bool) \<Rightarrow> string \<Rightarrow> string \<Rightarrow> 's \<Rightarrow> sessions_error option \<times> 's" where
  "revoke_by_id st scan_uuid user_id session_id s =
     (if \<not> scan_uuid session_id then (Some ErrSessionNotFound, s)
      else case st_delete_for_user st session_id user_id s of
          (Inl e, s') \<Rightarrow> (Some (DeleteSession e), s')
        | (Inr deleted, s') \<Rightarrow> (if deleted = 0 then Some ErrSessionNotFound else None, s'))"

definition revoke_others ::
  "'s session_store \<Rightarrow> (string \<Rightarrow> bool) \<Rightarrow> string \<Rightarrow> string \<Rightarrow> 's \<Rightarrow> (sessions_error + int) \<times> 's" where
  "revoke_others st scan_uuid user_id current_id s =
     (if \<not> scan_uuid current_id then (Inl (CurrentNotUuid current_id), s)
      else case st_delete_others st user_id current_id s of
          (Inl e, s') \<Rightarrow> (Inl (DeleteOthers e), s')
        | (Inr deleted, s') \<Rightarrow> (Inr deleted, s'))"

text \<open>The state each operation leaves is the one its statement leaves.\<close>

lemma issue_state:
  "snd (issue st sha random now user_id agent s) =
    (case new_session_token sha random of
       Inl _ \<Rightarrow> s
     | Inr (_, digest) \<Rightarrow> snd (st_create st user_id digest (clean_user_agent agent) (new_session_expiry now) s))"
  by (simp add: issue_def split: sum.split prod.split)

lemma revoke_state:
  "snd (revoke st sha token s) =
    (case session_token_digest sha token of Inl _ \<Rightarrow> s | Inr digest \<Rightarrow> snd (st_delete_by_token_hash st digest s))"
  by (simp add: revoke_def split: sum.split prod.split)

lemma list_state: "snd (list_sessions st user_id current_id s) = snd (st_list_by_user st user_id s)"
  by (simp add: list_sessions_def split: sum.split prod.split)

lemma revoke_by_id_state:
  "snd (revoke_by_id st scan_uuid user_id sid s) =
    (if scan_uuid sid then snd (st_delete_for_user st sid user_id s) else s)"
  by (simp add: revoke_by_id_def split: sum.split prod.split)

lemma revoke_others_state:
  "snd (revoke_others st scan_uuid user_id sid s) =
    (if scan_uuid sid then snd (st_delete_others st user_id sid s) else s)"
  by (simp add: revoke_others_def split: sum.split prod.split)

lemmas service_states = issue_state revoke_state list_state revoke_by_id_state revoke_others_state

text \<open>One authenticated request after another with the same token, and what each was answered.\<close>

fun authenticate_at ::
  "'s session_store \<Rightarrow> (byte list \<Rightarrow> byte list) \<Rightarrow> string \<Rightarrow> time list \<Rightarrow> 's
    \<Rightarrow> (sessions_error + authenticated) list \<times> 's" where
  "authenticate_at st sha token [] s = ([], s)"
| "authenticate_at st sha token (t # ts) s =
     (let (r, s1) = authenticate st sha t token s; (rs, s2) = authenticate_at st sha token ts s1
      in (r # rs, s2))"

subsection \<open>What the service promises of any store\<close>

text \<open>
  The contract of a \<open>SessionStore\<close>, over the live sessions it holds: \<open>held s\<close> are the sessions
  joined with their accounts, \<open>sound s\<close> that the store answers and that its keys are unique.
\<close>

locale session_contract =
  fixes st :: "'s session_store"
    and held :: "'s \<Rightarrow> (session_row \<times> user_row) set"
    and sound :: "'s \<Rightarrow> bool"
  assumes get_held: "sound s \<Longrightarrow> (row, user) \<in> held s \<Longrightarrow>
      st_get_by_token_hash st (ss_token_hash row) s = (Inr (row, user), s)"
    and get_none: "sound s \<Longrightarrow> \<forall>(row, user) \<in> held s. ss_token_hash row \<noteq> h \<Longrightarrow>
      st_get_by_token_hash st h s = (Inl NoRows, s)"
    and get_sound: "st_get_by_token_hash st h s = (Inr (row, user), s') \<Longrightarrow>
      (row, user) \<in> held s \<and> ss_token_hash row = h \<and> held s' = held s"
    and touch: "sound s \<Longrightarrow> (row, user) \<in> held s \<Longrightarrow> st_touch st t (ss_id row) s = (n, s') \<Longrightarrow>
      sound s' \<and> (\<exists>seen. held s' = (\<lambda>(r, u).
        (if ss_id r = ss_id row then r\<lparr>ss_last_seen_at := seen, ss_expires_at := t\<rparr> else r, u)) ` held s)"
    and delete_by_token: "sound s \<Longrightarrow> st_delete_by_token_hash st h s = (n, s') \<Longrightarrow>
      sound s' \<and> held s' = {(r, u) \<in> held s. ss_token_hash r \<noteq> h}"
begin

text \<open>A caller is accepted exactly for a session that is held and has not expired.\<close>

lemma authenticate_held:
  assumes "sound s" "(row, user) \<in> held s" "session_token_digest sha token = Inr (ss_token_hash row)"
  shows "fst (authenticate st sha now token s) =
    (if now < ss_expires_at row
     then Inr \<lparr>au_session_id = ss_id row, au_user_id = ss_user_id row, au_email = u_email user,
               au_name = u_name user, au_timezone = u_timezone user, au_role = u_role user\<rparr>
     else Inl ErrUnauthenticated)"
  using assms(3) get_held [OF assms(1,2)]
  by (simp add: authenticate_def session_is_expired_def session_of_def)

lemma authenticate_sound:
  assumes "authenticate st sha now token s = (Inr who, s')"
  shows "\<exists>row user. (row, user) \<in> held s \<and> session_token_digest sha token = Inr (ss_token_hash row) \<and>
    now < ss_expires_at row \<and> au_session_id who = ss_id row \<and> au_user_id who = ss_user_id row \<and>
    au_role who = u_role user"
proof -
  from assms obtain digest row user s1 where
    d: "session_token_digest sha token = Inr digest" and
    g: "st_get_by_token_hash st digest s = (Inr (row, user), s1)" and
    w: "\<not> session_is_expired (session_of row) now" "au_session_id who = ss_id row"
      "au_user_id who = ss_user_id row" "au_role who = u_role user"
    by (auto simp: authenticate_def session_of_def Let_def split: sum.splits prod.splits if_splits)
  from get_sound [OF g] d w show ?thesis
    by (auto simp: session_is_expired_def session_of_def)
qed

lemma revoked_is_refused:
  assumes "sound s" "revoke st sha token s = (e, s')"
  shows "fst (authenticate st sha now token s') = Inl ErrUnauthenticated"
proof (cases "session_token_digest sha token")
  case (Inl x)
  then show ?thesis by (simp add: authenticate_def)
next
  case (Inr digest)
  obtain n s1 where del: "st_delete_by_token_hash st digest s = (n, s1)" by fastforce
  with assms(2) Inr have "s' = s1" by (auto simp: revoke_def split: sum.splits)
  with delete_by_token [OF assms(1) del] have "sound s'" "\<forall>(row, user) \<in> held s'. ss_token_hash row \<noteq> digest"
    by auto
  from get_none [OF this] Inr show ?thesis by (simp add: authenticate_def)
qed

text \<open>An accepted request slides the deadline of its own session as the domain says.\<close>

lemma authenticate_slides:
  assumes "sound s" "(row, user) \<in> held s" "session_token_digest sha token = Inr (ss_token_hash row)"
    "authenticate st sha now token s = (r, s')"
  shows "sound s' \<and> (\<exists>row'. (row', user) \<in> held s' \<and> ss_token_hash row' = ss_token_hash row \<and>
    ss_created_at row' = ss_created_at row \<and> ss_id row' = ss_id row \<and>
    ss_user_id row' = ss_user_id row \<and>
    ss_expires_at row' = s_expires_at (use_session (session_of row) now))"
proof (cases "session_is_expired (session_of row) now \<or> \<not> needs_renewal (session_of row) now")
  case True
  then have "s' = s" using assms get_held [OF assms(1,2)]
    by (auto simp: authenticate_def renew_def Let_def split: if_splits)
  then show ?thesis using True assms(1,2) by (auto simp: use_session_def session_of_def)
next
  case False
  let ?t = "renewed_expiry (session_of row) now"
  have "s' = snd (st_touch st ?t (ss_id row) s)"
    using False assms(3,4) get_held [OF assms(1,2)]
    by (auto simp: authenticate_def renew_def Let_def session_of_def)
  then obtain n where "st_touch st ?t (ss_id row) s = (n, s')" by (metis prod.collapse)
  from touch [OF assms(1,2) this] obtain seen where
    h: "sound s'" "held s' = (\<lambda>(r, u). (if ss_id r = ss_id row
      then r\<lparr>ss_last_seen_at := seen, ss_expires_at := ?t\<rparr> else r, u)) ` held s" by blast
  have "(row\<lparr>ss_last_seen_at := seen, ss_expires_at := ?t\<rparr>, user) \<in> held s'"
    unfolding h(2) using assms(2) by force
  with h(1) False show ?thesis
    by (intro conjI exI [of _ "row\<lparr>ss_last_seen_at := seen, ss_expires_at := ?t\<rparr>"])
      (auto simp: use_session_def session_of_def)
qed

text \<open>
  A session used often enough stays: each use within the idle window less the renewal floor of the
  one before, and all of them before the absolute deadline less that floor.
\<close>

lemma used_session_accepted:
  "sound s \<Longrightarrow> (row, user) \<in> held s \<Longrightarrow> session_token_digest sha token = Inr (ss_token_hash row) \<Longrightarrow>
    within_gap (SessionIdleWindow - sessionRenewalFloor) t0 ts \<Longrightarrow>
    list_all (\<lambda>t. t < ss_created_at row + SessionAbsoluteWindow - sessionRenewalFloor) ts \<Longrightarrow>
    min (ss_created_at row + SessionAbsoluteWindow) (t0 + SessionIdleWindow) - sessionRenewalFloor
      \<le> ss_expires_at row \<Longrightarrow>
    list_all (\<lambda>r. \<exists>who. r = Inr who \<and> au_user_id who = ss_user_id row)
      (fst (authenticate_at st sha token ts s))"
proof (induction ts arbitrary: s row t0)
  case (Cons u us)
  have now: "u < ss_expires_at row" using Cons.prems(4-6) by auto
  obtain r s1 where auth: "authenticate st sha u token s = (r, s1)" by fastforce
  obtain rs s2 where rest: "authenticate_at st sha token us s1 = (rs, s2)" by fastforce
  have r: "\<exists>who. r = Inr who \<and> au_user_id who = ss_user_id row"
    using authenticate_held [OF Cons.prems(1-3), of u] auth now by simp
  from authenticate_slides [OF Cons.prems(1-3) auth] obtain row' where
    row': "sound s1" "(row', user) \<in> held s1" "ss_token_hash row' = ss_token_hash row"
      "ss_created_at row' = ss_created_at row" "ss_user_id row' = ss_user_id row"
      "ss_expires_at row' = s_expires_at (use_session (session_of row) u)" by blast
  have "\<not> session_is_expired (session_of row) u"
    using now by (simp add: session_is_expired_def session_of_def)
  from use_session_alive [OF this]
  have "min (ss_created_at row' + SessionAbsoluteWindow) (u + SessionIdleWindow) - sessionRenewalFloor
    \<le> ss_expires_at row'" unfolding row'(4,6) by (simp add: session_of_def)
  from Cons.IH [OF row'(1,2) _ _ _ this] Cons.prems(3-5) row'(3-5) rest
  have "list_all (\<lambda>r. \<exists>who. r = Inr who \<and> au_user_id who = ss_user_id row) rs" by simp
  with r show ?case by (simp add: auth rest)
qed simp

end

subsection \<open>The repository keeps the contract\<close>

definition live_sessions :: "pg \<Rightarrow> (session_row \<times> user_row) set" where
  "live_sessions d =
     {(s, u). s \<in> set (sessions d) \<and> u \<in> set (users_live d) \<and> u_id u = ss_user_id s}"

text \<open>Identifiers are stored in the spelling the cast gives.\<close>

definition uuids_ok :: "pg \<Rightarrow> bool" where
  "uuids_ok d \<longleftrightarrow>
     (\<forall>n. to_uuid d (new_uuid d n) = Some (new_uuid d n)) \<and>
     (\<forall>x y. to_uuid d x = Some y \<longrightarrow> to_uuid d y = Some y) \<and>
     (\<forall>u \<in> set (users d). to_uuid d (u_id u) = Some (u_id u)) \<and>
     (\<forall>s \<in> set (sessions d). to_uuid d (ss_id s) = Some (ss_id s)) \<and>
     (\<forall>i \<in> set (invitations d). to_uuid d (in_id i) = Some (in_id i)) \<and>
     (\<forall>r \<in> set (resets d). to_uuid d (pr_id r) = Some (pr_id r) \<and> to_uuid d (pr_user_id r) = Some (pr_user_id r))"

definition pg_sound :: "pg \<Rightarrow> bool" where
  "pg_sound d \<longleftrightarrow> schema_ok d \<and> uuids_ok d \<and> deliveries d = []"

lemma live_sessions_iff:
  "(s, u) \<in> live_sessions d \<longleftrightarrow>
    (s, u) \<in> set (List.product (sessions d) (users_live d)) \<and> u_id u = ss_user_id s"
  by (auto simp: live_sessions_def)

lemma live_session_unique:
  assumes "schema_ok d" "(s, u) \<in> live_sessions d" "(s', u') \<in> live_sessions d"
    "ss_token_hash s = ss_token_hash s'"
  shows "s = s' \<and> u = u'"
proof -
  have ds: "distinct (map ss_token_hash (sessions d))" and du: "distinct (map u_id (users d))"
    using assms(1) by (auto simp: schema_defs)
  have s: "s = s'" using inj_key [OF ds] assms by (auto simp: live_sessions_def)
  have "set (users_live d) \<subseteq> set (users d)" by (auto simp: users_live_def)
  with inj_key [OF du] assms(2,3) s have "u = u'" unfolding live_sessions_def by fastforce
  with s show ?thesis by simp
qed

lemma pg_get_held:
  assumes "pg_sound d" "(s, u) \<in> live_sessions d"
  shows "get_session_by_token_hash (ss_token_hash s) d = (Inr (s, u), d)"
proof -
  have "find_row (\<lambda>(s', u). u_id u = ss_user_id s' \<and> ss_token_hash s' = ss_token_hash s)
      (List.product (sessions d) (users_live d)) = Inr (s, u)"
  proof (rule find_row_unique)
    fix x assume "x \<in> set (List.product (sessions d) (users_live d))"
      "case x of (s', u) \<Rightarrow> u_id u = ss_user_id s' \<and> ss_token_hash s' = ss_token_hash s"
    then have "(fst x, snd x) \<in> live_sessions d" "ss_token_hash (fst x) = ss_token_hash s"
      unfolding live_sessions_iff by auto
    with live_session_unique [OF _ assms(2), of "fst x" "snd x"] assms(1)
    show "x = (s, u)" by (auto simp: pg_sound_def prod_eq_iff)
  qed (use assms(2) in \<open>auto simp: live_sessions_iff\<close>)
  then show ?thesis using assms(1) by (simp add: get_session_by_token_hash_def pg_sound_def)
qed

lemma pg_get_none:
  assumes "pg_sound d" "\<forall>(s, u) \<in> live_sessions d. ss_token_hash s \<noteq> h"
  shows "get_session_by_token_hash h d = (Inl NoRows, d)"
proof -
  have "find_row (\<lambda>(s, u). u_id u = ss_user_id s \<and> ss_token_hash s = h)
      (List.product (sessions d) (users_live d)) = Inl NoRows"
    unfolding find_row_NoRows using assms(2) by (auto simp: live_sessions_def)
  then show ?thesis using assms(1) by (simp add: get_session_by_token_hash_def pg_sound_def)
qed

lemma live_sessions_deliveries [simp]: "live_sessions (d\<lparr>deliveries := xs\<rparr>) = live_sessions d"
  by (simp add: live_sessions_def users_live_def)

lemma pg_get_sound:
  assumes "get_session_by_token_hash h d = (Inr (s, u), d')"
  shows "(s, u) \<in> live_sessions d \<and> ss_token_hash s = h \<and> live_sessions d' = live_sessions d"
proof -
  from assms [unfolded get_session_by_token_hash_def] obtain xs where
    r: "find_row (\<lambda>(s, u). u_id u = ss_user_id s \<and> ss_token_hash s = h)
      (List.product (sessions d) (users_live (d\<lparr>deliveries := xs\<rparr>))) = Inr (s, u)"
    and d': "d' = d\<lparr>deliveries := xs\<rparr>"
    by (rule statement_Inr) auto
  from find_row_Inr [OF r] d' show ?thesis
    by (simp add: live_sessions_def users_live_def)
qed

lemma live_sessions_update:
  assumes "\<And>r. ss_user_id (f r) = ss_user_id r"
  shows "live_sessions (d\<lparr>sessions := update_rows P f (sessions d)\<rparr>)
    = (\<lambda>(r, u). (if P r then f r else r, u)) ` live_sessions d" (is "?L = ?R")
proof -
  define g where "g = (\<lambda>r. if P r then f r else r)"
  have g: "ss_user_id (g r) = ss_user_id r" for r by (simp add: g_def assms)
  have L: "?L = {(s, u). s \<in> g ` set (sessions d) \<and> u \<in> set (users_live d) \<and> u_id u = ss_user_id s}"
    by (simp add: live_sessions_def users_live_def set_update_rows g_def)
  have R: "?R = (\<lambda>(r, u). (g r, u)) ` live_sessions d" by (simp add: g_def)
  have "(s, u) \<in> ?L \<longleftrightarrow> (s, u) \<in> ?R" for s u
  proof
    assume "(s, u) \<in> ?L"
    then obtain r where "s = g r" "(r, u) \<in> live_sessions d"
      unfolding L by (auto simp: live_sessions_def g)
    then show "(s, u) \<in> ?R" unfolding R by (intro image_eqI [of _ _ "(r, u)"]) simp_all
  next
    assume "(s, u) \<in> ?R"
    then show "(s, u) \<in> ?L" unfolding R unfolding L by (auto simp: live_sessions_def g)
  qed
  then show ?thesis by (intro set_eqI) (simp only: split_paired_all)
qed

lemma pg_touch:
  assumes "pg_sound d" "(s, u) \<in> live_sessions d" "touch_session t (ss_id s) d = (n, d')"
  shows "pg_sound d' \<and> (\<exists>seen. live_sessions d' = (\<lambda>(r, u).
    (if ss_id r = ss_id s then r\<lparr>ss_last_seen_at := seen, ss_expires_at := t\<rparr> else r, u)) ` live_sessions d)"
proof -
  have "to_uuid d (ss_id s) = Some (ss_id s)"
    using assms(1,2) by (auto simp: pg_sound_def uuids_ok_def live_sessions_def)
  then have d': "d' = d\<lparr>sessions := update_rows (\<lambda>r. ss_id r = ss_id s)
      (\<lambda>r. r\<lparr>ss_last_seen_at := pg_now d, ss_expires_at := t\<rparr>) (sessions d)\<rparr>"
    using assms(1,3) by (auto simp: touch_session_def with_uuid_def pg_sound_def)
  have "pg_sound d'"
    using assms(1) unfolding d'
    by (auto simp: pg_sound_def uuids_ok_def set_update_rows intro: schema_ok_touch)
  then show ?thesis unfolding d' by (auto simp: live_sessions_update)
qed

lemma pg_delete_by_token:
  assumes "pg_sound d" "delete_session_by_token_hash h d = (n, d')"
  shows "pg_sound d' \<and> live_sessions d' = {(s, u) \<in> live_sessions d. ss_token_hash s \<noteq> h}"
proof -
  have d': "d' = snd (delete_sessions (\<lambda>s. ss_token_hash s = h) d)"
    using assms by (auto simp: delete_session_by_token_hash_def pg_sound_def)
  have "pg_sound d'"
    using assms(1) schema_ok_delete [of d "\<lambda>s. ss_token_hash s = h"]
    by (auto simp: d' pg_sound_def uuids_ok_def delete_sessions_def)
  then show ?thesis by (auto simp: d' delete_sessions_def live_sessions_def users_live_def)
qed

lemma pg_store_ops [simp]:
  "st_create pg_session_store = create_session"
  "st_get_by_token_hash pg_session_store = get_session_by_token_hash"
  "st_touch pg_session_store = touch_session"
  "st_delete_by_token_hash pg_session_store = delete_session_by_token_hash"
  "st_list_by_user pg_session_store = list_sessions_by_user"
  "st_delete_for_user pg_session_store = delete_session_for_user"
  "st_delete_others pg_session_store = delete_other_sessions_for_user"
  by (simp_all add: pg_session_store_def)

interpretation pg_sessions: session_contract pg_session_store live_sessions pg_sound
proof (unfold_locales, unfold pg_store_ops)
qed (fact pg_get_held pg_get_none pg_get_sound pg_touch pg_delete_by_token)+

end
