(* ===== verification/Sessions_Properties.thy ===== *)
theory Sessions_Properties
  imports Sessions
begin

text \<open>
  The session service on the repository: what it promises of whole runs.
\<close>

subsection \<open>Issuing\<close>

lemma pg_sound_deliveries [simp]: "pg_sound d \<Longrightarrow> deliveries d = []"
  by (simp add: pg_sound_def)

lemma create_session_ok:
  assumes "pg_sound d" "u \<in> set (users_live d)" "length h = 32"
    "h \<notin> ss_token_hash ` set (sessions d)" "next_uuid d \<notin> ss_id ` set (sessions d)"
  shows "create_session (u_id u) h agent e d =
    (Inr \<lparr>ss_id = next_uuid d, ss_user_id = u_id u, ss_token_hash = h, ss_user_agent = agent,
          ss_created_at = pg_now d, ss_last_seen_at = pg_now d, ss_expires_at = e\<rparr>,
     d\<lparr>uuid_count := uuid_count d + 1, sessions := sessions d @
        [\<lparr>ss_id = next_uuid d, ss_user_id = u_id u, ss_token_hash = h, ss_user_agent = agent,
          ss_created_at = pg_now d, ss_last_seen_at = pg_now d, ss_expires_at = e\<rparr>]\<rparr>)"
proof -
  have "u \<in> set (users d)" using assms(2) by (simp add: users_live_def)
  then have "to_uuid d (u_id u) = Some (u_id u)" "u_id u \<in> u_id ` set (users d)"
    using assms(1) by (auto simp: pg_sound_def uuids_ok_def)
  then show ?thesis using assms
    by (auto simp: create_session_def with_uuid_def Let_def next_uuid_def)
qed

lemma create_session_states:
  assumes "deliveries d = []" "create_session i h agent e d = (r, d')"
  obtains "d' = d" | "d' = d\<lparr>uuid_count := uuid_count d + 1\<rparr>"
  | s where "ss_id s = next_uuid d" "ss_expires_at s = e" "ss_created_at s = pg_now d"
    "d' = d\<lparr>uuid_count := uuid_count d + 1, sessions := sessions d @ [s]\<rparr>"
proof (cases "to_uuid d i")
  case None
  with assms have "d' = d" by (simp add: create_session_def with_uuid_def)
  then show ?thesis by (rule that(1))
next
  case (Some uid)
  define s where "s = \<lparr>ss_id = next_uuid d, ss_user_id = uid, ss_token_hash = h, ss_user_agent = agent,
    ss_created_at = pg_now d, ss_last_seen_at = pg_now d, ss_expires_at = e\<rparr>"
  have s: "ss_id s = next_uuid d" "ss_expires_at s = e" "ss_created_at s = pg_now d"
    by (simp_all add: s_def)
  have "d' = d\<lparr>uuid_count := uuid_count d + 1\<rparr> \<or>
      d' = d\<lparr>uuid_count := uuid_count d + 1, sessions := sessions d @ [s]\<rparr>"
    using assms Some unfolding create_session_def s_def
    by (simp add: with_uuid_def Let_def split: if_splits)
  then show ?thesis using that(2) that(3) [OF s] by blast
qed

lemma pg_sound_create:
  assumes "pg_sound d" "create_session i h agent e d = (r, d')"
  shows "pg_sound d'"
proof -
  have "schema_ok d'" using schema_create_session [of d i h agent e] assms by (simp add: pg_sound_def)
  moreover have "uuids_ok d' \<and> deliveries d' = []"
    using assms(1)
    by (cases rule: create_session_states [OF pg_sound_deliveries [OF assms(1)] assms(2)])
      (auto simp: pg_sound_def uuids_ok_def next_uuid_def)
  ultimately show ?thesis by (simp add: pg_sound_def)
qed

lemma issue_row:
  assumes "pg_sound d" "u \<in> set (users_live d)"
    and "length raw = opaque_token_bytes" "length (sha raw) = 32"
    and "sha raw \<notin> ss_token_hash ` set (sessions d)" "next_uuid d \<notin> ss_id ` set (sessions d)"
  obtains token row d' where
    "issue pg_session_store sha (Some raw) now (u_id u) agent d = (Inr (token, session_of row), d')"
    "pg_sound d'" "(row, u) \<in> live_sessions d'" "sessions d' = sessions d @ [row]"
    "session_token_digest sha token = Inr (ss_token_hash row)" "ss_token_hash row = sha raw"
    "ss_expires_at row = now + SessionIdleWindow" "ss_user_id row = u_id u"
proof -
  let ?token = "base64_encode url_alphabet raw"
  let ?row = "\<lparr>ss_id = next_uuid d, ss_user_id = u_id u, ss_token_hash = sha raw,
    ss_user_agent = clean_user_agent agent, ss_created_at = pg_now d, ss_last_seen_at = pg_now d,
    ss_expires_at = new_session_expiry now\<rparr>"
  let ?d = "d\<lparr>uuid_count := uuid_count d + 1, sessions := sessions d @ [?row]\<rparr>"
  note create = create_session_ok [OF assms(1,2,4,5,6), of "clean_user_agent agent" "new_session_expiry now"]
  have "issue pg_session_store sha (Some raw) now (u_id u) agent d = (Inr (?token, session_of ?row), ?d)"
    by (simp add: issue_def new_session_token_def new_opaque_token_def create)
  moreover have "pg_sound ?d" by (rule pg_sound_create [OF assms(1) create])
  moreover have "(?row, u) \<in> live_sessions ?d"
    using assms(2) by (simp add: live_sessions_def users_live_def)
  moreover have "session_token_digest sha ?token = Inr (ss_token_hash ?row)"
    using decode_new_opaque_token [of sha raw ?token "sha raw"] assms(3)
    by (simp add: session_token_digest_def new_opaque_token_def)
  ultimately show ?thesis
    by - (rule that [of ?token ?row ?d], assumption+, simp_all add: new_session_expiry_def)
qed

text \<open>
  A session works from the moment it is issued.  Issued for a live account, with a digest and an
  identifier not in use, its token authenticates as that account, with the account's present role, at
  every moment of the idle window and at none after it; only the digest of the token is stored.
\<close>
theorem issued_session_authenticates:
  assumes "pg_sound d" "u \<in> set (users_live d)"
    and "length raw = opaque_token_bytes" "length (sha raw) = 32"
    and "sha raw \<notin> ss_token_hash ` set (sessions d)" "next_uuid d \<notin> ss_id ` set (sessions d)"
  shows "\<exists>token session d'. issue pg_session_store sha (Some raw) now (u_id u) agent d = (Inr (token, session), d')
    \<and> pg_sound d'
    \<and> ss_token_hash ` set (sessions d') = insert (sha raw) (ss_token_hash ` set (sessions d))
    \<and> fst (authenticate pg_session_store sha at token d') =
        (if at < now + SessionIdleWindow
         then Inr \<lparr>au_session_id = s_id session, au_user_id = u_id u, au_email = u_email u,
                   au_name = u_name u, au_timezone = u_timezone u, au_role = u_role u\<rparr>
         else Inl ErrUnauthenticated)"
proof -
  from issue_row [of d u raw sha now agent, OF assms] obtain token row d' where
    "issue pg_session_store sha (Some raw) now (u_id u) agent d = (Inr (token, session_of row), d')"
    "pg_sound d'" "(row, u) \<in> live_sessions d'" "sessions d' = sessions d @ [row]"
    "session_token_digest sha token = Inr (ss_token_hash row)" "ss_token_hash row = sha raw"
    "ss_expires_at row = now + SessionIdleWindow" "ss_user_id row = u_id u" .
  with pg_sessions.authenticate_held [of d' row u sha token at] show ?thesis
    by (auto simp: session_of_def)
qed

text \<open>A repository with one account, for the witnesses.\<close>

definition sample_user :: user_row where
  "sample_user = \<lparr>u_id = ''u1'', u_email = ''ana@example.com'', u_name = ''Ana'', u_password_hash = ''x'',
     u_timezone = ''Asia/Jakarta'', u_role = ''viewer'', u_created_at = 0, u_updated_at = 0,
     u_deleted_at = None\<rparr>"

definition sample_pg :: pg where
  "sample_pg = \<lparr>users = [sample_user], sessions = [], invitations = [], resets = [], pg_now = 0,
     new_uuid = (\<lambda>n. ''id'' @ dec_string n), uuid_count = 0, pg_lower = id, to_uuid = Some, deliveries = []\<rparr>"

lemma sample_pg_sound: "pg_sound sample_pg"
  by (simp add: pg_sound_def sample_pg_def schema_defs uuids_ok_def users_live_def sample_user_def
      account_roles_def)

lemma sample_user_live: "sample_user \<in> set (users_live sample_pg)"
  by (simp add: users_live_def sample_pg_def sample_user_def)

lemma sample_issue:
  "\<exists>token session d'. issue pg_session_store id (Some (replicate 32 7)) 0 ''u1'' ''agent'' sample_pg
      = (Inr (token, session), d') \<and> (\<exists>who. fst (authenticate pg_session_store id hour token d') = Inr who)"
proof -
  have id: "u_id sample_user = ''u1''" by (simp add: sample_user_def)
  have new: "length (replicate 32 7 :: byte list) = opaque_token_bytes" "length (id (replicate 32 (7 :: byte))) = 32"
    "id (replicate 32 7) \<notin> ss_token_hash ` set (sessions sample_pg)"
    "next_uuid sample_pg \<notin> ss_id ` set (sessions sample_pg)"
    by (simp_all add: opaque_token_bytes_def) (simp_all add: sample_pg_def)
  from issue_row [of sample_pg sample_user "replicate 32 7" id 0 "''agent''",
      OF sample_pg_sound sample_user_live new, unfolded id] obtain token row d' where
    "issue pg_session_store id (Some (replicate 32 7)) 0 ''u1'' ''agent'' sample_pg
        = (Inr (token, session_of row), d')" "pg_sound d'" "(row, sample_user) \<in> live_sessions d'"
      "session_token_digest id token = Inr (ss_token_hash row)" "ss_expires_at row = 0 + SessionIdleWindow" .
  with pg_sessions.authenticate_held [of d' row sample_user id token hour] show ?thesis
    by (auto simp: session_windows duration_defs)
qed

lemma issued_session_authenticates_witness:
  "\<exists>token session d'. issue pg_session_store id (Some (replicate 32 7)) 0 ''u1'' ''agent'' sample_pg
      = (Inr (token, session), d') \<and> pg_sound d'
    \<and> ss_token_hash ` set (sessions d') = insert (id (replicate 32 7)) (ss_token_hash ` set (sessions sample_pg))
    \<and> fst (authenticate pg_session_store id hour token d') =
        (if hour < 0 + SessionIdleWindow
         then Inr \<lparr>au_session_id = s_id session, au_user_id = ''u1'', au_email = u_email sample_user,
                   au_name = u_name sample_user, au_timezone = u_timezone sample_user,
                   au_role = u_role sample_user\<rparr>
         else Inl ErrUnauthenticated)"
proof -
  have id: "u_id sample_user = ''u1''" by (simp add: sample_user_def)
  show ?thesis
    by (rule issued_session_authenticates [of sample_pg sample_user "replicate 32 7" id 0 "''agent''" hour, unfolded id])
      (simp_all add: sample_pg_sound sample_user_live opaque_token_bytes_def, simp_all add: sample_pg_def)
qed

subsection \<open>Ending sessions\<close>

text \<open>
  Logging out takes effect at once and for good.  Whatever token is presented, after \<open>Revoke\<close>
  reached the repository it authenticates at no time, and logging out twice, or with something that was
  never a token, is the same success.
\<close>
theorem revoked_session_refused:
  assumes "pg_sound d" "revoke pg_session_store sha token d = (e, d')"
  shows "e = None \<and> pg_sound d'
    \<and> fst (authenticate pg_session_store sha now token d') = Inl ErrUnauthenticated
    \<and> revoke pg_session_store sha token d' = (None, d')"
proof (cases "session_token_digest sha token")
  case (Inl x)
  with assms show ?thesis by (auto simp: revoke_def authenticate_def)
next
  case (Inr digest)
  obtain n d1 where del: "delete_session_by_token_hash digest d = (n, d1)" by fastforce
  have n: "n = Inr (row_count (\<lambda>s. ss_token_hash s = digest) (sessions d))"
    "d1 = d\<lparr>sessions := filter (\<lambda>s. ss_token_hash s \<noteq> digest) (sessions d)\<rparr>"
    using del assms(1) by (simp_all add: delete_session_by_token_hash_def delete_sessions_def)
  have e: "e = None" "d' = d1" using assms(2) Inr del n by (auto simp: revoke_def)
  have sound: "pg_sound d'" using pg_delete_by_token [OF assms(1) del] e by simp
  have "d'\<lparr>sessions := filter (\<lambda>s. ss_token_hash s \<noteq> digest) (sessions d')\<rparr> = d'"
    using n(2) e(2) by simp
  then have "revoke pg_session_store sha token d' = (None, d')"
    using sound Inr
    by (simp add: revoke_def delete_session_by_token_hash_def delete_sessions_def)
  with e sound pg_sessions.revoked_is_refused [OF assms] show ?thesis by simp
qed

definition sample_session :: session_row where
  "sample_session = \<lparr>ss_id = ''s1'', ss_user_id = ''u1'', ss_token_hash = replicate 32 7,
     ss_user_agent = ''agent'', ss_created_at = 0, ss_last_seen_at = 0,
     ss_expires_at = SessionIdleWindow\<rparr>"

definition sample_signed_in :: pg where
  "sample_signed_in = sample_pg\<lparr>sessions := [sample_session]\<rparr>"

lemma sample_signed_in_sound: "pg_sound sample_signed_in"
  using sample_pg_sound
  by (simp add: pg_sound_def sample_signed_in_def sample_session_def schema_defs uuids_ok_def users_live_def
      sample_pg_def sample_user_def)

lemma sample_token: "session_token_digest id (base64_encode url_alphabet (replicate 32 7)) = Inr (replicate 32 7)"
  using decode_new_opaque_token [of id "replicate 32 7"]
  by (simp add: session_token_digest_def new_opaque_token_def opaque_token_bytes_def)

lemma revoked_session_refused_witness:
  "fst (authenticate pg_session_store id 1 (base64_encode url_alphabet (replicate 32 7))
      (snd (revoke pg_session_store id (base64_encode url_alphabet (replicate 32 7)) sample_signed_in)))
    = Inl ErrUnauthenticated"
  using revoked_session_refused [OF sample_signed_in_sound prod.collapse [symmetric]] by blast

text \<open>
  Sessions belong to their owner.  \<open>RevokeByID\<close> answers "not found" both for an identifier that
  names no session and for one that is somebody else's, and then changes nothing; otherwise it ends
  exactly that session.  \<open>RevokeOthers\<close> ends exactly the caller's other sessions and answers how
  many they were.
\<close>
theorem revocation_stays_with_owner:
  assumes "pg_sound d" "to_uuid d caller = Some caller" "scan_uuid sid" "to_uuid d sid = Some sid"
  shows "revoke_by_id pg_session_store scan_uuid caller sid d =
      (if \<exists>s \<in> set (sessions d). ss_id s = sid \<and> ss_user_id s = caller
       then (None, d\<lparr>sessions := filter (\<lambda>s. ss_id s \<noteq> sid) (sessions d)\<rparr>)
       else (Some ErrSessionNotFound, d))
    \<and> revoke_others pg_session_store scan_uuid caller sid d =
      (Inr (row_count (\<lambda>s. ss_user_id s = caller \<and> ss_id s \<noteq> sid) (sessions d)),
       d\<lparr>sessions := filter (\<lambda>s. ss_user_id s = caller \<longrightarrow> ss_id s = sid) (sessions d)\<rparr>)"
proof -
  let ?P = "\<lambda>s. ss_id s = sid \<and> ss_user_id s = caller"
  have del: "delete_session_for_user sid caller d =
      (Inr (row_count ?P (sessions d)), d\<lparr>sessions := filter (\<lambda>s. \<not> ?P s) (sessions d)\<rparr>)"
    using assms by (simp add: delete_session_for_user_def with_uuid_def delete_sessions_def)
  have others: "delete_other_sessions_for_user caller sid d =
      (Inr (row_count (\<lambda>s. ss_user_id s = caller \<and> ss_id s \<noteq> sid) (sessions d)),
       d\<lparr>sessions := filter (\<lambda>s. ss_user_id s = caller \<longrightarrow> ss_id s = sid) (sessions d)\<rparr>)"
    using assms by (simp add: delete_other_sessions_for_user_def with_uuid_def delete_sessions_def)
  have "filter (\<lambda>s. \<not> ?P s) (sessions d) = filter (\<lambda>s. ss_id s \<noteq> sid) (sessions d)"
    if "\<exists>s \<in> set (sessions d). ?P s"
  proof (rule filter_cong [OF refl])
    have dist: "distinct (map ss_id (sessions d))" using assms(1) by (simp add: pg_sound_def schema_defs)
    fix s assume "s \<in> set (sessions d)"
    with that inj_key [OF dist] show "(\<not> ?P s) = (ss_id s \<noteq> sid)" by fastforce
  qed
  moreover have "d\<lparr>sessions := filter (\<lambda>s. \<not> ?P s) (sessions d)\<rparr> = d"
    if "\<not> (\<exists>s \<in> set (sessions d). ?P s)"
  proof -
    have "filter (\<lambda>s. \<not> ?P s) (sessions d) = sessions d" using that by (auto simp: filter_id_conv)
    then show ?thesis by simp
  qed
  ultimately show ?thesis
    using assms(3) by (auto simp: revoke_by_id_def revoke_others_def del others row_count_zero)
qed

lemma revocation_stays_with_owner_witness:
  "revoke_by_id pg_session_store (\<lambda>_. True) ''u1'' ''s1'' sample_signed_in = (None, sample_pg)
    \<and> revoke_by_id pg_session_store (\<lambda>_. True) ''u1'' ''s9'' sample_signed_in
      = (Some ErrSessionNotFound, sample_signed_in)"
  using revocation_stays_with_owner [OF sample_signed_in_sound, of "''u1''" "\<lambda>_. True" "''s1''"]
    revocation_stays_with_owner [OF sample_signed_in_sound, of "''u1''" "\<lambda>_. True" "''s9''"]
  by (simp add: sample_signed_in_def sample_pg_def sample_session_def)

lemma masked_not_live:
  assumes "pg_sound d" "to_uuid d i = Some i" "soft_delete_user i d = (n, d')"
    and "u \<in> set (users_live d')"
  shows "u_id u \<noteq> i"
proof
  assume id: "u_id u = i"
  let ?P = "\<lambda>u. u_id u = i \<and> u_deleted_at u = None"
  let ?mask = "\<lambda>u. u\<lparr>u_deleted_at := Some (pg_now d), u_email := ''deleted+'' @ u_id u @ ''@invalid'',
    u_name := ''Pengguna dihapus'', u_updated_at := pg_now d\<rparr>"
  have "users d' = update_rows ?P ?mask (users d)"
    using assms(1-3) by (auto simp: soft_delete_user_def with_uuid_def Let_def)
  with assms(4) have "u \<in> set (update_rows ?P ?mask (users d))" "u_deleted_at u = None"
    by (simp_all add: users_live_def)
  then obtain x where "u = (if ?P x then ?mask x else x)" "u_deleted_at u = None"
    unfolding set_update_rows by blast
  with id show False by (cases "u_deleted_at x") (auto split: if_splits)
qed

lemma masked_sound:
  assumes "pg_sound d" "to_uuid d i = Some i" "soft_delete_user i d = (n, d')"
  shows "pg_sound d'" "sessions d' = sessions d"
proof -
  let ?P = "\<lambda>u. u_id u = i \<and> u_deleted_at u = None"
  let ?mask = "\<lambda>u. u\<lparr>u_deleted_at := Some (pg_now d), u_email := ''deleted+'' @ u_id u @ ''@invalid'',
    u_name := ''Pengguna dihapus'', u_updated_at := pg_now d\<rparr>"
  have d': "d' = d\<lparr>users := update_rows ?P ?mask (users d)\<rparr>"
    using assms by (auto simp: soft_delete_user_def with_uuid_def Let_def)
  then show "sessions d' = sessions d" by simp
  have "schema_ok d'" using schema_soft_delete [of d i] assms(1,3) by (simp add: pg_sound_def)
  then show "pg_sound d'"
    using assms(1) by (auto simp: pg_sound_def uuids_ok_def d' set_update_rows)
qed

text \<open>
  A masked account stops authenticating at once.  After \<open>SoftDeleteUser\<close> the tokens of the
  account's sessions are refused at every moment, although no session has been touched.
\<close>
theorem masked_account_refused:
  assumes "pg_sound d" "to_uuid d i = Some i" "soft_delete_user i d = (n, d')"
    and "s \<in> set (sessions d)" "ss_user_id s = i"
    and "session_token_digest sha token = Inr (ss_token_hash s)"
  shows "fst (authenticate pg_session_store sha now token d') = Inl ErrUnauthenticated
    \<and> sessions d' = sessions d"
proof -
  note d' = masked_sound [OF assms(1-3)]
  have dist: "distinct (map ss_token_hash (sessions d))"
    using assms(1) by (simp add: pg_sound_def schema_defs)
  have "\<forall>(s', u) \<in> live_sessions d'. ss_token_hash s' \<noteq> ss_token_hash s"
  proof (clarify)
    fix s' u assume live: "(s', u) \<in> live_sessions d'" and eq: "ss_token_hash s' = ss_token_hash s"
    then have "s' = s" using inj_key [OF dist] assms(4) by (auto simp: live_sessions_def d'(2))
    then have "u \<in> set (users_live d')" "u_id u = i"
      using live assms(5) by (auto simp: live_sessions_def)
    with masked_not_live [OF assms(1-3)] show False by blast
  qed
  from pg_get_none [OF d'(1) this] show ?thesis
    using assms(6) d'(2) by (simp add: authenticate_def)
qed

lemma masked_account_refused_witness:
  "fst (authenticate pg_session_store id 1 (base64_encode url_alphabet (replicate 32 7))
      (snd (soft_delete_user ''u1'' sample_signed_in))) = Inl ErrUnauthenticated"
proof -
  have "to_uuid sample_signed_in ''u1'' = Some ''u1''"
    by (simp add: sample_signed_in_def sample_pg_def)
  from masked_account_refused [OF sample_signed_in_sound this prod.collapse [symmetric],
      of sample_session id "base64_encode url_alphabet (replicate 32 7)" 1]
  show ?thesis using sample_token by (simp add: sample_signed_in_def sample_session_def)
qed

subsection \<open>Deadlines over whole runs\<close>

text \<open>
  Everything that happens to the sessions: the operations of the service, with any inputs, at any
  moment of the application's clock and whatever becomes of their statements; the statements of the
  other services that touch accounts and sessions; and time.  A session is issued by an application
  whose clock is at most 76 days ahead of the database's.
\<close>

inductive session_step :: "(byte list \<Rightarrow> byte list) \<Rightarrow> pg \<Rightarrow> pg \<Rightarrow> bool" for sha where
  s_issue: "now + SessionIdleWindow \<le> pg_now d + SessionAbsoluteWindow \<Longrightarrow>
    session_step sha d (snd (issue pg_session_store sha random now user_id agent d))"
| s_authenticate: "session_step sha d (snd (authenticate pg_session_store sha now token d))"
| s_revoke: "session_step sha d (snd (revoke pg_session_store sha token d))"
| s_list: "session_step sha d (snd (list_sessions pg_session_store user_id current d))"
| s_revoke_by_id: "session_step sha d (snd (revoke_by_id pg_session_store scan user_id sid d))"
| s_revoke_others: "session_step sha d (snd (revoke_others pg_session_store scan user_id sid d))"
| s_soft_delete: "session_step sha d (snd (soft_delete_user user_id d))"
| s_set_password: "session_step sha d (snd (set_user_password_hash h user_id d))"
| s_delete_all: "session_step sha d (snd (delete_all_sessions_for_user user_id d))"
| s_time: "pg_now d \<le> t \<Longrightarrow> session_step sha d (d\<lparr>pg_now := t, deliveries := ds\<rparr>)"

definition deadlines_ok :: "pg \<Rightarrow> bool" where
  "deadlines_ok d \<longleftrightarrow> schema_ok d \<and> uuids_ok d \<and>
     (\<forall>s \<in> set (sessions d). ss_expires_at s \<le> ss_created_at s + SessionAbsoluteWindow)"

lemma deadlines_untouched [simp]:
  "deadlines_ok (d\<lparr>deliveries := xs\<rparr>) \<longleftrightarrow> deadlines_ok d"
  "deadlines_ok (d\<lparr>pg_now := t\<rparr>) \<longleftrightarrow> deadlines_ok d"
  by (simp_all add: deadlines_ok_def uuids_ok_def)

lemma deadlines_statement:
  "(\<And>d. deadlines_ok d \<Longrightarrow> deadlines_ok (snd (f d))) \<Longrightarrow> deadlines_ok d \<Longrightarrow> deadlines_ok (snd (statement f d))"
  by (rule statement_keeps) simp_all

lemma deadlines_delete: "deadlines_ok d \<Longrightarrow> deadlines_ok (snd (delete_sessions P d))"
  using schema_ok_delete [of d P] by (auto simp: deadlines_ok_def delete_sessions_def uuids_ok_def)

lemma deadlines_writes:
  assumes "deadlines_ok d"
  shows "deadlines_ok (snd (delete_all_sessions_for_user i d))"
    "deadlines_ok (snd (delete_other_sessions_for_user i c d))"
    "deadlines_ok (snd (delete_session_by_token_hash th d))"
    "deadlines_ok (snd (delete_session_for_user i c d))"
    "deadlines_ok (snd (list_sessions_by_user i d))"
    "deadlines_ok (snd (get_session_by_token_hash th d))"
  using assms
  by (auto simp: delete_all_sessions_for_user_def delete_other_sessions_for_user_def
      delete_session_by_token_hash_def delete_session_for_user_def list_sessions_by_user_def
      get_session_by_token_hash_def
      intro!: deadlines_statement with_uuid_keeps [where I = deadlines_ok] deadlines_delete)

lemma deadlines_ok_users:
  assumes "deadlines_ok d" "schema_ok (d\<lparr>users := update_rows P f (users d)\<rparr>)" "\<And>u. u_id (f u) = u_id u"
  shows "deadlines_ok (d\<lparr>users := update_rows P f (users d)\<rparr>)"
  using assms by (auto simp: deadlines_ok_def uuids_ok_def set_update_rows)

lemma deadlines_set_password:
  assumes "deadlines_ok d"
  shows "deadlines_ok (snd (set_user_password_hash h i d))"
  unfolding set_user_password_hash_def
proof (rule deadlines_statement [OF with_uuid_keeps [where I = deadlines_ok] assms])
  fix i d assume ok: "deadlines_ok d"
  then show "deadlines_ok (snd (let P = \<lambda>u. u_id u = i \<and> u_deleted_at u = None;
      users' = update_rows P (\<lambda>u. u\<lparr>u_password_hash := h, u_updated_at := pg_now d\<rparr>) (users d)
    in (find_row P users', d\<lparr>users := users'\<rparr>)))"
    unfolding Let_def snd_conv
    by (intro deadlines_ok_users [OF ok] schema_ok_users) (auto simp: deadlines_ok_def)
qed

lemma deadlines_soft_delete:
  assumes "deadlines_ok d"
  shows "deadlines_ok (snd (soft_delete_user i d))"
  unfolding soft_delete_user_def
proof (rule deadlines_statement [OF with_uuid_keeps [where I = deadlines_ok] assms])
  fix i d assume ok: "deadlines_ok d"
  then show "deadlines_ok (snd (let P = \<lambda>u. u_id u = i \<and> u_deleted_at u = None;
      mask = \<lambda>u. u\<lparr>u_deleted_at := Some (pg_now d), u_email := ''deleted+'' @ u_id u @ ''@invalid'',
               u_name := ''Pengguna dihapus'', u_updated_at := pg_now d\<rparr>
    in (Inr (row_count P (users d)), d\<lparr>users := update_rows P mask (users d)\<rparr>)))"
    unfolding Let_def snd_conv
    by (intro deadlines_ok_users [OF ok] schema_ok_mask) (auto simp: deadlines_ok_def)
qed

lemma deadlines_append:
  assumes "deadlines_ok d" "schema_ok (d\<lparr>uuid_count := n, sessions := sessions d @ [s]\<rparr>)"
    "ss_id s = next_uuid d" "ss_expires_at s \<le> ss_created_at s + SessionAbsoluteWindow"
  shows "deadlines_ok (d\<lparr>uuid_count := n, sessions := sessions d @ [s]\<rparr>)"
  using assms by (auto simp: deadlines_ok_def uuids_ok_def next_uuid_def)

lemma deadlines_create:
  assumes "deadlines_ok d" "e \<le> pg_now d + SessionAbsoluteWindow"
  shows "deadlines_ok (snd (create_session i h agent e d))"
proof -
  let ?I = "\<lambda>d. deadlines_ok d \<and> e \<le> pg_now d + SessionAbsoluteWindow"
  have "?I (snd (create_session i h agent e d))"
    unfolding create_session_def
  proof (rule statement_keeps [where I = ?I], rule with_uuid_keeps [where I = ?I], goal_cases)
    case (1 d' uid d)
    let ?s = "\<lparr>ss_id = next_uuid d, ss_user_id = uid, ss_token_hash = h, ss_user_agent = agent,
      ss_created_at = pg_now d, ss_last_seen_at = pg_now d, ss_expires_at = e\<rparr>"
    have new: "schema_ok (d\<lparr>uuid_count := uuid_count d + 1, sessions := sessions d @ [?s]\<rparr>)"
      if "next_uuid d \<notin> ss_id ` set (sessions d)" "h \<notin> ss_token_hash ` set (sessions d)"
        "uid \<in> u_id ` set (users d)"
      using 1(2) that by (auto simp: deadlines_ok_def schema_defs users_live_def)
    have "deadlines_ok (d\<lparr>uuid_count := uuid_count d + 1\<rparr>)"
      using 1(2) by (simp add: deadlines_ok_def uuids_ok_def)
    then show ?case using 1(2) deadlines_append [OF _ new] by (simp add: Let_def)
  qed (use assms in simp_all)
  then show ?thesis by simp
qed

lemma deadlines_touch:
  assumes "deadlines_ok d" "s \<in> set (sessions d)" "t \<le> ss_created_at s + SessionAbsoluteWindow"
  shows "deadlines_ok (snd (touch_session t (ss_id s) d))"
proof -
  let ?I = "\<lambda>d'. deadlines_ok d' \<and> to_uuid d' (ss_id s) = Some (ss_id s) \<and>
    (\<forall>r \<in> set (sessions d'). ss_id r = ss_id s \<longrightarrow> t \<le> ss_created_at r + SessionAbsoluteWindow)"
  have dist: "distinct (map ss_id (sessions d))"
    using assms(1) by (simp add: deadlines_ok_def schema_defs)
  have "r = s" if "r \<in> set (sessions d)" "ss_id r = ss_id s" for r
    using inj_key [OF dist that(1) assms(2) that(2)] .
  then have "?I d"
    using assms by (auto simp: deadlines_ok_def uuids_ok_def)
  then have "?I (snd (touch_session t (ss_id s) d))"
    unfolding touch_session_def
  proof (rule statement_keeps [where I = ?I, rotated 2])
    fix d assume "?I d"
    then show "?I (snd (with_uuid (ss_id s) (\<lambda>i d.
       (Inr (row_count (\<lambda>s. ss_id s = i) (sessions d)),
        d\<lparr>sessions := update_rows (\<lambda>s. ss_id s = i)
          (\<lambda>s. s\<lparr>ss_last_seen_at := pg_now d, ss_expires_at := t\<rparr>) (sessions d)\<rparr>)) d))"
      by (auto simp: with_uuid_def deadlines_ok_def uuids_ok_def set_update_rows intro: schema_ok_touch)
  qed simp
  then show ?thesis by simp
qed

lemma deadlines_authenticate:
  assumes "deadlines_ok d"
  shows "deadlines_ok (snd (authenticate pg_session_store sha now token d))"
proof (cases "session_token_digest sha token")
  case (Inl e)
  then show ?thesis using assms by (simp add: authenticate_def)
next
  case (Inr h)
  obtain r d1 where get: "get_session_by_token_hash h d = (r, d1)" by fastforce
  then have d1: "deadlines_ok d1" using deadlines_writes(6) [OF assms, of h] by simp
  show ?thesis
  proof (cases r)
    case (Inl e)
    with Inr get d1 show ?thesis by (simp add: authenticate_def)
  next
    case (Inr su)
    obtain s u where su: "su = (s, u)" by fastforce
    have "(s, u) \<in> live_sessions d1"
      using pg_get_sound [of h d s u d1] get Inr su by simp
    then have s: "s \<in> set (sessions d1)" by (simp add: live_sessions_def)
    have "renewed_expiry (session_of s) now \<le> ss_created_at s + SessionAbsoluteWindow"
      by (simp add: renewed_expiry_min session_of_def)
    from deadlines_touch [OF d1 s this]
    have "deadlines_ok (renew pg_session_store (session_of s) now d1)"
      using d1 by (simp add: renew_def) (simp add: session_of_def)
    with Inr su get d1 \<open>session_token_digest sha token = Inr h\<close> show ?thesis
      by (simp add: authenticate_def Let_def)
  qed
qed

lemma deadlines_step:
  assumes "session_step sha d d'" "deadlines_ok d"
  shows "deadlines_ok d'"
  using assms(1)
proof (cases rule: session_step.cases)
  case (s_issue now random user_id agent)
  then have "new_session_expiry now \<le> pg_now d + SessionAbsoluteWindow" by (simp add: new_session_expiry_def)
  from deadlines_create [OF assms(2) this] assms(2) show ?thesis
    unfolding s_issue(1) issue_state by (simp split: sum.split prod.split)
next
  case (s_revoke token)
  then show ?thesis using assms(2) by (simp add: service_states deadlines_writes split: sum.split)
qed (use assms(2) in \<open>simp_all add: service_states deadlines_authenticate deadlines_soft_delete
      deadlines_set_password deadlines_writes\<close>)

text \<open>
  C10: no session outlives its absolute window.  Whatever has happened since there were no sessions,
  a request that is accepted carries the token of a session created less than 90 days before, however
  often that session was used; and a session's deadline is never beyond those 90 days.
\<close>
theorem no_session_outlives_window:
  assumes "(session_step sha)\<^sup>*\<^sup>* d0 d" "schema_ok d0" "uuids_ok d0" "sessions d0 = []"
    and "authenticate pg_session_store sha now token d = (Inr who, d')"
  shows "\<exists>s \<in> set (sessions d). ss_id s = au_session_id who \<and> ss_user_id s = au_user_id who
    \<and> now < ss_expires_at s \<and> ss_expires_at s \<le> ss_created_at s + SessionAbsoluteWindow"
proof -
  from assms(1) have "deadlines_ok d"
  proof (induction rule: rtranclp_induct)
    case base
    then show ?case using assms(2-4) by (simp add: deadlines_ok_def)
  next
    case (step d d')
    from deadlines_step [OF step(2,3)] show ?case .
  qed
  moreover from pg_sessions.authenticate_sound [OF assms(5)] obtain s u where
    "(s, u) \<in> live_sessions d" "now < ss_expires_at s" "au_session_id who = ss_id s"
    "au_user_id who = ss_user_id s" by blast
  ultimately show ?thesis by (auto simp: deadlines_ok_def live_sessions_def)
qed

lemma no_session_outlives_window_witness:
  "\<exists>token d' who d''. (session_step id)\<^sup>*\<^sup>* sample_pg d'
    \<and> authenticate pg_session_store id hour token d' = (Inr who, d'')
    \<and> (\<exists>s \<in> set (sessions d'). ss_id s = au_session_id who \<and> ss_user_id s = au_user_id who
        \<and> hour < ss_expires_at s \<and> ss_expires_at s \<le> ss_created_at s + SessionAbsoluteWindow)"
proof -
  obtain token session d' where d': "issue pg_session_store id (Some (replicate 32 7)) 0 ''u1'' ''agent'' sample_pg
      = (Inr (token, session), d')"
    and ok: "\<exists>who. fst (authenticate pg_session_store id hour token d') = Inr who"
    using sample_issue by blast
  then obtain who d'' where auth: "authenticate pg_session_store id hour token d' = (Inr who, d'')"
    by (metis prod.collapse)
  have "session_step id sample_pg (snd (issue pg_session_store id (Some (replicate 32 7)) 0 ''u1'' ''agent'' sample_pg))"
    by (rule session_step.s_issue) (simp add: sample_pg_def session_windows duration_defs)
  then have run: "(session_step id)\<^sup>*\<^sup>* sample_pg d'" using d' by simp
  have start: "schema_ok sample_pg" "uuids_ok sample_pg" "sessions sample_pg = []"
    using sample_pg_sound by (simp_all add: pg_sound_def) (simp add: sample_pg_def)
  from no_session_outlives_window [OF run start auth] run auth show ?thesis by blast
qed

subsection \<open>Sessions in use\<close>

text \<open>
  Whoever keeps using the application stays signed in.  Starting from a fresh session, requests
  that follow each other within 14 days less an hour are all accepted as its account until an hour
  before the 90 days are over, although most of them write nothing.
\<close>
theorem session_in_use_stays:
  assumes "pg_sound d" "(s, u) \<in> live_sessions d"
    and "session_token_digest sha token = Inr (ss_token_hash s)"
    and "ss_expires_at s = ss_created_at s + SessionIdleWindow"
    and "within_gap (SessionIdleWindow - sessionRenewalFloor) (ss_created_at s) ts"
    and "list_all (\<lambda>t. t < ss_created_at s + SessionAbsoluteWindow - sessionRenewalFloor) ts"
  shows "list_all (\<lambda>r. \<exists>who. r = Inr who \<and> au_user_id who = ss_user_id s)
    (fst (authenticate_at pg_session_store sha token ts d))"
proof (rule pg_sessions.used_session_accepted [OF assms(1-3,5,6)])
  show "min (ss_created_at s + SessionAbsoluteWindow) (ss_created_at s + SessionIdleWindow)
      - sessionRenewalFloor \<le> ss_expires_at s"
    using session_windows_order unfolding assms(4) by linarith
qed

lemma session_in_use_stays_witness:
  "list_all (\<lambda>r. \<exists>who. r = Inr who \<and> au_user_id who = ''u1'')
    (fst (authenticate_at pg_session_store id (base64_encode url_alphabet (replicate 32 7))
      [hour, 13 * 24 * hour, 26 * 24 * hour, 39 * 24 * hour] sample_signed_in))"
proof -
  have live: "(sample_session, sample_user) \<in> live_sessions sample_signed_in"
    by (simp add: live_sessions_def users_live_def sample_signed_in_def sample_pg_def sample_session_def
        sample_user_def)
  have "session_token_digest id (base64_encode url_alphabet (replicate 32 7)) = Inr (ss_token_hash sample_session)"
    by (simp add: sample_token sample_session_def)
  from session_in_use_stays [OF sample_signed_in_sound live this,
      of "[hour, 13 * 24 * hour, 26 * 24 * hour, 39 * 24 * hour]"]
  show ?thesis by (simp add: sample_session_def session_windows duration_defs)
qed

text \<open>
  The last two weeks leave no trace.  Once a session has been used on or after its 76th day, no
  later request with it writes anything, so that its last-seen time stands still for up to 14 days while
  it is in daily use, not for the one day the comment on \<open>NeedsRenewal\<close> speaks of.
\<close>
theorem last_weeks_write_nothing:
  assumes "pg_sound d" "(s, u) \<in> live_sessions d"
    and "session_token_digest sha token = Inr (ss_token_hash s)"
    and "ss_created_at s + SessionAbsoluteWindow - SessionIdleWindow \<le> t"
    and "authenticate pg_session_store sha t token d = (Inr who, d')" "t \<le> t'"
  shows "snd (authenticate pg_session_store sha t' token d') = d'"
proof -
  from pg_sessions.authenticate_slides [OF assms(1-3,5)] obtain s' where
    s': "pg_sound d'" "(s', u) \<in> live_sessions d'" "ss_token_hash s' = ss_token_hash s"
      "ss_created_at s' = ss_created_at s"
      "ss_expires_at s' = s_expires_at (use_session (session_of s) t)" by blast
  have "t < ss_expires_at s"
    using pg_sessions.authenticate_held [OF assms(1-3), of t] assms(5) by (auto split: if_splits)
  then have "\<not> session_is_expired (session_of s) t" by (simp add: session_is_expired_def session_of_def)
  from use_session_alive [OF this] assms(4)
  have "ss_created_at s + SessionAbsoluteWindow - sessionRenewalFloor \<le> ss_expires_at s'"
    unfolding s'(5) by (simp add: session_of_def)
  moreover have "renewed_expiry (session_of s') t' \<le> ss_created_at s + SessionAbsoluteWindow"
    by (simp add: renewed_expiry_min session_of_def s'(4))
  ultimately have "\<not> needs_renewal (session_of s') t'"
    unfolding needs_renewal_iff by (simp add: session_of_def)
  then show ?thesis
    using pg_get_held [OF s'(1,2)] s'(3) assms(3) by (simp add: authenticate_def renew_def Let_def)
qed

text \<open>The session of the witness, 76 days later and renewed until the 89th day.\<close>

definition sample_old :: pg where
  "sample_old = sample_pg\<lparr>sessions := [sample_session\<lparr>ss_expires_at := 89 * 24 * hour\<rparr>]\<rparr>"

lemma sample_old_sound: "pg_sound sample_old"
  using sample_pg_sound
  by (simp add: pg_sound_def sample_old_def sample_session_def schema_defs uuids_ok_def users_live_def
      sample_pg_def sample_user_def)

lemma last_weeks_write_nothing_witness:
  "\<exists>who d'. authenticate pg_session_store id (80 * 24 * hour) (base64_encode url_alphabet (replicate 32 7)) sample_old
      = (Inr who, d')
    \<and> snd (authenticate pg_session_store id (88 * 24 * hour) (base64_encode url_alphabet (replicate 32 7)) d') = d'"
proof -
  let ?s = "sample_session\<lparr>ss_expires_at := 89 * 24 * hour\<rparr>"
  let ?token = "base64_encode url_alphabet (replicate 32 7)"
  have live: "(?s, sample_user) \<in> live_sessions sample_old"
    by (simp add: live_sessions_def users_live_def sample_old_def sample_pg_def sample_session_def
        sample_user_def)
  have digest: "session_token_digest id ?token = Inr (ss_token_hash ?s)"
    by (simp add: sample_token sample_session_def)
  obtain r d' where auth: "authenticate pg_session_store id (80 * 24 * hour) ?token sample_old = (r, d')" by fastforce
  moreover have "\<exists>who. r = Inr who"
    using pg_sessions.authenticate_held [OF sample_old_sound live digest, of "80 * 24 * hour"] auth
    by (auto simp: duration_defs)
  ultimately obtain who where "authenticate pg_session_store id (80 * 24 * hour) ?token sample_old = (Inr who, d')"
    by blast
  moreover from last_weeks_write_nothing [OF sample_old_sound live digest _ this, of "88 * 24 * hour"]
  have "snd (authenticate pg_session_store id (88 * 24 * hour) ?token d') = d'"
    by (simp add: sample_session_def session_windows duration_defs)
  ultimately show ?thesis by blast
qed

end
