(* ===== verification/Login_Guard.thy ===== *)
theory Login_Guard
  imports Failure_Counter Password
begin

text \<open>
  The login guard: \<open>backend/internal/modules/identity/service/loginguard.go\<close> and \<open>loginGuard\<close> in
  \<open>cmd/api/main.go\<close>.  The interface \<open>FailureCounter\<close> is the record \<open>failure_counter\<close>; \<open>sha\<close> is
  SHA-256 and \<open>to_lower\<close> is \<open>strings.ToLower\<close>.  What is written to the log is left out.
\<close>

subsection \<open>The interface and its three instances\<close>

record ('e, 's) failure_counter =
  fc_check :: "string \<Rightarrow> 's \<Rightarrow> (bool \<times> duration \<times> 'e option) \<times> 's"
  fc_record :: "string \<Rightarrow> 's \<Rightarrow> 'e option \<times> 's"
  fc_reset :: "string \<Rightarrow> 's \<Rightarrow> 'e option \<times> 's"

datatype guard_error = ErrTooManyAttempts

record bucket =
  b_limit :: int
  b_window :: duration

record login_limits =
  limits_account :: "bucket list"
  limits_address :: "bucket list"
  limits_network :: "bucket list"

definition DefaultLoginLimits :: login_limits where
  "DefaultLoginLimits =
     \<lparr>limits_account = [\<lparr>b_limit = 5, b_window = 15 * minute\<rparr>, \<lparr>b_limit = 20, b_window = hour\<rparr>],
      limits_address = [\<lparr>b_limit = 30, b_window = 10 * minute\<rparr>, \<lparr>b_limit = 200, b_window = 24 * hour\<rparr>],
      limits_network = [\<lparr>b_limit = 300, b_window = 10 * minute\<rparr>, \<lparr>b_limit = 2000, b_window = 24 * hour\<rparr>]\<rparr>"

definition retryAfterUnavailable :: duration where
  "retryAfterUnavailable = 30 * second"

record login_attempt =
  la_email :: string
  la_address :: string
  la_network :: string

record ('e, 's) login_guard =
  g_account :: "('e, 's) failure_counter"
  g_address :: "('e, 's) failure_counter"
  g_network :: "('e, 's) failure_counter"

subsection \<open>The operations\<close>

definition account_key :: "(byte list \<Rightarrow> byte list) \<Rightarrow> (string \<Rightarrow> string) \<Rightarrow> string \<Rightarrow> string" where
  "account_key sha to_lower email =
     ''account:'' @ hex_encode (take 16 (sha (to_bytes (to_lower (trim_space email)))))"

definition buckets_for ::
  "(byte list \<Rightarrow> byte list) \<Rightarrow> (string \<Rightarrow> string) \<Rightarrow> ('e, 's) login_guard \<Rightarrow> login_attempt
    \<Rightarrow> (string \<times> ('e, 's) failure_counter \<times> string) list" where
  "buckets_for sha to_lower g attempt =
     [(''account'', g_account g, account_key sha to_lower (la_email attempt)),
      (''address'', g_address g, ''ip:'' @ la_address attempt),
      (''network'', g_network g, ''net:'' @ la_network attempt)]"

fun check_buckets ::
  "(string \<times> ('e, 's) failure_counter \<times> string) list \<Rightarrow> duration \<Rightarrow> 's
    \<Rightarrow> (duration \<times> guard_error option) \<times> 's" where
  "check_buckets [] longest s = (if longest > 0 then (longest, Some ErrTooManyAttempts) else (0, None), s)"
| "check_buckets ((name, counter, key) # bs) longest s =
     (case fc_check counter key s of
        ((ok, wait, Some e), s') \<Rightarrow> ((retryAfterUnavailable, Some ErrTooManyAttempts), s')
      | ((ok, wait, None), s') \<Rightarrow> check_buckets bs (if ok then longest else max longest wait) s')"

definition guard_check ::
  "(byte list \<Rightarrow> byte list) \<Rightarrow> (string \<Rightarrow> string) \<Rightarrow> ('e, 's) login_guard \<Rightarrow> login_attempt \<Rightarrow> 's
    \<Rightarrow> (duration \<times> guard_error option) \<times> 's" where
  "guard_check sha to_lower g attempt s = check_buckets (buckets_for sha to_lower g attempt) 0 s"

definition guard_record ::
  "(byte list \<Rightarrow> byte list) \<Rightarrow> (string \<Rightarrow> string) \<Rightarrow> ('e, 's) login_guard \<Rightarrow> login_attempt \<Rightarrow> 's \<Rightarrow> 's" where
  "guard_record sha to_lower g attempt s =
     fold (\<lambda>(name, counter, key) s. snd (fc_record counter key s)) (buckets_for sha to_lower g attempt) s"

definition guard_succeeded ::
  "(byte list \<Rightarrow> byte list) \<Rightarrow> (string \<Rightarrow> string) \<Rightarrow> ('e, 's) login_guard \<Rightarrow> login_attempt \<Rightarrow> 's \<Rightarrow> 's" where
  "guard_succeeded sha to_lower g attempt s =
     snd (fc_reset (g_account g) (account_key sha to_lower (la_email attempt)) s)"

subsection \<open>The guard of the application\<close>

text \<open>
  A counter on Redis: the state is the server together with what becomes of the next commands sent to
  it; with the list exhausted they are delivered.
\<close>

definition next_delivery :: "'e delivery list \<Rightarrow> 'e delivery" where
  "next_delivery ds = (case ds of [] \<Rightarrow> Delivered | d # _ \<Rightarrow> d)"

type_synonym 'r redis_conn = "'r \<times> string delivery list"

definition redis_counter ::
  "'r redis \<Rightarrow> tier list \<Rightarrow> (string redis_error, 'r redis_conn) failure_counter" where
  "redis_counter rd tiers =
     (let used = (\<lambda>ds. if tiers = [] then ds else tl ds) in
      \<lparr>fc_check = (\<lambda>key (r, ds). let (a, r') = check rd tiers (next_delivery ds) key r in (a, (r', used ds))),
       fc_record = (\<lambda>key (r, ds). let (e, r') = record_hit rd tiers (next_delivery ds) key r in (e, (r', used ds))),
       fc_reset = (\<lambda>key (r, ds). let (e, r') = reset rd tiers (next_delivery ds) key r in (e, (r', used ds)))\<rparr>)"

definition tiers_of :: "bucket list \<Rightarrow> tier list" where
  "tiers_of buckets = map (\<lambda>b. \<lparr>tier_limit = b_limit b, tier_window = b_window b\<rparr>) buckets"

definition new_login_guard ::
  "'r redis \<Rightarrow> login_limits \<Rightarrow> (string redis_error, 'r redis_conn) login_guard" where
  "new_login_guard rd limits =
     \<lparr>g_account = redis_counter rd (tiers_of (limits_account limits)),
      g_address = redis_counter rd (tiers_of (limits_address limits)),
      g_network = redis_counter rd (tiers_of (limits_network limits))\<rparr>"

end
