(* ===== verification/Login_Guard_Properties.thy ===== *)
theory Login_Guard_Properties
  imports Login_Guard
begin

text \<open>
  The guard against its three counters: what it promises of any three that keep their contract, that
  the counters on Redis keep it, and what follows for runs of logins.
\<close>

subsection \<open>The three counters\<close>

datatype kind = Account | Address | Network

definition kinds :: "kind list" where
  "kinds = [Account, Address, Network]"

lemma kinds_all: "set kinds = UNIV"
  using kind.exhaust by (auto simp: kinds_def)

instantiation kind :: finite
begin
instance by standard (simp flip: kinds_all)
end

definition key_prefix :: "kind \<Rightarrow> string" where
  "key_prefix b = (case b of Account \<Rightarrow> ''account:'' | Address \<Rightarrow> ''ip:'' | Network \<Rightarrow> ''net:'')"

definition owns :: "kind \<Rightarrow> string \<Rightarrow> bool" where
  "owns b k \<longleftrightarrow> take (length (key_prefix b)) k = key_prefix b"

lemma owns_unique: "owns b k \<Longrightarrow> owns b' k \<Longrightarrow> b = b'"
  by (cases k; cases b; cases b') (auto simp: owns_def key_prefix_def)

definition counter_of_kind :: "('e, 's) login_guard \<Rightarrow> kind \<Rightarrow> ('e, 's) failure_counter" where
  "counter_of_kind g b = (case b of Account \<Rightarrow> g_account g | Address \<Rightarrow> g_address g | Network \<Rightarrow> g_network g)"

definition attempt_key :: "(byte list \<Rightarrow> byte list) \<Rightarrow> (string \<Rightarrow> string) \<Rightarrow> login_attempt \<Rightarrow> kind \<Rightarrow> string" where
  "attempt_key sha to_lower a b =
     (case b of Account \<Rightarrow> account_key sha to_lower (la_email a)
      | Address \<Rightarrow> ''ip:'' @ la_address a | Network \<Rightarrow> ''net:'' @ la_network a)"

lemma attempt_key_owned [simp]: "owns b (attempt_key sha to_lower a b)"
  by (cases b) (simp_all add: owns_def key_prefix_def attempt_key_def account_key_def)

lemma buckets_for_kinds:
  "map snd (buckets_for sha to_lower g a) = map (\<lambda>b. (counter_of_kind g b, attempt_key sha to_lower a b)) kinds"
  by (simp add: buckets_for_def kinds_def counter_of_kind_def attempt_key_def)

subsection \<open>The guard over any counters that keep their contract\<close>

text \<open>
  \<open>wait b k s\<close> is how long the counter of kind \<open>b\<close> still refuses the key \<open>k\<close>; the law on \<open>reset\<close>
  is what lets one counter be cleared without touching the others.
\<close>

locale guarded_counters =
  fixes g :: "('e, 's) login_guard"
    and answers :: "'s \<Rightarrow> bool"
    and wait :: "kind \<Rightarrow> string \<Rightarrow> 's \<Rightarrow> duration"
  assumes wait_nonneg: "0 \<le> wait b k s"
    and check_answers: "answers s \<Longrightarrow>
      fc_check (counter_of_kind g b) k s = ((wait b k s = 0, wait b k s, None), s)"
    and reset_clears: "answers s \<Longrightarrow> owns b k \<Longrightarrow> fc_reset (counter_of_kind g b) k s = (e, s') \<Longrightarrow>
      e = None \<and> answers s' \<and>
      (\<forall>b' k'. owns b' k' \<longrightarrow> wait b' k' s' = (if b' = b \<and> k' = k then 0 else wait b' k' s))"
begin

lemma check_loop:
  assumes "answers s" "map snd bs = map (\<lambda>b. (counter_of_kind g b, key b)) bk" "0 \<le> longest"
  shows "check_buckets bs longest s =
    ((let w = fold max (map (\<lambda>b. wait b (key b) s) bk) longest
      in (w, if w = 0 then None else Some ErrTooManyAttempts)), s)"
  using assms(2,3)
proof (induction bk arbitrary: bs longest)
  case (Cons b bk)
  then obtain name bs' where bs: "bs = (name, counter_of_kind g b, key b) # bs'"
    "map snd bs' = map (\<lambda>b. (counter_of_kind g b, key b)) bk" by (cases bs) auto
  have "(if wait b (key b) s = 0 then longest else max longest (wait b (key b) s))
    = max (wait b (key b) s) longest" using Cons.prems(2) by (simp add: max.commute)
  then show ?case
    using Cons.IH [OF bs(2), of "max (wait b (key b) s) longest"] Cons.prems(2) wait_nonneg
    by (simp add: bs(1) check_answers [OF assms(1)])
qed auto

text \<open>The answer is the longest of the three waits, and an attempt passes when there is none.\<close>

lemma guard_waits:
  assumes "answers s"
  shows "guard_check sha to_lower g a s =
    ((let w = Max ((\<lambda>b. wait b (attempt_key sha to_lower a b) s) ` UNIV)
      in (w, if w = 0 then None else Some ErrTooManyAttempts)), s)"
proof -
  let ?f = "\<lambda>b. wait b (attempt_key sha to_lower a b) s"
  have "fold max (map ?f kinds) 0 = Max (insert 0 (?f ` set kinds))"
    using Max.set_eq_fold [of 0 "map ?f kinds"] by simp
  also have "\<dots> = max 0 (Max (?f ` UNIV))"
    by (subst Max_insert) (simp_all add: kinds_all)
  also have "\<dots> = Max (?f ` UNIV)"
  proof (rule max.absorb2)
    have "?f Account \<le> Max (?f ` UNIV)" by (rule Max_ge) simp_all
    with wait_nonneg show "0 \<le> Max (?f ` UNIV)" by (meson order_trans)
  qed
  finally show ?thesis
    using check_loop [OF assms buckets_for_kinds, of 0 sha to_lower a] by (simp add: guard_check_def)
qed

lemma succeeded_forgives_account:
  assumes "answers s"
  shows "wait Account (attempt_key sha to_lower a Account) (guard_succeeded sha to_lower g a s) = 0"
    "b \<noteq> Account \<Longrightarrow> owns b k \<Longrightarrow> wait b k (guard_succeeded sha to_lower g a s) = wait b k s"
proof -
  let ?k = "attempt_key sha to_lower a Account"
  obtain e s' where r: "fc_reset (counter_of_kind g Account) ?k s = (e, s')" by fastforce
  then have s': "guard_succeeded sha to_lower g a s = s'"
    by (simp add: guard_succeeded_def counter_of_kind_def attempt_key_def)
  note law = reset_clears [OF assms attempt_key_owned r]
  show "wait Account ?k (guard_succeeded sha to_lower g a s) = 0"
    using law attempt_key_owned unfolding s' by metis
  show "b \<noteq> Account \<Longrightarrow> owns b k \<Longrightarrow> wait b k (guard_succeeded sha to_lower g a s) = wait b k s"
    using law unfolding s' by metis
qed

end

subsection \<open>The counters on Redis\<close>

definition tiers_at :: "login_limits \<Rightarrow> kind \<Rightarrow> tier list" where
  "tiers_at limits b =
     tiers_of (case b of Account \<Rightarrow> limits_account limits | Address \<Rightarrow> limits_address limits
       | Network \<Rightarrow> limits_network limits)"

lemma counter_of_new_guard:
  "counter_of_kind (new_login_guard rd limits) b = redis_counter rd (tiers_at limits b)"
  by (cases b) (simp_all add: counter_of_kind_def new_login_guard_def tiers_at_def)

definition good_limits :: "login_limits \<Rightarrow> bool" where
  "good_limits limits \<longleftrightarrow> (\<forall>b. good_tiers (tiers_at limits b) \<and> (\<forall>t \<in> set (tiers_at limits b). 0 < tier_limit t))"

lemma default_limits_good: "good_limits DefaultLoginLimits"
  unfolding good_limits_def
proof
  fix b
  show "good_tiers (tiers_at DefaultLoginLimits b) \<and>
      (\<forall>t \<in> set (tiers_at DefaultLoginLimits b). 0 < tier_limit t)"
    by (cases b) (simp_all add: tiers_at_def tiers_of_def DefaultLoginLimits_def good_tiers_def
        window_ms_def milliseconds_def duration_defs)
qed

text \<open>
  The failures recorded by the counter of each kind; a key belongs to one kind, so that counters
  that share a window do not meet.
\<close>

type_synonym guard_logs = "kind \<Rightarrow> hit_log"

definition guard_windows :: "login_limits \<Rightarrow> int list" where
  "guard_windows limits = concat (map (\<lambda>b. map window_ms (tiers_at limits b)) kinds)"

definition guard_times :: "login_limits \<Rightarrow> guard_logs \<Rightarrow> int \<Rightarrow> string \<Rightarrow> int list" where
  "guard_times limits L w k =
     concat (map (\<lambda>b. if owns b k \<and> w \<in> window_ms ` set (tiers_at limits b) then hit_times (L b) k else []) kinds)"

lemma windows_of_kind: "window_ms ` set (tiers_at limits b) \<subseteq> set (guard_windows limits)"
  using kinds_all by (fastforce simp: guard_windows_def)

lemma guard_times_owned:
  assumes "owns b k"
  shows "guard_times limits L w k =
    (if w \<in> window_ms ` set (tiers_at limits b) then hit_times (L b) k else [])"
proof -
  have "owns b' k \<longleftrightarrow> b' = b" for b' using owns_unique [OF assms] assms by blast
  then show ?thesis by (cases b) (simp_all add: guard_times_def kinds_def)
qed

lemma guard_times_other: "(\<And>b. \<not> owns b k) \<Longrightarrow> guard_times limits L w k = []"
  by (simp add: guard_times_def kinds_def)

lemma guard_times_add:
  assumes "owns b k"
  shows "add_time (map window_ms (tiers_at limits b)) k now (guard_times limits L)
    = guard_times limits (L(b := (now, k) # L b))"
proof (intro ext)
  fix w k'
  show "add_time (map window_ms (tiers_at limits b)) k now (guard_times limits L) w k'
    = guard_times limits (L(b := (now, k) # L b)) w k'"
  proof (cases "\<exists>b'. owns b' k'")
    case True
    then obtain b' where b': "owns b' k'" ..
    have "k' = k \<Longrightarrow> b' = b" using owns_unique assms b' by blast
    then show ?thesis by (auto simp: add_time_def guard_times_owned [OF b'] hit_times_def)
  next
    case False
    with assms show ?thesis by (auto simp: add_time_def guard_times_other)
  qed
qed

lemma guard_times_clear:
  assumes "owns b k"
  shows "(\<lambda>w k'. if w \<in> window_ms ` set (tiers_at limits b) \<and> k' = k then [] else guard_times limits L w k')
    = guard_times limits (L(b := filter (\<lambda>e. snd e \<noteq> k) (L b)))"
proof (intro ext)
  fix w k'
  have f: "hit_times (filter (\<lambda>e. snd e \<noteq> k) l) j = (if j = k then [] else hit_times l j)" for l j
    by (auto simp: hit_times_def filter_empty_conv intro!: arg_cong [where f = "map fst"] filter_cong)
  show "(if w \<in> window_ms ` set (tiers_at limits b) \<and> k' = k then [] else guard_times limits L w k')
    = guard_times limits (L(b := filter (\<lambda>e. snd e \<noteq> k) (L b))) w k'"
  proof (cases "\<exists>b'. owns b' k'")
    case True
    then obtain b' where b': "owns b' k'" ..
    have "k' = k \<Longrightarrow> b' = b" using owns_unique assms b' by blast
    then show ?thesis by (auto simp: guard_times_owned [OF b'] f)
  next
    case False
    with assms show ?thesis by (auto simp: guard_times_other)
  qed
qed

lemma tracks_clear:
  assumes "tracks ns ws tms db" "\<forall>t \<in> set tiers. 0 < window_ms t"
  shows "tracks ns ws (\<lambda>w k. if w \<in> window_ms ` set tiers \<and> k = key then [] else tms w k)
    (db_del (tier_keys ns tiers key) db)"
  using assms
  by (auto simp: tracks_def db_del_def db_now_def tier_keys_set hits_key_inj sequence_key_inj cell_inv_start)

lemma log_wait_cong:
  "(\<And>t. t \<in> set tiers \<Longrightarrow> tms (window_ms t) = tms' (window_ms t)) \<Longrightarrow>
    log_wait now tms tiers wait = log_wait now tms' tiers wait"
  by (induction tiers arbitrary: wait) (auto simp: Let_def)

definition guard_tracks :: "login_limits \<Rightarrow> guard_logs \<Rightarrow> db \<Rightarrow> bool" where
  "guard_tracks limits L db \<longleftrightarrow> tracks failureNamespace (guard_windows limits) (guard_times limits L) db"

text \<open>What the counter of kind \<open>b\<close> makes a key wait, read from the log.\<close>

definition log_wait_of :: "login_limits \<Rightarrow> guard_logs \<Rightarrow> int \<Rightarrow> kind \<Rightarrow> string \<Rightarrow> int" where
  "log_wait_of limits L now b k = log_wait now (\<lambda>w. hit_times (L b) k) (tiers_at limits b) 0"

locale redis_guard = redis_server +
  fixes limits :: login_limits
  assumes good: "good_limits limits"
begin

lemma tiers_facts:
  "tiers_at limits b \<noteq> []" "distinct (map window_ms (tiers_at limits b))"
  "\<forall>t \<in> set (tiers_at limits b). 0 < window_ms t" "\<forall>t \<in> set (tiers_at limits b). 0 < tier_limit t"
  using good by (simp_all add: good_limits_def good_tiers_def)

lemma count_tracked:
  assumes "guard_tracks limits L (view r)" "owns b k"
  shows "count_check rd (server_now rd r) (map (\<lambda>t. hits_key failureNamespace (window_ms t) k) (tiers_at limits b))
      (tier_args (tiers_at limits b)) 0 r = log_wait_of limits L (server_now rd r) b k"
proof -
  have "count_check rd (server_now rd r) (map (\<lambda>t. hits_key failureNamespace (window_ms t) k) (tiers_at limits b))
      (tier_args (tiers_at limits b)) 0 r
    = log_wait (server_now rd r) (\<lambda>w. guard_times limits L w k) (tiers_at limits b) 0"
    unfolding time
    by (rule count_check_tiers [OF assms(1) [unfolded guard_tracks_def] refl windows_of_kind])
  also have "\<dots> = log_wait_of limits L (server_now rd r) b k"
    unfolding log_wait_of_def by (rule log_wait_cong) (simp add: guard_times_owned [OF assms(2)])
  finally show ?thesis .
qed

lemma record_tracked:
  fixes d :: "'e delivery"
  assumes "guard_tracks limits L (view r)" "owns b k"
  defines "r' \<equiv> snd (record_hit rd (tiers_at limits b) d k r)"
  shows "guard_tracks limits (if ran d then L(b := (server_now rd r, k) # L b) else L) (view r')"
    "server_now rd r' = server_now rd r"
proof -
  note step = record_loop_tiers [OF assms(1) [unfolded guard_tracks_def] refl windows_of_kind [of limits b]
      tiers_facts(2,3), of k]
  show "guard_tracks limits (if ran d then L(b := (server_now rd r, k) # L b) else L) (view r')"
    using step assms(1)
    by (simp add: r'_def guard_tracks_def record_hit_state [OF tiers_facts(1)] time
        guard_times_add [OF assms(2)])
  show "server_now rd r' = server_now rd r"
    using step by (simp add: r'_def record_hit_state [OF tiers_facts(1)] time)
qed

lemma reset_tracked:
  fixes d :: "'e delivery"
  assumes "guard_tracks limits L (view r)" "owns b k"
  defines "r' \<equiv> snd (reset rd (tiers_at limits b) d k r)"
  shows "guard_tracks limits (if ran d then L(b := filter (\<lambda>e. snd e \<noteq> k) (L b)) else L) (view r')"
    "server_now rd r' = server_now rd r"
proof -
  note step = tracks_clear [OF assms(1) [unfolded guard_tracks_def] tiers_facts(3), of b k]
  show "guard_tracks limits (if ran d then L(b := filter (\<lambda>e. snd e \<noteq> k) (L b)) else L) (view r')"
    using step assms(1)
    by (simp add: r'_def guard_tracks_def reset_state [OF tiers_facts(1)] key_laws
        guard_times_clear [OF assms(2)])
  show "server_now rd r' = server_now rd r"
    by (simp add: r'_def reset_state [OF tiers_facts(1)] time key_laws)
qed

end

text \<open>The contract of the three counters, by what the server would answer.\<close>

definition guard_answers :: "('r \<Rightarrow> db) \<Rightarrow> login_limits \<Rightarrow> 'r redis_conn \<Rightarrow> bool" where
  "guard_answers view limits s \<longleftrightarrow> snd s = [] \<and> (\<exists>L. guard_tracks limits L (view (fst s)))"

definition guard_wait :: "'r redis \<Rightarrow> login_limits \<Rightarrow> kind \<Rightarrow> string \<Rightarrow> 'r redis_conn \<Rightarrow> duration" where
  "guard_wait rd limits b k s =
     max 0 (count_check rd (server_now rd (fst s))
       (map (\<lambda>t. hits_key failureNamespace (window_ms t) k) (tiers_at limits b))
       (tier_args (tiers_at limits b)) 0 (fst s)) * millisecond"

lemma check_wait:
  "tiers_at limits b \<noteq> [] \<Longrightarrow>
    check rd (tiers_at limits b) (Delivered :: string delivery) k r =
      ((guard_wait rd limits b k (r, ds) = 0, guard_wait rd limits b k (r, ds), None), r)"
  by (simp add: check_def send_def count_failures_def verdict_def guard_wait_def Let_def
      window_ms_def [symmetric] millisecond_def)

lemma redis_counter_ops:
  "tiers \<noteq> [] \<Longrightarrow> fc_check (redis_counter rd tiers) k (r, ds) =
    (fst (check rd tiers (next_delivery ds) k r), (snd (check rd tiers (next_delivery ds) k r), tl ds))"
  "tiers \<noteq> [] \<Longrightarrow> fc_record (redis_counter rd tiers) k (r, ds) =
    (fst (record_hit rd tiers (next_delivery ds) k r), (snd (record_hit rd tiers (next_delivery ds) k r), tl ds))"
  "tiers \<noteq> [] \<Longrightarrow> fc_reset (redis_counter rd tiers) k (r, ds) =
    (fst (reset rd tiers (next_delivery ds) k r), (snd (reset rd tiers (next_delivery ds) k r), tl ds))"
  by (simp_all add: redis_counter_def Let_def case_prod_beta)

lemma next_delivery_Nil [simp]: "next_delivery [] = Delivered"
  by (simp add: next_delivery_def)

context redis_guard
begin

lemma guard_wait_log:
  assumes "guard_tracks limits L (view r)" "owns b k"
  shows "guard_wait rd limits b k (r, ds) = log_wait_of limits L (server_now rd r) b k * millisecond"
  using log_wait_nonneg [of 0 "server_now rd r" "\<lambda>w. hit_times (L b) k" "tiers_at limits b"]
  by (simp add: guard_wait_def count_tracked [OF assms] log_wait_of_def)

lemma log_wait_of_cleared: "hit_times (L b) k = [] \<Longrightarrow> log_wait_of limits L now b k = 0"
  using log_wait_pos [OF tiers_facts(3), of now "\<lambda>w. hit_times (L b) k" b] tiers_facts(4) [of b]
    log_wait_nonneg [of 0 now "\<lambda>w. hit_times (L b) k" "tiers_at limits b"]
  by (force simp: log_wait_of_def tier_full_def recent_def)

lemma guard_reset_law:
  assumes "guard_answers view limits s" "owns b k"
    and "fc_reset (counter_of_kind (new_login_guard rd limits) b) k s = (e, s')"
  shows "e = None \<and> guard_answers view limits s' \<and>
    (\<forall>b' k'. owns b' k' \<longrightarrow>
      guard_wait rd limits b' k' s' = (if b' = b \<and> k' = k then 0 else guard_wait rd limits b' k' s))"
proof -
  obtain r L where s: "s = (r, [])" "guard_tracks limits L (view r)"
    using assms(1) by (cases s) (auto simp: guard_answers_def)
  let ?L = "L(b := filter (\<lambda>e. snd e \<noteq> k) (L b))"
  have s': "s' = (snd (reset rd (tiers_at limits b) (Delivered :: string delivery) k r), [])" "e = None"
    using assms(3) tiers_facts(1) [of b]
    by (auto simp: s counter_of_new_guard redis_counter_ops reset_def send_def)
  note t = reset_tracked [OF s(2) assms(2), of "Delivered :: string delivery"]
  have L': "guard_tracks limits ?L (view (fst s'))" using t(1) by (simp add: s' ran_def)
  have f: "hit_times (filter (\<lambda>e. snd e \<noteq> k) l) j = (if j = k then [] else hit_times l j)" for l j
    by (auto simp: hit_times_def filter_empty_conv intro!: arg_cong [where f = "map fst"] filter_cong)
  have "guard_wait rd limits b' k' s' = (if b' = b \<and> k' = k then 0 else guard_wait rd limits b' k' s)"
    if own: "owns b' k'" for b' k'
  proof -
    have "guard_wait rd limits b' k' s' = log_wait_of limits ?L (server_now rd r) b' k' * millisecond"
      using guard_wait_log [OF L' own, of "[]"] t(2) by (simp add: s')
    moreover have "log_wait_of limits ?L (server_now rd r) b' k'
      = (if b' = b \<and> k' = k then 0 else log_wait_of limits L (server_now rd r) b' k')"
      using log_wait_of_cleared [of ?L b k] by (auto simp: f log_wait_of_def)
    ultimately show ?thesis using guard_wait_log [OF s(2) own, of "[]"] by (simp add: s)
  qed
  with L' show ?thesis by (auto simp: guard_answers_def s')
qed

end

sublocale redis_guard \<subseteq> guarded_counters "new_login_guard rd limits" "guard_answers view limits" "guard_wait rd limits"
proof unfold_locales
  fix b k s
  show "0 \<le> guard_wait rd limits b k s" by (simp add: guard_wait_def millisecond_def)
next
  fix s b k assume "guard_answers view limits s"
  then obtain r where s: "s = (r, [])" by (cases s) (auto simp: guard_answers_def)
  show "fc_check (counter_of_kind (new_login_guard rd limits) b) k s =
      ((guard_wait rd limits b k s = 0, guard_wait rd limits b k s, None), s)"
    using check_wait [OF tiers_facts(1), where b = b and rd = rd and k = k and r = r and ds = "[]"]
    by (simp add: s counter_of_new_guard redis_counter_ops tiers_facts(1))
qed (fact guard_reset_law)

interpretation default_guard: redis_guard db_redis "\<lambda>d. d" DefaultLoginLimits
  by unfold_locales (rule db_redis_documented default_limits_good)+

subsection \<open>Runs of logins\<close>

definition delivery_of :: "'e delivery list \<Rightarrow> kind \<Rightarrow> 'e delivery" where
  "delivery_of ds b = next_delivery
     (case b of Account \<Rightarrow> ds | Address \<Rightarrow> tl ds | Network \<Rightarrow> tl (tl ds))"

lemma delivery_of_Nil [simp]: "delivery_of [] b = Delivered"
  by (cases b) (simp_all add: delivery_of_def)

lemma ran_Delivered [simp]: "ran Delivered"
  by (simp add: ran_def)

definition guard_keys :: "login_limits \<Rightarrow> string set" where
  "guard_keys limits = (\<Union>b. limiter_keys failureNamespace (tiers_at limits b))"

text \<open>
  Anything the application does to the counters, whatever becomes of the commands: failures recorded,
  accounts forgiven, and anything else that leaves the keys of the counters alone.  The log of a kind
  lists the failures that reached its counter and were not forgiven.
\<close>

inductive guard_run ::
  "(byte list \<Rightarrow> byte list) \<Rightarrow> (string \<Rightarrow> string) \<Rightarrow> 'r redis \<Rightarrow> ('r \<Rightarrow> db) \<Rightarrow> login_limits
    \<Rightarrow> guard_logs \<Rightarrow> 'r \<Rightarrow> bool"
  for sha to_lower rd view limits where
  gr_fresh: "\<forall>k \<in> guard_keys limits. entries (view r) k = None \<Longrightarrow>
    guard_run sha to_lower rd view limits (\<lambda>_. []) r"
| gr_failed: "guard_run sha to_lower rd view limits L r \<Longrightarrow>
    guard_run sha to_lower rd view limits
      (\<lambda>b. if ran (delivery_of ds b) then (server_now rd r, attempt_key sha to_lower a b) # L b else L b)
      (fst (guard_record sha to_lower (new_login_guard rd limits) a (r, ds)))"
| gr_succeeded: "guard_run sha to_lower rd view limits L r \<Longrightarrow>
    guard_run sha to_lower rd view limits
      (if ran (next_delivery ds)
       then L(Account := filter (\<lambda>e. snd e \<noteq> attempt_key sha to_lower a Account) (L Account)) else L)
      (fst (guard_succeeded sha to_lower (new_login_guard rd limits) a (r, ds)))"
| gr_other: "guard_run sha to_lower rd view limits L r \<Longrightarrow>
    env_step (guard_keys limits) (view r) (view r') \<Longrightarrow>
    guard_run sha to_lower rd view limits L r'"

lemma guard_windows_keys:
  "guard_keys limits =
    {k. \<exists>w \<in> set (guard_windows limits). \<exists>key. k = hits_key failureNamespace w key \<or>
      k = sequence_key failureNamespace w key}"
  by (auto simp: guard_keys_def guard_windows_def limiter_keys_def kinds_all)

context redis_guard
begin

lemma guard_record_state:
  "fst (guard_record sha to_lower (new_login_guard rd limits) a (r, ds)) =
    snd (record_hit rd (tiers_at limits Network) (delivery_of ds Network) (attempt_key sha to_lower a Network)
      (snd (record_hit rd (tiers_at limits Address) (delivery_of ds Address) (attempt_key sha to_lower a Address)
        (snd (record_hit rd (tiers_at limits Account) (delivery_of ds Account)
          (attempt_key sha to_lower a Account) r)))))"
proof -
  have "fc_record (counter_of_kind (new_login_guard rd limits) b) k (r, ds) =
      (fst (record_hit rd (tiers_at limits b) (next_delivery ds) k r),
       (snd (record_hit rd (tiers_at limits b) (next_delivery ds) k r), tl ds))" for b k r ds
    unfolding counter_of_new_guard by (rule redis_counter_ops(2) [OF tiers_facts(1)])
  from this [of Account] this [of Address] this [of Network] show ?thesis
    by (simp add: guard_record_def buckets_for_def counter_of_kind_def attempt_key_def delivery_of_def)
qed

lemma guard_run_tracks:
  assumes "guard_run sha to_lower rd view limits L r"
  shows "guard_tracks limits L (view r)"
  using assms
proof (induction rule: guard_run.induct)
  case (gr_fresh r)
  have "guard_times limits (\<lambda>_. []) w k = []" for w k
    by (simp add: guard_times_def kinds_def hit_times_def)
  moreover have "entries (view r) (hits_key failureNamespace w key) = None \<and>
      entries (view r) (sequence_key failureNamespace w key) = None"
    if "w \<in> set (guard_windows limits)" for w key
    using gr_fresh that unfolding guard_windows_keys by blast
  ultimately show ?case by (simp add: guard_tracks_def tracks_def cell_inv_start)
next
  case (gr_failed L r ds a)
  let ?k = "attempt_key sha to_lower a" and ?d = "delivery_of ds"
  let ?rec = "\<lambda>b r. snd (record_hit rd (tiers_at limits b) (?d b) (?k b) r)"
  let ?add = "\<lambda>b L. if ran (?d b) then L(b := (server_now rd r, ?k b) # L b) else L"
  have step: "guard_tracks limits (?add b L) (view (?rec b r')) \<and> server_now rd (?rec b r') = server_now rd r"
    if "guard_tracks limits L (view r')" "server_now rd r' = server_now rd r" for b L r'
    using record_tracked [OF that(1) attempt_key_owned [of b sha to_lower a], of "?d b", unfolded that(2)]
    by simp
  have "guard_tracks limits (?add Network (?add Address (?add Account L)))
      (view (?rec Network (?rec Address (?rec Account r))))"
    using step [of _ _ Network] step [of _ _ Address] step [OF gr_failed.IH refl, of Account] by blast
  moreover have "?add Network (?add Address (?add Account L))
      = (\<lambda>b. if ran (?d b) then (server_now rd r, ?k b) # L b else L b)" (is "?l = ?r")
  proof
    fix b show "?l b = ?r b" by (cases b) simp_all
  qed
  ultimately show ?case unfolding guard_record_state by simp
next
  case (gr_succeeded L r ds a)
  from reset_tracked(1) [OF gr_succeeded.IH attempt_key_owned [of Account sha to_lower a], of "next_delivery ds"]
  have "guard_tracks limits (if ran (next_delivery ds)
      then L(Account := filter (\<lambda>e. snd e \<noteq> attempt_key sha to_lower a Account) (L Account)) else L)
    (view (fst (snd (fc_reset (counter_of_kind (new_login_guard rd limits) Account)
      (attempt_key sha to_lower a Account) (r, ds)))))"
    unfolding counter_of_new_guard redis_counter_ops(3) [OF tiers_facts(1)] by simp
  then show ?case by (simp add: guard_succeeded_def counter_of_kind_def attempt_key_def)
next
  case (gr_other L r r')
  from tracks_env [OF gr_other.IH [unfolded guard_tracks_def] gr_other.hyps(2) [unfolded guard_windows_keys]]
  show ?case by (simp add: guard_tracks_def)
qed

lemma counter_check:
  "fc_check (counter_of_kind (new_login_guard rd limits) b) k (r, ds) =
    (case next_delivery ds of
       Delivered \<Rightarrow> (guard_wait rd limits b k (r, []) = 0, guard_wait rd limits b k (r, []), None)
     | NotRun e \<Rightarrow> (False, 0, Some (RedisDown k e))
     | ReplyLost e \<Rightarrow> (False, 0, Some (RedisDown k e)), (r, tl ds))"
proof -
  have "fst (check rd (tiers_at limits b) d k r) =
    (case d of Delivered \<Rightarrow> (guard_wait rd limits b k (r, []) = 0, guard_wait rd limits b k (r, []), None)
     | NotRun e \<Rightarrow> (False, 0, Some (RedisDown k e)) | ReplyLost e \<Rightarrow> (False, 0, Some (RedisDown k e)))"
    for d :: "string delivery"
    using check_wait [OF tiers_facts(1), where rd = rd and b = b and k = k and r = r and ds = "[]"]
    by (cases d) (simp_all, simp_all add: check_def tiers_facts(1) send_def verdict_def)
  then show ?thesis
    unfolding counter_of_new_guard redis_counter_ops(1) [OF tiers_facts(1)] by simp
qed

lemma check_faults:
  "guard_check sha to_lower (new_login_guard rd limits) a (r, ds) =
    (if \<exists>b. delivery_of ds b \<noteq> Delivered then (retryAfterUnavailable, Some ErrTooManyAttempts)
     else fst (guard_check sha to_lower (new_login_guard rd limits) a (r, [])),
     fst (snd (guard_check sha to_lower (new_login_guard rd limits) a (r, ds))),
     snd (snd (guard_check sha to_lower (new_login_guard rd limits) a (r, ds)))) \<and>
   fst (snd (guard_check sha to_lower (new_login_guard rd limits) a (r, ds))) = r"
proof -
  have all: "(\<exists>b. P b) \<longleftrightarrow> P Account \<or> P Address \<or> P Network" for P
    by (metis kind.exhaust)
  note c = counter_check [of Account] counter_check [of Address] counter_check [of Network]
  note c' = c [unfolded counter_of_kind_def kind.case]
  show ?thesis
    by (simp add: guard_check_def buckets_for_def c' all delivery_of_def split: delivery.split)
qed

lemma guard_check_log:
  assumes "guard_run sha to_lower rd view limits L r"
  shows "guard_check sha to_lower (new_login_guard rd limits) a (r, []) =
    ((let w = Max ((\<lambda>b. log_wait_of limits L (server_now rd r) b (attempt_key sha to_lower a b)) ` UNIV)
      in (w * millisecond, if w = 0 then None else Some ErrTooManyAttempts)), (r, []))"
proof -
  let ?f = "\<lambda>b. log_wait_of limits L (server_now rd r) b (attempt_key sha to_lower a b)"
  note t = guard_run_tracks [OF assms]
  have "guard_answers view limits (r, [])" using t by (auto simp: guard_answers_def)
  note w = guard_waits [OF this, of sha to_lower a]
  have "(\<lambda>b. guard_wait rd limits b (attempt_key sha to_lower a b) (r, [])) ` UNIV
      = (\<lambda>x. x * millisecond) ` ?f ` UNIV"
    by (simp add: image_image guard_wait_log [OF t attempt_key_owned])
  moreover have "Max ((\<lambda>x. x * millisecond) ` ?f ` UNIV) = Max (?f ` UNIV) * millisecond"
    by (rule mono_Max_commute [symmetric]) (auto intro: monoI mult_right_mono simp: millisecond_def)
  ultimately show ?thesis by (simp add: w Let_def millisecond_def)
qed

lemma no_wait_iff:
  "Max ((\<lambda>b. log_wait_of limits L now b (key b)) ` UNIV) = 0 \<longleftrightarrow>
    (\<forall>b. \<forall>t \<in> set (tiers_at limits b). \<not> tier_full now (hit_times (L b) (key b)) t)"
proof -
  let ?f = "\<lambda>b. log_wait_of limits L now b (key b)"
  have pos: "0 < ?f b \<longleftrightarrow> (\<exists>t \<in> set (tiers_at limits b). tier_full now (hit_times (L b) (key b)) t)" for b
    using log_wait_pos [OF tiers_facts(3), of now "\<lambda>w. hit_times (L b) (key b)" b]
    by (simp add: log_wait_of_def)
  have nonneg: "0 \<le> ?f b" for b unfolding log_wait_of_def by (rule log_wait_nonneg) simp
  have "Max (?f ` UNIV) = 0 \<longleftrightarrow> (\<forall>b. ?f b = 0)"
    using nonneg by (subst Max_eq_iff) (auto intro: antisym)
  also have "\<dots> \<longleftrightarrow> (\<forall>b. \<not> 0 < ?f b)" using nonneg by (metis less_irrefl order_le_less)
  also have "\<dots> \<longleftrightarrow> (\<forall>b. \<forall>t \<in> set (tiers_at limits b). \<not> tier_full now (hit_times (L b) (key b)) t)"
    unfolding pos by blast
  finally show ?thesis .
qed

end

subsection \<open>Properties\<close>

text \<open>
  C12: the guard answers from what happened.  After any run of logins, and whatever has become of
  recordings before it, \<open>Check\<close> lets an attempt through exactly when no bucket of its account, its
  address or its network holds its limit of failures; it answers a refusal with the longest of the
  three waits; and when any of the three counters did not reply it refuses, with 30 seconds.  It
  changes nothing on the server.
\<close>
theorem login_guard_refines_log:
  fixes a :: login_attempt
  assumes "redis_documented rd view" "good_limits limits" "guard_run sha to_lower rd view limits L r"
  defines "now \<equiv> server_now rd r" and "key \<equiv> attempt_key sha to_lower a"
  shows "fst (guard_check sha to_lower (new_login_guard rd limits) a (r, ds)) =
      (if \<exists>b. delivery_of ds b \<noteq> Delivered then (retryAfterUnavailable, Some ErrTooManyAttempts)
       else if \<exists>b. \<exists>t \<in> set (tiers_at limits b). tier_full now (hit_times (L b) (key b)) t
       then (Max ((\<lambda>b. log_wait_of limits L now b (key b)) ` UNIV) * millisecond, Some ErrTooManyAttempts)
       else (0, None))
    \<and> fst (snd (guard_check sha to_lower (new_login_guard rd limits) a (r, ds))) = r"
proof -
  have g: "redis_guard rd view limits"
    by (intro redis_guard.intro redis_guard_axioms.intro redis_server.intro assms(1,2))
  show ?thesis
    using redis_guard.check_faults [OF g, of sha to_lower a r ds]
      redis_guard.guard_check_log [OF g assms(3), of a]
      redis_guard.no_wait_iff [OF g, of L now key]
    by (auto simp: now_def key_def Let_def prod_eq_iff split: if_splits)
qed

text \<open>A run in which one login has failed, on a server that starts empty.\<close>

definition sample_attempt :: login_attempt where
  "sample_attempt = \<lparr>la_email = ''ana@example.com'', la_address = ''192.0.2.7'', la_network = ''192.0.2.0/24''\<rparr>"

definition sample_guard :: "(string redis_error, db redis_conn) login_guard" where
  "sample_guard = new_login_guard db_redis DefaultLoginLimits"

lemma sample_guard_empty: "guard_run id id db_redis (\<lambda>d. d) DefaultLoginLimits (\<lambda>_. []) sample_db"
  by (rule guard_run.gr_fresh) (simp add: sample_db_def)

lemma sample_guard_failed:
  "guard_run id id db_redis (\<lambda>d. d) DefaultLoginLimits
    (\<lambda>b. [(1000000, attempt_key id id sample_attempt b)])
    (fst (guard_record id id sample_guard sample_attempt (sample_db, [])))"
proof -
  have "server_now db_redis sample_db = 1000000" by (simp add: server_now_db db_now_def sample_db_def)
  with guard_run.gr_failed [OF sample_guard_empty, of "[]" sample_attempt] show ?thesis
    by (simp add: sample_guard_def)
qed

lemma default_not_full:
  assumes "length ts \<le> 4"
  shows "\<forall>b. \<forall>t \<in> set (tiers_at DefaultLoginLimits b). \<not> tier_full now ts t"
proof (intro allI ballI)
  fix b t assume t: "t \<in> set (tiers_at DefaultLoginLimits b)"
  have "length (recent now (window_ms t) ts) \<le> 4" using assms by (simp add: recent_def le_trans [OF length_filter_le])
  moreover have "5 \<le> tier_limit t"
    using t by (cases b) (auto simp: tiers_at_def tiers_of_def DefaultLoginLimits_def)
  ultimately show "\<not> tier_full now ts t" by (simp add: tier_full_def)
qed

lemma login_guard_refines_log_witness:
  "fst (guard_check id id sample_guard sample_attempt
      (fst (guard_record id id sample_guard sample_attempt (sample_db, [])), [])) = (0, None)
    \<and> fst (guard_check id id sample_guard sample_attempt (sample_db, [Delivered, NotRun ''refused'']))
      = (retryAfterUnavailable, Some ErrTooManyAttempts)"
proof -
  have "delivery_of [Delivered, NotRun ''refused''] Address \<noteq> Delivered"
    by (simp add: delivery_of_def next_delivery_def)
  then show ?thesis
    using login_guard_refines_log [OF db_redis_documented default_limits_good sample_guard_failed,
        of sample_attempt "[]"]
      login_guard_refines_log [OF db_redis_documented default_limits_good sample_guard_empty,
        of sample_attempt "[Delivered, NotRun ''refused'']"]
      default_not_full
    by (auto simp: sample_guard_def hit_times_def)
qed

text \<open>
  Logins one after the other: an attempt is checked, then its password is verified, which takes time,
  and then the failure is recorded or the account is forgiven; every command is delivered.
\<close>

inductive guarded_run ::
  "(byte list \<Rightarrow> byte list) \<Rightarrow> (string \<Rightarrow> string) \<Rightarrow> 'r redis \<Rightarrow> ('r \<Rightarrow> db) \<Rightarrow> login_limits
    \<Rightarrow> guard_logs \<Rightarrow> 'r \<Rightarrow> bool"
  for sha to_lower rd view limits where
  gd_fresh: "\<forall>k \<in> guard_keys limits. entries (view r) k = None \<Longrightarrow>
    guarded_run sha to_lower rd view limits (\<lambda>_. []) r"
| gd_wrong: "guarded_run sha to_lower rd view limits L r \<Longrightarrow>
    snd (fst (guard_check sha to_lower (new_login_guard rd limits) a (r, []))) = None \<Longrightarrow>
    env_step (guard_keys limits) (view r) (view r1) \<Longrightarrow>
    guarded_run sha to_lower rd view limits
      (\<lambda>b. (server_now rd r1, attempt_key sha to_lower a b) # L b)
      (fst (guard_record sha to_lower (new_login_guard rd limits) a (r1, [])))"
| gd_right: "guarded_run sha to_lower rd view limits L r \<Longrightarrow>
    snd (fst (guard_check sha to_lower (new_login_guard rd limits) a (r, []))) = None \<Longrightarrow>
    env_step (guard_keys limits) (view r) (view r1) \<Longrightarrow>
    guarded_run sha to_lower rd view limits
      (L(Account := filter (\<lambda>e. snd e \<noteq> attempt_key sha to_lower a Account) (L Account)))
      (fst (guard_succeeded sha to_lower (new_login_guard rd limits) a (r1, [])))"
| gd_other: "guarded_run sha to_lower rd view limits L r \<Longrightarrow>
    env_step (guard_keys limits) (view r) (view r') \<Longrightarrow>
    guarded_run sha to_lower rd view limits L r'"

lemma guarded_is_run:
  "guarded_run sha to_lower rd view limits L r \<Longrightarrow> guard_run sha to_lower rd view limits L r"
proof (induction rule: guarded_run.induct)
  case (gd_wrong L r a r1)
  from guard_run.gr_failed [OF guard_run.gr_other [OF gd_wrong.IH gd_wrong.hyps(3)], of "[]" a]
  show ?case by simp
next
  case (gd_right L r a r1)
  from guard_run.gr_succeeded [OF guard_run.gr_other [OF gd_right.IH gd_right.hyps(3)], of "[]" a]
  show ?case by (simp add: fun_upd_def)
qed (blast intro: guard_run.intros)+

lemma guarded_owned: "guarded_run sha to_lower rd view limits L r \<Longrightarrow> e \<in> set (L b) \<Longrightarrow> owns b (snd e)"
  by (induction arbitrary: e b rule: guarded_run.induct) (auto split: if_splits)

context redis_guard
begin

lemma guarded_times:
  assumes "guarded_run sha to_lower rd view limits L r" "e \<in> set (L b)"
  shows "fst e \<le> server_now rd r"
proof -
  obtain t where t: "t \<in> set (tiers_at limits b)" using tiers_facts(1) [of b] by (cases "tiers_at limits b") auto
  have own: "owns b (snd e)" by (rule guarded_owned [OF assms])
  have "fst e \<in> set (guard_times limits L (window_ms t) (snd e))"
    using assms(2) t by (auto simp: guard_times_owned [OF own] hit_times_def)
  moreover have "window_ms t \<in> set (guard_windows limits)" using windows_of_kind t by blast
  ultimately show ?thesis
    using guard_run_tracks [OF guarded_is_run [OF assms(1)]]
    by (auto simp: guard_tracks_def tracks_def cell_inv_def time)
qed

lemma guarded_within:
  assumes "guarded_run sha to_lower rd view limits L r" "t \<in> set (tiers_at limits b)"
  shows "int (hits_within (L b) k (window_ms t) u) \<le> tier_limit t"
  using assms(1)
proof (induction arbitrary: u rule: guarded_run.induct)
  case (gd_fresh r)
  then show ?case using tiers_facts(4) assms(2) by (fastforce simp: hits_within_def)
next
  case (gd_wrong L r a r1)
  let ?key = "attempt_key sha to_lower a b" and ?now = "server_now rd r" and ?now1 = "server_now rd r1"
  show ?case
  proof (cases "k = ?key \<and> ?now1 \<le> u")
    case False
    then have "hits_within ((?now1, ?key) # L b) k (window_ms t) u = hits_within (L b) k (window_ms t) u"
      by (auto simp: hits_within_def)
    with gd_wrong.IH show ?thesis by simp
  next
    case True
    have later: "?now \<le> ?now1" using gd_wrong.hyps(3) by (simp add: env_step_def time)
    have "\<not> tier_full ?now (hit_times (L b) ?key) t"
      using gd_wrong.hyps(2) guard_check_log [OF guarded_is_run [OF gd_wrong.hyps(1)], of a]
        no_wait_iff [of L ?now "attempt_key sha to_lower a"] assms(2)
      by (auto simp: Let_def split: if_splits)
    then have "int (length (recent ?now (window_ms t) (hit_times (L b) ?key))) < tier_limit t"
      by (simp add: tier_full_def)
    moreover have "hits_within ((?now1, ?key) # L b) k (window_ms t) u
        \<le> Suc (length (recent ?now (window_ms t) (hit_times (L b) ?key)))"
      using hits_within_later [of "L b" ?now u ?key "window_ms t"] guarded_times [OF gd_wrong.hyps(1)]
        True later
      by (auto simp: hits_within_def)
    ultimately show ?thesis by simp
  qed
next
  case (gd_right L r a r1)
  have "length (filter P (filter Q l)) \<le> length (filter P l)" for P Q and l :: hit_log
    by (induction l) auto
  then have "hits_within (filter Q (L b)) k (window_ms t) u \<le> hits_within (L b) k (window_ms t) u" for Q
    by (simp add: hits_within_def)
  with gd_right.IH [of u] show ?case
    by (cases b) (auto intro: order_trans [OF iffD2 [OF of_nat_le_iff]])
qed simp

end



end
