(* ===== verification/Client_Ip.thy ===== *)
theory Client_Ip
  imports GoText "HOL-Library.Word"
begin

unbundle bit_operations_syntax

text \<open>
  Which address a request is attributed to: \<open>backend/internal/httpx/clientip.go\<close>.  Addresses and
  prefixes are those of \<open>net/netip\<close>; \<open>parse_ip\<close> is \<open>netip.ParseAddr\<close> and \<open>ip_text\<close> is \<open>Addr.String\<close>.
\<close>

subsection \<open>\<open>net/netip\<close> and \<open>net\<close>\<close>

datatype ip_addr = V4 "32 word" | V6 "128 word" string

datatype ip_prefix = V4Prefix "32 word" nat | V6Prefix "128 word" nat

definition top_bits :: "nat \<Rightarrow> 'a::len word \<Rightarrow> 'a word" where
  "top_bits n w = w AND NOT (mask (LENGTH('a) - n))"

text \<open>A prefix contains no address of the other family and none with a zone.\<close>

fun prefix_contains :: "ip_prefix \<Rightarrow> ip_addr \<Rightarrow> bool" where
  "prefix_contains (V4Prefix p n) (V4 a) \<longleftrightarrow> top_bits n a = top_bits n p"
| "prefix_contains (V6Prefix p n) (V6 a zone) \<longleftrightarrow> zone = '''' \<and> top_bits n a = top_bits n p"
| "prefix_contains _ _ \<longleftrightarrow> False"

fun is6 :: "ip_addr \<Rightarrow> bool" where
  "is6 (V4 a) \<longleftrightarrow> False"
| "is6 (V6 a zone) \<longleftrightarrow> True"

fun is4in6 :: "ip_addr \<Rightarrow> bool" where
  "is4in6 (V4 a) \<longleftrightarrow> False"
| "is4in6 (V6 a zone) \<longleftrightarrow> drop_bit 32 a = 0xFFFF"

fun unmap :: "ip_addr \<Rightarrow> ip_addr" where
  "unmap (V4 a) = V4 a"
| "unmap (V6 a zone) = (if is4in6 (V6 a zone) then V4 (ucast a) else V6 a zone)"

fun without_zone :: "ip_addr \<Rightarrow> ip_addr" where
  "without_zone (V4 a) = V4 a"
| "without_zone (V6 a zone) = V6 a ''''"

text \<open>\<open>Addr.Prefix\<close>: an error when there are not that many bits.\<close>

fun addr_prefix :: "ip_addr \<Rightarrow> nat \<Rightarrow> ip_prefix option" where
  "addr_prefix (V4 a) n = (if n > 32 then None else Some (V4Prefix (top_bits n a) n))"
| "addr_prefix (V6 a zone) n = (if n > 128 then None else Some (V6Prefix (top_bits n a) n))"

fun prefix_text :: "(ip_addr \<Rightarrow> string) \<Rightarrow> ip_prefix \<Rightarrow> string" where
  "prefix_text ip_text (V4Prefix a n) = ip_text (V4 a) @ ''/'' @ dec_string n"
| "prefix_text ip_text (V6Prefix a n) = ip_text (V6 a '''') @ ''/'' @ dec_string n"

fun index_of :: "char \<Rightarrow> string \<Rightarrow> nat option" where
  "index_of c [] = None"
| "index_of c (x # xs) = (if x = c then Some 0 else map_option Suc (index_of c xs))"

definition last_index_of :: "char \<Rightarrow> string \<Rightarrow> nat option" where
  "last_index_of c s = map_option (\<lambda>i. length s - 1 - i) (index_of c (rev s))"

text \<open>\<open>net.SplitHostPort\<close>, of which only the host is used.\<close>

definition split_host_port :: "string \<Rightarrow> string option" where
  "split_host_port s =
     (case last_index_of CHR '':'' s of
        None \<Rightarrow> None
      | Some i \<Rightarrow>
        if hd s = CHR ''['' then
          (case index_of CHR '']'' s of
             None \<Rightarrow> None
           | Some e \<Rightarrow>
             if e + 1 \<noteq> i then None
             else if CHR ''['' \<in> set (drop 1 s) \<or> CHR '']'' \<in> set (drop (e + 1) s) then None
             else Some (take (e - 1) (drop 1 s)))
        else if CHR '':'' \<in> set (take i s) then None
        else if CHR ''['' \<in> set s \<or> CHR '']'' \<in> set s then None
        else Some (take i s))"

definition trim_prefix :: "char \<Rightarrow> string \<Rightarrow> string" where
  "trim_prefix c s = (if s \<noteq> [] \<and> hd s = c then tl s else s)"

definition trim_suffix :: "char \<Rightarrow> string \<Rightarrow> string" where
  "trim_suffix c s = (if s \<noteq> [] \<and> last s = c then butlast s else s)"

subsection \<open>The client of a request\<close>

type_synonym trusted_proxies = "ip_prefix list"

definition trusted_contains :: "trusted_proxies \<Rightarrow> ip_addr \<Rightarrow> bool" where
  "trusted_contains t addr = list_ex (\<lambda>p. prefix_contains p addr) t"

definition parse_addr :: "(string \<Rightarrow> ip_addr option) \<Rightarrow> string \<Rightarrow> ip_addr option" where
  "parse_addr parse_ip raw =
     (let host = (case split_host_port raw of None \<Rightarrow> raw | Some h \<Rightarrow> h);
          bare = trim_suffix CHR '']'' (trim_prefix CHR ''['' host)
      in case parse_ip bare of None \<Rightarrow> None | Some addr \<Rightarrow> Some (without_zone (unmap addr)))"

definition forwarded_for :: "string list \<Rightarrow> string list" where
  "forwarded_for headers =
     concat (map (\<lambda>header. filter (\<lambda>hop. hop \<noteq> '''') (map trim_space (split_on CHR '','' header))) headers)"

text \<open>The loop over the hops, which are given last first.\<close>

fun client_hop ::
  "(string \<Rightarrow> ip_addr option) \<Rightarrow> trusted_proxies \<Rightarrow> ip_addr \<Rightarrow> string list \<Rightarrow> ip_addr" where
  "client_hop parse_ip trusted socket [] = socket"
| "client_hop parse_ip trusted socket (hop # hops) =
     (case parse_addr parse_ip hop of
        None \<Rightarrow> socket
      | Some addr \<Rightarrow>
        if \<not> trusted_contains trusted addr then addr else client_hop parse_ip trusted socket hops)"

text \<open>\<open>headers\<close> are the values of \<open>X-Forwarded-For\<close>, in the order of the request.\<close>

definition client_ip ::
  "(string \<Rightarrow> ip_addr option) \<Rightarrow> trusted_proxies \<Rightarrow> string \<Rightarrow> string list \<Rightarrow> ip_addr option" where
  "client_ip parse_ip trusted remote_addr headers =
     (case parse_addr parse_ip remote_addr of
        None \<Rightarrow> None
      | Some socket \<Rightarrow>
        if \<not> trusted_contains trusted socket then Some socket
        else Some (client_hop parse_ip trusted socket (rev (forwarded_for headers))))"

subsection \<open>The keys of the rate limit buckets\<close>

definition ipv4NetworkBits :: nat where "ipv4NetworkBits = 24"
definition ipv6NetworkBits :: nat where "ipv6NetworkBits = 48"

definition rate_limit_key :: "(ip_addr \<Rightarrow> string) \<Rightarrow> ip_addr \<Rightarrow> string" where
  "rate_limit_key ip_text addr =
     (if is6 addr \<and> \<not> is4in6 addr then
        (case addr_prefix addr 64 of
           Some p \<Rightarrow> prefix_text ip_text p
         | None \<Rightarrow> ip_text (unmap addr))
      else ip_text (unmap addr))"

definition rate_limit_prefix_key :: "(ip_addr \<Rightarrow> string) \<Rightarrow> ip_addr \<Rightarrow> string" where
  "rate_limit_prefix_key ip_text addr =
     (let addr = unmap addr;
          bits = (if is6 addr then ipv6NetworkBits else ipv4NetworkBits)
      in case addr_prefix addr bits of
           None \<Rightarrow> ip_text addr
         | Some p \<Rightarrow> prefix_text ip_text p)"

subsection \<open>What clients and proxies can put in the headers\<close>

lemma split_on_at: "split_on c (xs @ c # ys) = split_on c xs @ split_on c ys"
  by (induction xs) (auto split: list.split)

lemma forwarded_for_append: "forwarded_for (hs @ hs') = forwarded_for hs @ forwarded_for hs'"
  by (simp add: forwarded_for_def)

lemma forwarded_for_extend:
  "forwarded_for [h @ CHR '','' # t] = forwarded_for [h] @ forwarded_for [t]"
  by (simp add: forwarded_for_def split_on_at)

text \<open>A proxy appends the address it heard from, to the last header or in one of its own.\<close>

inductive proxy_appends :: "string \<Rightarrow> string list \<Rightarrow> string list \<Rightarrow> bool" for address where
  own: "trim_space t = address \<Longrightarrow> CHR '','' \<notin> set t \<Longrightarrow> proxy_appends address hs (hs @ [t])"
| extend: "trim_space t = address \<Longrightarrow> CHR '','' \<notin> set t \<Longrightarrow>
    proxy_appends address (hs @ [h]) (hs @ [h @ CHR '','' # t])"

lemma proxy_appends_hop:
  assumes "proxy_appends address hs hs'" "address \<noteq> ''''"
  shows "forwarded_for hs' = forwarded_for hs @ [address]"
proof -
  have one: "forwarded_for [t] = [address]" if "trim_space t = address" "CHR '','' \<notin> set t" for t
    using that assms(2) by (simp add: forwarded_for_def split_on_free)
  from assms(1) show ?thesis
    by cases (simp_all add: one forwarded_for_append forwarded_for_extend)
qed

text \<open>
  The client sends whatever headers it likes to the first of our proxies, which appends the client's
  address; each further one appends the address of the proxy before it.
\<close>

inductive relayed ::
  "(string \<Rightarrow> ip_addr option) \<Rightarrow> trusted_proxies \<Rightarrow> string \<Rightarrow> string list \<Rightarrow> bool"
  for parse_ip trusted client where
  first: "proxy_appends client hs hs' \<Longrightarrow> relayed parse_ip trusted client hs'"
| further: "relayed parse_ip trusted client hs \<Longrightarrow> proxy_appends proxy hs hs' \<Longrightarrow> proxy \<noteq> '''' \<Longrightarrow>
    parse_addr parse_ip proxy = Some p \<Longrightarrow> trusted_contains trusted p \<Longrightarrow> relayed parse_ip trusted client hs'"

lemma relayed_client:
  assumes "relayed parse_ip trusted client hs" "client \<noteq> ''''" "parse_addr parse_ip client = Some a"
    "\<not> trusted_contains trusted a"
  shows "client_hop parse_ip trusted socket (rev (forwarded_for hs)) = a"
  using assms by (induction rule: relayed.induct) (simp_all add: proxy_appends_hop)

subsection \<open>Properties\<close>

text \<open>
  C20: the headers cannot change whom a request is attributed to.  Whatever a client sends, a request
  that reached us through any number of our proxies is attributed to the address the first of them
  heard from, and one that did not come from a proxy of ours to the address of its connection.
\<close>
theorem client_ip_unspoofable:
  assumes "parse_addr parse_ip remote_addr = Some socket"
    and "relayed parse_ip trusted client headers" "client \<noteq> ''''" "parse_addr parse_ip client = Some a"
    and "\<not> trusted_contains trusted a"
  shows "(trusted_contains trusted socket \<longrightarrow> client_ip parse_ip trusted remote_addr headers = Some a)
    \<and> (\<not> trusted_contains trusted socket \<longrightarrow> (\<forall>any. client_ip parse_ip trusted remote_addr any = Some socket))"
  using relayed_client [OF assms(2-5)] assms(1) by (simp_all add: client_ip_def)

text \<open>
  What \<open>ip_text\<close> is relied on for: distinct addresses print differently, and without a slash.
\<close>

definition zone_free :: "ip_addr \<Rightarrow> bool" where
  "zone_free addr \<longleftrightarrow> without_zone addr = addr"

definition ip_text_documented :: "(ip_addr \<Rightarrow> string) \<Rightarrow> bool" where
  "ip_text_documented ip_text \<longleftrightarrow>
     inj_on ip_text {a. zone_free a} \<and> (\<forall>a. zone_free a \<longrightarrow> CHR ''/'' \<notin> set (ip_text a))"

text \<open>Whom a bucket is about: an IPv4 address, or the /64 an IPv6 address belongs to.\<close>

fun subscriber :: "ip_addr \<Rightarrow> 32 word + 128 word" where
  "subscriber (V4 a) = Inl a"
| "subscriber (V6 a zone) = Inr (top_bits 64 a)"

definition normal_addr :: "ip_addr \<Rightarrow> bool" where
  "normal_addr a \<longleftrightarrow> zone_free a \<and> \<not> is4in6 a"

lemma parse_addr_normal: "parse_addr parse_ip raw = Some a \<Longrightarrow> normal_addr a"
proof -
  have "normal_addr (without_zone (unmap x))" for x
    by (cases x) (auto simp: normal_addr_def zone_free_def)
  then show "parse_addr parse_ip raw = Some a \<Longrightarrow> normal_addr a"
    by (auto simp: parse_addr_def Let_def split: option.splits)
qed

lemma client_ip_normal: "client_ip parse_ip trusted remote_addr headers = Some a \<Longrightarrow> normal_addr a"
proof -
  have "normal_addr (client_hop parse_ip trusted socket hops)" if "normal_addr socket" for socket hops
    using that by (induction hops) (auto split: option.split dest: parse_addr_normal)
  then show "client_ip parse_ip trusted remote_addr headers = Some a \<Longrightarrow> normal_addr a"
    by (auto simp: client_ip_def dest: parse_addr_normal split: option.splits if_splits)
qed

lemma rate_limit_key_normal:
  "normal_addr (V4 a) \<Longrightarrow> rate_limit_key ip_text (V4 a) = ip_text (V4 a)"
  "normal_addr (V6 b zone) \<Longrightarrow> rate_limit_key ip_text (V6 b zone) = ip_text (V6 (top_bits 64 b) '''') @ ''/'' @ dec_string 64"
  by (simp_all add: rate_limit_key_def normal_addr_def)

lemma append_slash_inj: "CHR ''/'' \<notin> set u \<Longrightarrow> CHR ''/'' \<notin> set v \<Longrightarrow> u @ ''/'' @ w = v @ ''/'' @ w \<Longrightarrow> u = v"
  by simp

text \<open>
  A bucket counts one subscriber.  Two callers share the bucket of their address exactly when they
  have the same IPv4 address, or IPv6 addresses of the same /64, whether they came over a mapped
  address, with a zone or through a proxy.
\<close>
theorem bucket_is_subscriber:
  assumes "ip_text_documented ip_text"
    and "client_ip parse_ip trusted remote_addr headers = Some a"
    and "client_ip parse_ip trusted remote_addr' headers' = Some b"
  shows "rate_limit_key ip_text a = rate_limit_key ip_text b \<longleftrightarrow> subscriber a = subscriber b"
proof -
  note n = client_ip_normal [OF assms(2)] client_ip_normal [OF assms(3)]
  have inj: "ip_text x = ip_text y \<longleftrightarrow> x = y" if "zone_free x" "zone_free y" for x y
    using assms(1) that by (auto simp: ip_text_documented_def inj_on_def)
  have no_slash: "CHR ''/'' \<notin> set (ip_text x)" if "zone_free x" for x
    using assms(1) that by (simp add: ip_text_documented_def)
  have free: "zone_free (V4 x)" "zone_free (V6 y '''')" for x y by (simp_all add: zone_free_def)
  show ?thesis
  proof (cases a; cases b)
    fix x y assume "a = V4 x" "b = V4 y"
    then show ?thesis using n by (simp add: rate_limit_key_normal inj free)
  next
    fix x y z assume ab: "a = V4 x" "b = V6 y z"
    have "ip_text (V4 x) \<noteq> ip_text (V6 (top_bits 64 y) '''') @ ''/'' @ dec_string 64"
      using no_slash [OF free(1)] by (metis in_set_conv_decomp append.assoc append_Cons append_Nil)
    then show ?thesis using n ab by (simp add: rate_limit_key_normal)
  next
    fix x y z assume ab: "a = V6 y z" "b = V4 x"
    have "ip_text (V6 (top_bits 64 y) '''') @ ''/'' @ dec_string 64 \<noteq> ip_text (V4 x)"
      using no_slash [OF free(1)] by (metis in_set_conv_decomp append.assoc append_Cons append_Nil)
    then show ?thesis using n ab by (simp add: rate_limit_key_normal)
  next
    fix x z y z' assume "a = V6 x z" "b = V6 y z'"
    then show ?thesis using n by (simp add: rate_limit_key_normal inj free)
  qed
qed

subsection \<open>Addresses with which the properties are used\<close>

definition sample_ip :: "string \<Rightarrow> ip_addr option" where
  "sample_ip s =
     (if s = ''203.0.113.9'' then Some (V4 0xCB007109)
      else if s = ''10.0.0.5'' then Some (V4 0x0A000005)
      else if s = ''2001:db8::1'' then Some (V6 0x20010DB8000000000000000000000001 '''')
      else if s = ''2001:db8::2'' then Some (V6 0x20010DB8000000000000000000000002 '''')
      else None)"

definition sample_proxies :: trusted_proxies where
  "sample_proxies = [V4Prefix 0x0A000000 8]"

lemma sample_addresses:
  "parse_addr sample_ip ''10.0.0.5:443'' = Some (V4 0x0A000005)"
  "parse_addr sample_ip ''203.0.113.9'' = Some (V4 0xCB007109)"
  "parse_addr sample_ip ''[2001:db8::1]:443'' = Some (V6 0x20010DB8000000000000000000000001 '''')"
  "parse_addr sample_ip ''[2001:db8::2]'' = Some (V6 0x20010DB8000000000000000000000002 '''')"
  "trusted_contains sample_proxies (V4 0x0A000005)" "\<not> trusted_contains sample_proxies (V4 0xCB007109)"
  "\<not> trusted_contains sample_proxies (V6 0x20010DB8000000000000000000000001 '''')"
  "\<not> trusted_contains sample_proxies (V6 0x20010DB8000000000000000000000002 '''')"
  "trim_space '' 203.0.113.9'' = ''203.0.113.9''"
  by code_simp+

lemma client_ip_unspoofable_witness:
  "client_ip sample_ip sample_proxies ''10.0.0.5:443'' [''10.0.0.5, 198.51.100.1, 203.0.113.9'']
    = Some (V4 0xCB007109)"
proof -
  have "proxy_appends ''203.0.113.9'' ([] @ [''10.0.0.5, 198.51.100.1''])
      ([] @ [''10.0.0.5, 198.51.100.1'' @ CHR '','' # '' 203.0.113.9''])"
    by (rule proxy_appends.extend) (simp_all add: sample_addresses(9))
  then have "relayed sample_ip sample_proxies ''203.0.113.9'' [''10.0.0.5, 198.51.100.1, 203.0.113.9'']"
    by (intro relayed.first) simp
  from client_ip_unspoofable [OF sample_addresses(1) this _ sample_addresses(2,6)] show ?thesis
    by (simp add: sample_addresses)
qed

definition sample_text :: "ip_addr \<Rightarrow> string" where
  "sample_text addr = (case addr of V4 a \<Rightarrow> ''4'' @ dec_string (unat a) | V6 a zone \<Rightarrow> ''6'' @ dec_string (unat a))"

lemma sample_text_documented: "ip_text_documented sample_text"
proof -
  have "CHR ''/'' \<notin> set (dec_string n)" for n
    using dec_string_digits [of n] by (auto simp: is_dec_digit_def less_eq_char_def)
  then show ?thesis
    by (auto simp: ip_text_documented_def sample_text_def inj_on_def zone_free_def split: ip_addr.splits
        dest!: dec_string_inj simp: word_unat_eq_iff)
qed

lemma bucket_is_subscriber_witness:
  "rate_limit_key sample_text (V6 0x20010DB8000000000000000000000001 '''')
    = rate_limit_key sample_text (V6 0x20010DB8000000000000000000000002 '''')"
proof -
  have "client_ip sample_ip sample_proxies ''[2001:db8::1]:443'' [] = Some (V6 0x20010DB8000000000000000000000001 '''')"
    "client_ip sample_ip sample_proxies ''[2001:db8::2]'' [] = Some (V6 0x20010DB8000000000000000000000002 '''')"
    by (simp_all add: client_ip_def sample_addresses)
  from bucket_is_subscriber [OF sample_text_documented this] show ?thesis
    by (simp add: top_bits_def mask_eq_exp_minus_1)
qed

end
