(* ===== verification/Http.thy ===== *)
theory Http
  imports Client_Ip Base64 GoTime Login_Guard
begin

text \<open>
  The middleware and the answers shared by all handlers: \<open>backend/internal/httpx\<close> without the server
  itself.  A handler is a function from what the process draws while it serves the request (random
  bytes, the clock), the request and the state to the response and the state; \<open>net/http\<close> has parsed
  the request, and encoding a response body is left out.
\<close>

subsection \<open>Requests and responses\<close>

text \<open>
  \<open>rq_headers\<close> has the canonical names, in order; \<open>rq_cookies\<close> is what \<open>Request.Cookies\<close> gives;
  \<open>rq_segments\<close> is the path, cleaned and split; \<open>rq_id\<close> and \<open>rq_caller\<close> are the values in its context.
\<close>

record 'c request =
  rq_method :: string
  rq_segments :: "string list"
  rq_headers :: "(string \<times> string) list"
  rq_cookies :: "(string \<times> string) list"
  rq_remote_addr :: string
  rq_body :: string
  rq_id :: string
  rq_caller :: "'c option"

fun first_value :: "string \<Rightarrow> (string \<times> string) list \<Rightarrow> string option" where
  "first_value name [] = None"
| "first_value name ((n, v) # rest) = (if n = name then Some v else first_value name rest)"

definition header_get :: "'c request \<Rightarrow> string \<Rightarrow> string" where
  "header_get r name = (case first_value name (rq_headers r) of None \<Rightarrow> '''' | Some v \<Rightarrow> v)"

definition header_values :: "'c request \<Rightarrow> string \<Rightarrow> string list" where
  "header_values r name = map snd (filter (\<lambda>h. fst h = name) (rq_headers r))"

definition request_cookie :: "'c request \<Rightarrow> string \<Rightarrow> string option" where
  "request_cookie r name = first_value name (rq_cookies r)"

record set_cookie =
  ck_name :: string
  ck_value :: string
  ck_path :: string
  ck_expires :: "time option"
  ck_max_age :: int
  ck_http_only :: bool
  ck_secure :: bool
  ck_lax :: bool

type_synonym error_code = string

definition CodeValidationFailed :: error_code where "CodeValidationFailed = ''VALIDATION_FAILED''"
definition CodeUnauthenticated :: error_code where "CodeUnauthenticated = ''UNAUTHENTICATED''"
definition CodeForbidden :: error_code where "CodeForbidden = ''FORBIDDEN''"
definition CodeNotFound :: error_code where "CodeNotFound = ''NOT_FOUND''"
definition CodeConflict :: error_code where "CodeConflict = ''CONFLICT''"
definition CodeRateLimited :: error_code where "CodeRateLimited = ''RATE_LIMITED''"
definition CodeInternal :: error_code where "CodeInternal = ''INTERNAL''"

lemmas code_defs = CodeValidationFailed_def CodeUnauthenticated_def CodeForbidden_def CodeNotFound_def
  CodeConflict_def CodeRateLimited_def CodeInternal_def

definition status_of :: "error_code \<Rightarrow> nat" where
  "status_of code =
     (if code = CodeValidationFailed then 400
      else if code = CodeUnauthenticated then 401
      else if code = CodeForbidden then 403
      else if code = CodeNotFound then 404
      else if code = CodeConflict then 409
      else if code = CodeRateLimited then 429
      else if code = CodeInternal then 500
      else 500)"

record field_error =
  fe_field :: string
  fe_code :: string

record error_body =
  eb_code :: error_code
  eb_message :: string
  eb_details :: "field_error list"
  eb_request_id :: string

datatype 'b body = NoBody | ErrorBody error_body | JsonBody 'b

record 'b response =
  rs_status :: nat
  rs_request_id :: string
  rs_retry_after :: "int option"
  rs_cookies :: "set_cookie list"
  rs_body :: "'b body"

definition empty_response :: "nat \<Rightarrow> 'b response" where
  "empty_response status =
     \<lparr>rs_status = status, rs_request_id = '''', rs_retry_after = None, rs_cookies = [], rs_body = NoBody\<rparr>"

definition write_json :: "nat \<Rightarrow> 'b \<Rightarrow> 'b response" where
  "write_json status b = (empty_response status)\<lparr>rs_body := JsonBody b\<rparr>"

definition write_error :: "'c request \<Rightarrow> error_code \<Rightarrow> string \<Rightarrow> field_error list \<Rightarrow> 'b response" where
  "write_error r code message details = (empty_response (status_of code))\<lparr>rs_body :=
     ErrorBody \<lparr>eb_code = code, eb_message = message, eb_details = details, eb_request_id = rq_id r\<rparr>\<rparr>"

definition write_internal_error :: "'c request \<Rightarrow> 'b response" where
  "write_internal_error r = write_error r CodeInternal
     ''Terjadi kesalahan di server. Sertakan request_id kalau melaporkannya.'' []"

subsection \<open>Handlers and middleware\<close>

text \<open>
  \<open>dr_csrf\<close>, \<open>dr_token\<close>, \<open>dr_salt\<close> and \<open>dr_id\<close> are what \<open>crypto/rand\<close> gives for each use, \<open>dr_now\<close>
  and \<open>dr_later\<close> the first and the second reading of the clock.
\<close>

record draws =
  dr_csrf :: "byte list option"
  dr_token :: "byte list option"
  dr_salt :: "byte list option"
  dr_id :: "byte list"
  dr_now :: time
  dr_later :: time

type_synonym ('c, 'b, 's) handler = "draws \<Rightarrow> 'c request \<Rightarrow> 's \<Rightarrow> 'b response \<times> 's"
type_synonym ('c, 'b, 's) middleware = "('c, 'b, 's) handler \<Rightarrow> ('c, 'b, 's) handler"

definition chain :: "('c, 'b, 's) handler \<Rightarrow> ('c, 'b, 's) middleware list \<Rightarrow> ('c, 'b, 's) handler" where
  "chain h mw = foldr (\<lambda>m h. m h) mw h"

text \<open>\<open>requestid.go\<close>: the header is set before the handler runs, whatever it answers.\<close>

definition request_id :: "('c, 'b, 's) middleware" where
  "request_id next dr r s =
     (let i = hex_encode (dr_id dr);
          (answer, s') = next dr (r\<lparr>rq_id := i\<rparr>) s
      in (answer\<lparr>rs_request_id := i\<rparr>, s'))"

subsection \<open>The double-submit check (\<open>csrf.go\<close>)\<close>

text \<open>The header's name in the canonical form in which \<open>net/http\<close> keeps it.\<close>

definition CSRFCookieName :: string where "CSRFCookieName = ''__Host-csrf''"
definition CSRFHeaderName :: string where "CSRFHeaderName = ''X-Csrf-Token''"
definition csrfTokenBytes :: nat where "csrfTokenBytes = 32"

definition has_prefix :: "string \<Rightarrow> string \<Rightarrow> bool" where
  "has_prefix s p \<longleftrightarrow> take (length p) s = p"

definition csrf_exempt :: "(string \<Rightarrow> string) \<Rightarrow> 'c request \<Rightarrow> bool" where
  "csrf_exempt to_lower r \<longleftrightarrow>
     rq_method r \<in> {''GET'', ''HEAD'', ''OPTIONS''} \<or> has_prefix (to_lower (header_get r ''Authorization'')) ''bearer ''"

definition csrf_cookie_token :: "'c request \<Rightarrow> string option" where
  "csrf_cookie_token r =
     (case request_cookie r CSRFCookieName of
        None \<Rightarrow> None
      | Some v \<Rightarrow>
        (case base64_decode url_alphabet v of
           None \<Rightarrow> None
         | Some raw \<Rightarrow> if length raw \<noteq> csrfTokenBytes then None else Some v))"

definition new_csrf_cookie :: "byte list \<Rightarrow> set_cookie" where
  "new_csrf_cookie raw =
     \<lparr>ck_name = CSRFCookieName, ck_value = base64_encode url_alphabet raw, ck_path = ''/'', ck_expires = None,
      ck_max_age = 0, ck_http_only = False, ck_secure = True, ck_lax = True\<rparr>"

definition csrf_failure :: "string \<Rightarrow> string \<Rightarrow> string" where
  "csrf_failure cookie_token header_token =
     (if cookie_token = '''' then ''no csrf cookie''
      else if header_token = '''' then ''no csrf header''
      else if cookie_token \<noteq> header_token then ''csrf header does not match the cookie''
      else '''')"

definition add_cookies :: "set_cookie list \<Rightarrow> 'b response \<Rightarrow> 'b response" where
  "add_cookies cs answer = answer\<lparr>rs_cookies := cs @ rs_cookies answer\<rparr>"

definition csrf :: "(string \<Rightarrow> string) \<Rightarrow> ('c, 'b, 's) middleware" where
  "csrf to_lower next dr r s =
     (case (case csrf_cookie_token r of
              Some v \<Rightarrow> Some (v, [])
            | None \<Rightarrow> map_option (\<lambda>raw. ('''', [new_csrf_cookie raw])) (dr_csrf dr)) of
        None \<Rightarrow> (write_internal_error r, s)
      | Some (presented, minted) \<Rightarrow>
        if csrf_exempt to_lower r then (let (answer, s') = next dr r s in (add_cookies minted answer, s'))
        else if csrf_failure presented (header_get r CSRFHeaderName) \<noteq> ''''
        then (add_cookies minted (write_error r CodeForbidden
          ''Permintaan ditolak karena token CSRF tidak cocok. Muat ulang halaman lalu coba lagi.'' []), s)
        else (let (answer, s') = next dr r s in (add_cookies minted answer, s')))"

subsection \<open>Rate limits (\<open>ratelimit.go\<close>)\<close>

datatype on_limiter_failure = FailClosed | FailOpen

text \<open>
  The whole seconds of \<open>Retry-After\<close>: \<open>math.Ceil\<close> of \<open>Seconds\<close>, which is exact for waits below 97 days,
  where a \<open>float64\<close> of the seconds still tells nanoseconds apart.
\<close>

definition retry_seconds :: "duration \<Rightarrow> int" where
  "retry_seconds retry_after = max (- ((- retry_after) div second)) 1"

definition write_rate_limited :: "'c request \<Rightarrow> duration \<Rightarrow> 'b response" where
  "write_rate_limited r retry_after =
     (write_error r CodeRateLimited ''Terlalu banyak percobaan. Coba lagi sebentar.'' [])
       \<lparr>rs_retry_after := Some (retry_seconds retry_after)\<rparr>"

definition http_retryAfterUnavailable :: duration where
  "http_retryAfterUnavailable = 30 * second"

definition rate_limit ::
  "(string \<Rightarrow> 's \<Rightarrow> (bool \<times> duration \<times> 'e option) \<times> 's) \<Rightarrow> ('c request \<Rightarrow> string) \<Rightarrow> on_limiter_failure
    \<Rightarrow> ('c, 'b, 's) middleware" where
  "rate_limit limiter key on_failure next dr r s =
     (let k = key r in
      if k = '''' then next dr r s
      else case limiter k s of
          ((allowed, retry_after, Some e), s') \<Rightarrow>
            if on_failure = FailOpen then next dr r s'
            else (write_rate_limited r http_retryAfterUnavailable, s')
        | ((allowed, retry_after, None), s') \<Rightarrow>
            if \<not> allowed then (write_rate_limited r retry_after, s') else next dr r s')"

subsection \<open>Liveness and readiness (\<open>health.go\<close>, \<open>ready.go\<close>)\<close>

text \<open>Each check is its name and whether its probe answered in time.\<close>

record ready_response =
  rd_status :: string
  rd_checks :: "string \<rightharpoonup> string"

definition ready_body :: "(string \<times> bool) list \<Rightarrow> ready_response" where
  "ready_body checks = fold (\<lambda>(name, answers) b.
     if \<not> answers then \<lparr>rd_status = ''unavailable'', rd_checks = (rd_checks b)(name \<mapsto> ''unavailable'')\<rparr>
     else b\<lparr>rd_checks := (rd_checks b)(name \<mapsto> ''ok'')\<rparr>) checks
     \<lparr>rd_status = ''ok'', rd_checks = Map.empty\<rparr>"

definition ready_status :: "(string \<times> bool) list \<Rightarrow> nat" where
  "ready_status checks = (if rd_status (ready_body checks) \<noteq> ''ok'' then 503 else 200)"

end
