(* ===== verification/Credentials.thy ===== *)
theory Credentials
  imports Password Repository_Facts
begin

text \<open>
  The credential check: \<open>backend/internal/modules/identity/service/credentials.go\<close>.  The interface
  \<open>UserStore\<close> is the record \<open>user_store\<close>; \<open>random\<close> arguments are the bytes \<open>crypto/rand\<close> gives, or
  \<open>None\<close>.  What is written to the log is left out.
\<close>

record 's user_store =
  us_get_by_email :: "string \<Rightarrow> 's \<Rightarrow> (db_error + user_row) \<times> 's"
  us_update_password_hash :: "string \<Rightarrow> string \<Rightarrow> string \<Rightarrow> 's \<Rightarrow> (db_error + int) \<times> 's"

definition pg_user_store :: "pg user_store" where
  "pg_user_store =
     \<lparr>us_get_by_email = get_user_by_email, us_update_password_hash = update_user_password_hash\<rparr>"

datatype credentials_error =
  ErrInvalidCredentials
  | GetUserByEmail db_error

datatype new_credentials_error = ReadDecoySecret | HashDecoy password_error

record user =
  user_id :: string
  user_email :: string
  user_name :: string
  user_timezone :: string
  user_role :: string

definition new_credentials ::
  "argon2 \<Rightarrow> (string \<Rightarrow> string) \<Rightarrow> byte list option \<Rightarrow> byte list option
    \<Rightarrow> new_credentials_error + string" where
  "new_credentials a nfkc secret salt =
     (case secret of
        None \<Rightarrow> Inl ReadDecoySecret
      | Some bytes \<Rightarrow>
        (case hash_password a nfkc salt (base64_encode url_alphabet bytes) of
           Inl e \<Rightarrow> Inl (HashDecoy e)
         | Inr decoy \<Rightarrow> Inr decoy))"

definition rehash ::
  "'s user_store \<Rightarrow> argon2 \<Rightarrow> nat \<Rightarrow> (string \<Rightarrow> string) \<Rightarrow> byte list option
    \<Rightarrow> string \<Rightarrow> string \<Rightarrow> string \<Rightarrow> 's \<Rightarrow> 's" where
  "rehash st a cpus nfkc salt uid current_hash password s =
     (if \<not> needs_rehash a cpus current_hash then s
      else case hash_password a nfkc salt password of
          Inl e \<Rightarrow> s
        | Inr updated \<Rightarrow> snd (us_update_password_hash st updated uid current_hash s))"

text \<open>
  The second component of the answer is the stored form the password was verified against; for an
  unknown address that is the decoy, and the outcome is thrown away.
\<close>

definition check_credentials ::
  "'s user_store \<Rightarrow> argon2 \<Rightarrow> nat \<Rightarrow> (string \<Rightarrow> string) \<Rightarrow> string \<Rightarrow> byte list option
    \<Rightarrow> string \<Rightarrow> string \<Rightarrow> 's \<Rightarrow> ((credentials_error + user) \<times> string option) \<times> 's" where
  "check_credentials st a cpus nfkc decoy salt email password s =
     (case us_get_by_email st email s of
        (Inl e, s1) \<Rightarrow>
          if e \<noteq> NoRows then ((Inl (GetUserByEmail e), None), s1)
          else let _ = verify_password a cpus nfkc decoy password
               in ((Inl ErrInvalidCredentials, Some decoy), s1)
      | (Inr row, s1) \<Rightarrow>
          (case verify_password a cpus nfkc (u_password_hash row) password of
             Some e \<Rightarrow> ((Inl ErrInvalidCredentials, Some (u_password_hash row)), s1)
           | None \<Rightarrow>
             ((Inr \<lparr>user_id = u_id row, user_email = u_email row, user_name = u_name row,
                    user_timezone = u_timezone row, user_role = u_role row\<rparr>,
               Some (u_password_hash row)),
              rehash st a cpus nfkc salt (u_id row) (u_password_hash row) password s1)))"

text \<open>The calls of Argon2id one verification makes: memory, passes, threads and length of the key.\<close>

definition verify_calls ::
  "argon2 \<Rightarrow> nat \<Rightarrow> (string \<Rightarrow> string) \<Rightarrow> string \<Rightarrow> string \<Rightarrow> (nat \<times> nat \<times> nat \<times> nat) list" where
  "verify_calls a cpus nfkc encoded plain =
     (case decode_hash a cpus encoded of
        Inl _ \<Rightarrow> []
      | Inr (memory, passes, threads, salt, want) \<Rightarrow>
        if length (nfkc plain) > MaxPasswordLength then []
        else [(memory, passes, threads, length want)])"

subsection \<open>What the check promises of any store\<close>

text \<open>\<open>account s email\<close> is the live account of an address; \<open>answers\<close> that the store replies.\<close>

locale account_directory =
  fixes st :: "'s user_store"
    and account :: "'s \<Rightarrow> string \<Rightarrow> user_row option"
    and answers :: "'s \<Rightarrow> bool"
  assumes found: "answers s \<Longrightarrow> account s email = Some row \<Longrightarrow> us_get_by_email st email s = (Inr row, s)"
    and missing: "answers s \<Longrightarrow> account s email = None \<Longrightarrow> us_get_by_email st email s = (Inl NoRows, s)"
begin

lemma unknown_address:
  assumes "answers s" "account s email = None"
  shows "check_credentials st a cpus nfkc decoy salt email password s
    = ((Inl ErrInvalidCredentials, Some decoy), s)"
  by (simp add: check_credentials_def missing [OF assms])

lemma wrong_password:
  assumes "answers s" "account s email = Some row"
    and "verify_password a cpus nfkc (u_password_hash row) password = Some e"
  shows "check_credentials st a cpus nfkc decoy salt email password s
    = ((Inl ErrInvalidCredentials, Some (u_password_hash row)), s)"
  by (simp add: check_credentials_def found [OF assms(1,2)] assms(3))

lemma right_password:
  assumes "answers s" "account s email = Some row"
    and "verify_password a cpus nfkc (u_password_hash row) password = None"
  shows "check_credentials st a cpus nfkc decoy salt email password s
    = ((Inr \<lparr>user_id = u_id row, user_email = u_email row, user_name = u_name row,
             user_timezone = u_timezone row, user_role = u_role row\<rparr>, Some (u_password_hash row)),
       rehash st a cpus nfkc salt (u_id row) (u_password_hash row) password s)"
  by (simp add: check_credentials_def found [OF assms(1,2)] assms(3))

end

subsection \<open>The repository is such a store\<close>

definition pg_account :: "pg \<Rightarrow> string \<Rightarrow> user_row option" where
  "pg_account d email = find (\<lambda>u. pg_lower d (u_email u) = pg_lower d email) (users_live d)"

interpretation pg_users: account_directory pg_user_store pg_account "\<lambda>d. deliveries d = []"
  by unfold_locales
    (simp_all add: pg_user_store_def get_user_by_email_def pg_account_def find_row_def)

lemma pg_account_in: "pg_account d email = Some u \<Longrightarrow> u \<in> set (users_live d)"
  unfolding pg_account_def by (drule find_in) simp

text \<open>The calls for a stored form that \<open>HashPassword\<close> wrote.\<close>

lemma verify_calls_fresh:
  assumes "hash_password a nfkc (Some salt) plain = Inr h" "argon2_documented a"
    "length salt = saltLength" "0 < cpus"
  shows "verify_calls a cpus nfkc h guess =
    (if length (nfkc guess) > MaxPasswordLength then []
     else [(argonMemoryKiB, argonTime, argonThreads, keyLength)])"
proof -
  have "length (id_key a pw salt t m p size) = size" for pw t m p size
    using assms(2) by (simp add: argon2_documented_def)
  then show ?thesis by (simp add: verify_calls_def decode_hash_password [OF assms])
qed

subsection \<open>Properties\<close>


text \<open>An account whose hash is of the cost in force, and one whose hash is older.\<close>

definition sample_account :: "string \<Rightarrow> user_row" where
  "sample_account h = \<lparr>u_id = ''u1'', u_email = ''ana@example.com'', u_name = ''Ana'', u_password_hash = h,
     u_timezone = ''Asia/Jakarta'', u_role = ''viewer'', u_created_at = 0, u_updated_at = 0,
     u_deleted_at = None\<rparr>"

definition sample_accounts :: "string \<Rightarrow> pg" where
  "sample_accounts h = \<lparr>users = [sample_account h], sessions = [], invitations = [], resets = [], pg_now = 5,
     new_uuid = (\<lambda>n. ''id'' @ dec_string n), uuid_count = 0, pg_lower = id, to_uuid = Some, deliveries = []\<rparr>"

lemma sample_accounts_facts:
  "deliveries (sample_accounts h) = []" "to_uuid (sample_accounts h) i = Some i"
  "pg_account (sample_accounts h) ''ana@example.com'' = Some (sample_account h)"
  "pg_account (sample_accounts h) ''bob@example.com'' = None"
  by (simp_all add: sample_accounts_def sample_account_def pg_account_def users_live_def)

lemma sample_argon2_documented: "argon2_documented sample_argon2"
  by (auto simp: argon2_documented_def sample_argon2_def)

lemma sample_hash: "\<exists>h. hash_password sample_argon2 id (Some (replicate 16 1)) ''correct horse'' = Inr h"
  by (simp add: hash_password_def validate_password_def rune_count.simps password_consts byte_in_def)

lemma sample_guess_wrong:
  assumes "hash_password sample_argon2 id (Some (replicate 16 1)) ''correct horse'' = Inr h"
  shows "verify_password sample_argon2 4 id h ''battery staple'' = Some ErrPasswordMismatch"
proof -
  have "id_key sample_argon2 (to_bytes ''battery staple'') (replicate 16 1) argonTime
      argonMemoryKiB argonThreads keyLength \<noteq>
    id_key sample_argon2 (to_bytes ''correct horse'') (replicate 16 1) argonTime
      argonMemoryKiB argonThreads keyLength"
    by (simp add: sample_argon2_def keyLength_def to_bytes_def)
  then show ?thesis
    using verify_fresh [OF assms sample_argon2_documented, of 4] by (simp add: saltLength_def)
qed

lemma sample_secret_valid:
  "validate_password id (base64_encode url_alphabet (replicate 32 9)) = Inr (base64_encode url_alphabet (replicate 32 9))"
  by code_simp


text \<open>What rewriting one hash does to the accounts.\<close>

lemma find_update_rows:
  "(\<And>r. Q (f r) = Q r) \<Longrightarrow>
    find Q (update_rows P f rows) = map_option (\<lambda>r. if P r then f r else r) (find Q rows)"
  by (induction rows) (auto simp: update_rows_def)

lemma pg_account_update:
  assumes "\<And>u. u_email (f u) = u_email u" "\<And>u. u_deleted_at (f u) = u_deleted_at u"
  shows "pg_account (d\<lparr>users := update_rows P f (users d)\<rparr>) email
    = map_option (\<lambda>u. if P u then f u else u) (pg_account d email)"
  by (simp add: pg_account_def users_live_def live_update_rows [OF assms(2)] find_update_rows assms(1))

definition with_new_hash :: "time \<Rightarrow> string \<Rightarrow> user_row \<Rightarrow> user_row" where
  "with_new_hash now h u = u\<lparr>u_password_hash := h, u_updated_at := now\<rparr>"

lemma update_hash_state:
  assumes "deliveries d = []" "to_uuid d i = Some i"
  shows "snd (us_update_password_hash pg_user_store h i current d) = d\<lparr>users :=
    update_rows (\<lambda>u. u_id u = i \<and> u_password_hash u = current \<and> u_deleted_at u = None)
      (with_new_hash (pg_now d) h) (users d)\<rparr>"
  using assms
  by (simp add: pg_user_store_def update_user_password_hash_def with_uuid_def Let_def with_new_hash_def [abs_def])

text \<open>
  A login brings an old hash up to date.  The right password signs its account in whatever the
  cost its hash was made at; a hash below the cost in force is then replaced, in the row it was read
  from and no other, by one of that cost which the same password opens and which the next login
  leaves alone; a password the policy would no longer accept still signs in and replaces nothing.
\<close>
theorem login_upgrades_hash:
  assumes "deliveries d = []" "pg_account d email = Some row" "to_uuid d (u_id row) = Some (u_id row)"
    and "verify_password a cpus nfkc (u_password_hash row) password = None"
    and "argon2_documented a" "length salt = saltLength" "0 < cpus"
  defines "who \<equiv> \<lparr>user_id = u_id row, user_email = u_email row, user_name = u_name row,
      user_timezone = u_timezone row, user_role = u_role row\<rparr>"
  shows "\<exists>d'. check_credentials pg_user_store a cpus nfkc decoy (Some salt) email password d
        = ((Inr who, Some (u_password_hash row)), d')
    \<and> (case hash_password a nfkc (Some salt) password of
         Inl e \<Rightarrow> d' = d
       | Inr h \<Rightarrow>
         if \<not> needs_rehash a cpus (u_password_hash row) then d' = d
         else d' = d\<lparr>users := update_rows (\<lambda>u. u_id u = u_id row \<and> u_password_hash u = u_password_hash row
                  \<and> u_deleted_at u = None) (with_new_hash (pg_now d) h) (users d)\<rparr>
           \<and> \<not> needs_rehash a cpus h
           \<and> check_credentials pg_user_store a cpus nfkc decoy any_salt email password d'
             = ((Inr who, Some h), d'))"
proof -
  let ?d = "rehash pg_user_store a cpus nfkc (Some salt) (u_id row) (u_password_hash row) password d"
  note ok = pg_users.right_password [OF assms(1,2,4), where decoy = decoy and salt = "Some salt"]
  show ?thesis
  proof (cases "hash_password a nfkc (Some salt) password")
    case (Inl e)
    with ok show ?thesis by (simp add: rehash_def who_def)
  next
    case (Inr h)
    let ?P = "\<lambda>u. u_id u = u_id row \<and> u_password_hash u = u_password_hash row \<and> u_deleted_at u = None"
    let ?d' = "d\<lparr>users := update_rows ?P (with_new_hash (pg_now d) h) (users d)\<rparr>"
    note fresh = verify_fresh [OF Inr assms(5-7)]
    have live: "u_deleted_at row = None"
      using pg_account_in [OF assms(2)] by (simp add: users_live_def)
    have "pg_account ?d' email = Some (with_new_hash (pg_now d) h row)"
      using live by (subst pg_account_update) (simp_all add: with_new_hash_def assms(2))
    moreover have "verify_password a cpus nfkc (u_password_hash (with_new_hash (pg_now d) h row)) password = None"
      using fresh(1) [of password] Inr by (simp add: with_new_hash_def hash_password_Inr)
    ultimately have "check_credentials pg_user_store a cpus nfkc decoy any_salt email password ?d'
        = ((Inr who, Some h), ?d')"
      using pg_users.right_password [of ?d' email "with_new_hash (pg_now d) h row" a cpus nfkc password decoy any_salt]
        assms(1) fresh(2)
      by (simp add: who_def with_new_hash_def rehash_def)
    with ok Inr fresh(2) show ?thesis
      by (simp add: rehash_def update_hash_state [OF assms(1,3)] who_def)
  qed
qed

text \<open>An account whose hash was made at a quarter of the memory.\<close>

definition sample_old_key :: "byte list" where
  "sample_old_key = id_key sample_argon2 (to_bytes ''correct horse'') (replicate 16 1) 2 4096 1 32"

lemma length_sample_old_key: "length sample_old_key = 32"
  using sample_argon2_documented by (simp add: sample_old_key_def argon2_documented_def)

definition sample_old_hash :: string where
  "sample_old_hash = encode_hash 19 4096 2 1 (replicate 16 1) sample_old_key"

lemma sample_old_decoded:
  "decode_hash sample_argon2 4 sample_old_hash = Inr (4096, 2, 1, replicate 16 1, sample_old_key)"
proof -
  have "hash_in_bounds 4 4096 2 1 (replicate 16 1) sample_old_key"
    by (simp add: hash_in_bounds_def password_consts length_sample_old_key)
  from decode_encode [OF this, of sample_argon2] show ?thesis
    by (simp add: sample_old_hash_def) (simp add: sample_argon2_def)
qed

lemma login_upgrades_hash_witness:
  "\<exists>d' h. check_credentials pg_user_store sample_argon2 4 id ''decoy'' (Some (replicate 16 1)) ''ana@example.com''
        ''correct horse'' (sample_accounts sample_old_hash)
      = ((Inr \<lparr>user_id = ''u1'', user_email = ''ana@example.com'', user_name = ''Ana'',
           user_timezone = ''Asia/Jakarta'', user_role = ''viewer''\<rparr>, Some sample_old_hash), d')
    \<and> map u_password_hash (users d') = [h] \<and> \<not> needs_rehash sample_argon2 4 h"
proof -
  let ?d = "sample_accounts sample_old_hash"
  obtain h where h: "hash_password sample_argon2 id (Some (replicate 16 1)) ''correct horse'' = Inr h"
    using sample_hash by blast
  have "verify_password sample_argon2 4 id sample_old_hash ''correct horse'' = None"
    by (simp add: verify_password_def sample_old_decoded Let_def length_sample_old_key password_consts)
      (simp add: sample_old_key_def)
  then have ok: "verify_password sample_argon2 4 id (u_password_hash (sample_account sample_old_hash)) ''correct horse'' = None"
    by (simp add: sample_account_def)
  have old: "needs_rehash sample_argon2 4 sample_old_hash"
    by (simp add: needs_rehash_def sample_old_decoded argonMemoryKiB_def)
  note t = login_upgrades_hash [OF sample_accounts_facts(1,3,2) ok sample_argon2_documented, of "replicate 16 1" "''decoy''"]
  show ?thesis
    using t h old
    by (auto simp: saltLength_def sample_account_def sample_accounts_def update_rows_def with_new_hash_def)
qed

end
