(* ===== verification/Invitations.thy ===== *)
theory Invitations
  imports Credentials Domain Authz
begin

text \<open>
  Invitations: \<open>backend/internal/modules/identity/service/invitation.go\<close>.  The interfaces
  \<open>TxStore\<close> and \<open>InTx\<close> are the record \<open>tx_store\<close> and an argument; the \<open>Sender\<close> is the function
  \<open>deliver\<close>, with its error; \<open>parse_address\<close> is \<open>net/mail.ParseAddress\<close> (its \<open>Address\<close> field) and
  \<open>join_path\<close> the link \<open>net/url\<close> makes of the base address.  What is written to the log is left out.
\<close>

subsection \<open>The interfaces\<close>

record 's tx_store =
  tx_create_invitation :: "string \<Rightarrow> byte list \<Rightarrow> string \<Rightarrow> string \<Rightarrow> time \<Rightarrow> 's \<Rightarrow> (db_error + invitation_row) \<times> 's"
  tx_expire_open_invitations :: "string \<Rightarrow> 's \<Rightarrow> (db_error + int) \<times> 's"
  tx_get_user_by_email :: "string \<Rightarrow> 's \<Rightarrow> (db_error + user_row) \<times> 's"
  tx_get_invitation :: "byte list \<Rightarrow> 's \<Rightarrow> (db_error + invitation_row) \<times> 's"
  tx_accept_invitation :: "string \<Rightarrow> 's \<Rightarrow> (db_error + int) \<times> 's"
  tx_create_user :: "string \<Rightarrow> string \<Rightarrow> string \<Rightarrow> string \<Rightarrow> 's \<Rightarrow> (db_error + user_row) \<times> 's"
  tx_expire_open_resets :: "string \<Rightarrow> 's \<Rightarrow> (db_error + int) \<times> 's"
  tx_create_reset :: "string \<Rightarrow> byte list \<Rightarrow> time \<Rightarrow> 's \<Rightarrow> (db_error + reset_row) \<times> 's"
  tx_get_reset :: "byte list \<Rightarrow> 's \<Rightarrow> (db_error + reset_row) \<times> 's"
  tx_use_reset :: "string \<Rightarrow> 's \<Rightarrow> (db_error + int) \<times> 's"
  tx_set_password_hash :: "string \<Rightarrow> string \<Rightarrow> 's \<Rightarrow> (db_error + user_row) \<times> 's"
  tx_delete_all_sessions :: "string \<Rightarrow> 's \<Rightarrow> (db_error + int) \<times> 's"

definition pg_tx_store :: "pg tx_store" where
  "pg_tx_store =
     \<lparr>tx_create_invitation = create_invitation,
      tx_expire_open_invitations = expire_open_invitations_for_email,
      tx_get_user_by_email = get_user_by_email,
      tx_get_invitation = get_invitation_by_token_hash,
      tx_accept_invitation = accept_invitation,
      tx_create_user = create_user,
      tx_expire_open_resets = expire_open_password_resets_for_user,
      tx_create_reset = create_password_reset,
      tx_get_reset = get_password_reset_by_token_hash,
      tx_use_reset = use_password_reset,
      tx_set_password_hash = set_user_password_hash,
      tx_delete_all_sessions = delete_all_sessions_for_user\<rparr>"

lemma tx_store_ops [simp]:
  "tx_create_invitation pg_tx_store = create_invitation"
  "tx_expire_open_invitations pg_tx_store = expire_open_invitations_for_email"
  "tx_get_user_by_email pg_tx_store = get_user_by_email"
  "tx_get_invitation pg_tx_store = get_invitation_by_token_hash"
  "tx_accept_invitation pg_tx_store = accept_invitation"
  "tx_create_user pg_tx_store = create_user"
  "tx_expire_open_resets pg_tx_store = expire_open_password_resets_for_user"
  "tx_create_reset pg_tx_store = create_password_reset"
  "tx_get_reset pg_tx_store = get_password_reset_by_token_hash"
  "tx_use_reset pg_tx_store = use_password_reset"
  "tx_set_password_hash pg_tx_store = set_user_password_hash"
  "tx_delete_all_sessions pg_tx_store = delete_all_sessions_for_user"
  by (simp_all add: pg_tx_store_def)

record mail_message =
  m_to :: string
  m_subject :: string
  m_text :: string

datatype email_error = EmptyEmail | LongEmail | NotAnAddress | NotBareAddress
datatype name_error = EmptyName | LongName
datatype role_error = UnknownRole authz_error | OwnerRole

text \<open>What is answered when the message could not be sent is answered beside the error.\<close>

record invited =
  inv_id :: string
  inv_email :: string
  inv_role :: string
  inv_expires_at :: time

datatype 'e invitations_error =
  ErrInvalidEmail email_error
  | ErrRoleNotInvitable role_error
  | ErrEmailTaken
  | ErrInvitationNotUsable
  | ErrInvalidName name_error
  | ErrUndeliverable invited 'e
  | NewInvitationToken token_error
  | PasswordRefused password_error
  | LookUpAccount db_error
  | SupersedeOpenInvitations db_error
  | CreateInvitation db_error
  | GetInvitation db_error
  | AcceptInvitation db_error
  | CreateUser db_error
  | BeginTx db_error
  | CommitTx db_error

definition maxEmailLength :: nat where "maxEmailLength = 254"
definition maxNameLength :: nat where "maxNameLength = 200"

subsection \<open>What the caller sends\<close>

definition normalize_email :: "(string \<Rightarrow> string option) \<Rightarrow> string \<Rightarrow> email_error + string" where
  "normalize_email parse_address email =
     (let address = trim_space email in
      if address = [] then Inl EmptyEmail
      else if length address > maxEmailLength then Inl LongEmail
      else case parse_address address of
          None \<Rightarrow> Inl NotAnAddress
        | Some parsed \<Rightarrow> if parsed \<noteq> address then Inl NotBareAddress else Inr address)"

definition normalize_name :: "string \<Rightarrow> name_error + string" where
  "normalize_name name =
     (let full = trim_space name in
      if full = [] then Inl EmptyName
      else if rune_count full > maxNameLength then Inl LongName
      else Inr full)"

definition check_invitable :: "string \<Rightarrow> role_error option" where
  "check_invitable role =
     (case parse_role role of
        (_, Some e) \<Rightarrow> Some (UnknownRole e)
      | (parsed, None) \<Rightarrow> if parsed = RoleOwner then Some OwnerRole else None)"

definition is_unique_violation :: "db_error \<Rightarrow> bool" where
  "is_unique_violation e = (case e of UniqueViolation _ \<Rightarrow> True | _ \<Rightarrow> False)"

definition join_lines :: "string list \<Rightarrow> string" where
  "join_lines ls = (case ls of [] \<Rightarrow> [] | l # rest \<Rightarrow> l @ concat (map (\<lambda>x. CHR 0x0A # x) rest))"

definition invitation_message :: "(string \<Rightarrow> string \<Rightarrow> string) \<Rightarrow> string \<Rightarrow> string \<Rightarrow> mail_message" where
  "invitation_message join_path address token =
     (let link = join_path ''invite'' token in
      \<lparr>m_to = address,
       m_subject = ''Anda diundang ke Project Management'',
       m_text = join_lines
         [''Halo,'', '''',
          ''Akun Anda sudah disiapkan. Buka tautan di bawah untuk memilih sandi:'', '''',
          link, '''',
          ''Tautan ini berlaku '' @ dec_string (nat (InvitationWindow div hour div 24))
            @ '' hari dan hanya bisa dipakai sekali.'',
          ''Kalau Anda tidak mengharapkan undangan ini, abaikan saja pesannya.'']\<rparr>)"

subsection \<open>Inviting\<close>

definition create_body ::
  "'s tx_store \<Rightarrow> string \<Rightarrow> byte list \<Rightarrow> string \<Rightarrow> string \<Rightarrow> time \<Rightarrow> 's
    \<Rightarrow> ('e invitations_error + invitation_row) \<times> 's" where
  "create_body st address digest invited_by role now s =
     (case tx_get_user_by_email st address s of
        (Inr _, s1) \<Rightarrow> (Inl ErrEmailTaken, s1)
      | (Inl e, s1) \<Rightarrow>
        if e \<noteq> NoRows then (Inl (LookUpAccount e), s1)
        else case tx_expire_open_invitations st address s1 of
          (Inl e, s2) \<Rightarrow> (Inl (SupersedeOpenInvitations e), s2)
        | (Inr _, s2) \<Rightarrow>
          (case tx_create_invitation st address digest invited_by role (new_invitation_expiry now) s2 of
             (Inl e, s3) \<Rightarrow> (Inl (CreateInvitation e), s3)
           | (Inr created, s3) \<Rightarrow> (Inr created, s3)))"

text \<open>What a transaction returns: the body's own error is passed on as it is.\<close>

definition tx_outcome :: "(db_error \<Rightarrow> 'e) \<Rightarrow> (db_error \<Rightarrow> 'e) \<Rightarrow> 'e tx_error + 'a \<Rightarrow> 'e + 'a" where
  "tx_outcome begin_error commit_error r =
     (case r of
        Inl (Begin e) \<Rightarrow> Inl (begin_error e)
      | Inl (Body e) \<Rightarrow> Inl e
      | Inl (Commit e) \<Rightarrow> Inl (commit_error e)
      | Inr a \<Rightarrow> Inr a)"

text \<open>The answer, the message handed to the sender if there was one, and the state.\<close>

definition create_invited ::
  "(('s \<Rightarrow> ('e invitations_error + invitation_row) \<times> 's)
      \<Rightarrow> 's \<Rightarrow> ('e invitations_error tx_error + invitation_row) \<times> 's)
    \<Rightarrow> 's tx_store \<Rightarrow> (byte list \<Rightarrow> byte list) \<Rightarrow> (string \<Rightarrow> string option) \<Rightarrow> (string \<Rightarrow> string \<Rightarrow> string)
    \<Rightarrow> (mail_message \<Rightarrow> 'e option) \<Rightarrow> byte list option \<Rightarrow> time \<Rightarrow> string \<Rightarrow> string \<Rightarrow> string \<Rightarrow> 's
    \<Rightarrow> (('e invitations_error + invited) \<times> mail_message option) \<times> 's" where
  "create_invited tx st sha parse_address join_path deliver random now invited_by email role s =
     (case normalize_email parse_address email of
        Inl e \<Rightarrow> ((Inl (ErrInvalidEmail e), None), s)
      | Inr address \<Rightarrow>
        (case check_invitable role of
           Some e \<Rightarrow> ((Inl (ErrRoleNotInvitable e), None), s)
         | None \<Rightarrow>
           (case new_invitation_token sha random of
              Inl e \<Rightarrow> ((Inl (NewInvitationToken e), None), s)
            | Inr (token, digest) \<Rightarrow>
              (let (r, s') = tx (create_body st address digest invited_by role now) s in
               case tx_outcome BeginTx CommitTx r of
                 Inl e \<Rightarrow> ((Inl e, None), s')
               | Inr created \<Rightarrow>
                 let answer = \<lparr>inv_id = in_id created, inv_email = in_email created,
                                inv_role = in_role created, inv_expires_at = in_expires_at created\<rparr>;
                     message = invitation_message join_path address token
                 in (case deliver message of
                       Some e \<Rightarrow> ((Inl (ErrUndeliverable answer e), Some message), s')
                     | None \<Rightarrow> ((Inr answer, Some message), s'))))))"

subsection \<open>Redeeming\<close>

definition invitation_of :: "invitation_row \<Rightarrow> invitation" where
  "invitation_of row =
     \<lparr>i_id = in_id row, i_email = in_email row, i_role = in_role row, i_invited_by = in_invited_by row,
      i_created_at = in_created_at row, i_expires_at = in_expires_at row,
      i_accepted_at = in_accepted_at row\<rparr>"

definition accept_body ::
  "'s tx_store \<Rightarrow> byte list \<Rightarrow> string \<Rightarrow> string \<Rightarrow> time \<Rightarrow> 's
    \<Rightarrow> ('e invitations_error + user_row) \<times> 's" where
  "accept_body st digest full_name hash now s =
     (case tx_get_invitation st digest s of
        (Inl e, s1) \<Rightarrow> (Inl (if e = NoRows then ErrInvitationNotUsable else GetInvitation e), s1)
      | (Inr row, s1) \<Rightarrow>
        let invitation = invitation_of row in
        if \<not> invitation_is_usable invitation now then (Inl ErrInvitationNotUsable, s1)
        else case tx_accept_invitation st (i_id invitation) s1 of
          (Inl e, s2) \<Rightarrow> (Inl (AcceptInvitation e), s2)
        | (Inr stamped, s2) \<Rightarrow>
          if stamped = 0 then (Inl ErrInvitationNotUsable, s2)
          else case tx_create_user st (i_email invitation) full_name hash (i_role invitation) s2 of
            (Inl e, s3) \<Rightarrow> (Inl (if is_unique_violation e then ErrEmailTaken else CreateUser e), s3)
          | (Inr created, s3) \<Rightarrow> (Inr created, s3))"

definition user_of :: "user_row \<Rightarrow> user" where
  "user_of row = \<lparr>user_id = u_id row, user_email = u_email row, user_name = u_name row,
     user_timezone = u_timezone row, user_role = u_role row\<rparr>"

definition accept_invited ::
  "(('s \<Rightarrow> ('e invitations_error + user_row) \<times> 's)
      \<Rightarrow> 's \<Rightarrow> ('e invitations_error tx_error + user_row) \<times> 's)
    \<Rightarrow> 's tx_store \<Rightarrow> (byte list \<Rightarrow> byte list) \<Rightarrow> argon2 \<Rightarrow> (string \<Rightarrow> string) \<Rightarrow> byte list option
    \<Rightarrow> time \<Rightarrow> string \<Rightarrow> string \<Rightarrow> string \<Rightarrow> 's \<Rightarrow> ('e invitations_error + user) \<times> 's" where
  "accept_invited tx st sha a nfkc salt now token name password s =
     (case invitation_token_digest sha token of
        Inl _ \<Rightarrow> (Inl ErrInvitationNotUsable, s)
      | Inr digest \<Rightarrow>
        (case normalize_name name of
           Inl e \<Rightarrow> (Inl (ErrInvalidName e), s)
         | Inr full_name \<Rightarrow>
           (case hash_password a nfkc salt password of
              Inl e \<Rightarrow> (Inl (PasswordRefused e), s)
            | Inr hash \<Rightarrow>
              (let (r, s') = tx (accept_body st digest full_name hash now) s in
               case tx_outcome BeginTx CommitTx r of
                 Inl e \<Rightarrow> (Inl e, s')
               | Inr created \<Rightarrow> (Inr (user_of created), s')))))"

end
