(* ===== verification/Password_Resets.thy ===== *)
theory Password_Resets
  imports Invitations Login_Guard
begin

text \<open>
  Password resets: \<open>backend/internal/modules/identity/service/passwordreset.go\<close>.  The \<open>Limiter\<close> is
  the function \<open>allow_account\<close> on the state \<open>'r\<close> of the rate limiter, which no transaction contains;
  the other parameters are those of the theory \<open>Invitations\<close>.  What is written to the log is left out.
\<close>

type_synonym ('e, 'r) limiter = "string \<Rightarrow> 'r \<Rightarrow> (bool \<times> duration \<times> 'e option) \<times> 'r"

datatype resets_error =
  InvalidResetEmail email_error
  | ErrTooManyResets
  | NewResetToken token_error
  | LookUpResetAccount db_error
  | SupersedeOpenResets db_error
  | CreateReset db_error
  | ErrPasswordResetNotUsable
  | NewPasswordRefused password_error
  | GetReset db_error
  | UseReset db_error
  | SetPassword db_error
  | RevokeSessions db_error
  | BeginResetTx db_error
  | CommitResetTx db_error

subsection \<open>Asking for a link\<close>

text \<open>A limiter that does not answer refuses.\<close>

definition reset_allowed ::
  "('e, 'r) limiter \<Rightarrow> (byte list \<Rightarrow> byte list) \<Rightarrow> (string \<Rightarrow> string) \<Rightarrow> string \<Rightarrow> 'r
    \<Rightarrow> (duration \<times> resets_error option) \<times> 'r" where
  "reset_allowed allow_account sha to_lower address r =
     (case allow_account (account_key sha to_lower address) r of
        ((ok, wait, Some e), r') \<Rightarrow> ((retryAfterUnavailable, Some ErrTooManyResets), r')
      | ((ok, wait, None), r') \<Rightarrow> (if \<not> ok then (wait, Some ErrTooManyResets) else (0, None), r'))"

definition em_dash :: string where "em_dash = [CHR 0xE2, CHR 0x80, CHR 0x94]"

definition reset_message :: "(string \<Rightarrow> string \<Rightarrow> string) \<Rightarrow> string \<Rightarrow> string \<Rightarrow> mail_message" where
  "reset_message join_path address token =
     (let link = join_path ''reset-password'' token in
      \<lparr>m_to = address,
       m_subject = ''Atur ulang sandi Project Management'',
       m_text = join_lines
         [''Halo,'', '''',
          ''Ada yang meminta pengaturan ulang sandi untuk akun ini. Buka tautan di bawah untuk memilih sandi baru:'', '''',
          link, '''',
          ''Tautan ini berlaku '' @ dec_string (nat (PasswordResetWindow div minute))
            @ '' menit dan hanya bisa dipakai sekali.'',
          ''Setelah sandi diganti, semua perangkat yang sedang masuk akan dikeluarkan.'', '''',
          ''Kalau Anda tidak meminta ini, abaikan saja pesannya '' @ em_dash @ '' sandi Anda tidak berubah.'']\<rparr>)"

text \<open>The body of the transaction answers the address to send to, empty when there is none.\<close>

definition request_body ::
  "'s tx_store \<Rightarrow> string \<Rightarrow> byte list \<Rightarrow> time \<Rightarrow> 's \<Rightarrow> (resets_error + string) \<times> 's" where
  "request_body st address digest now s =
     (case tx_get_user_by_email st address s of
        (Inl e, s1) \<Rightarrow> (if e = NoRows then Inr '''' else Inl (LookUpResetAccount e), s1)
      | (Inr user, s1) \<Rightarrow>
        (case tx_expire_open_resets st (u_id user) s1 of
           (Inl e, s2) \<Rightarrow> (Inl (SupersedeOpenResets e), s2)
         | (Inr _, s2) \<Rightarrow>
           (case tx_create_reset st (u_id user) digest (new_password_reset_expiry now) s2 of
              (Inl e, s3) \<Rightarrow> (Inl (CreateReset e), s3)
            | (Inr _, s3) \<Rightarrow> (Inr (u_email user), s3))))"

text \<open>The answer, the message handed to the sender if there was one, and both states.\<close>

definition request_reset ::
  "((('s \<Rightarrow> (resets_error + string) \<times> 's) \<Rightarrow> 's \<Rightarrow> (resets_error tx_error + string) \<times> 's))
    \<Rightarrow> 's tx_store \<Rightarrow> ('l, 'r) limiter \<Rightarrow> (byte list \<Rightarrow> byte list) \<Rightarrow> (string \<Rightarrow> string)
    \<Rightarrow> (string \<Rightarrow> string option) \<Rightarrow> (string \<Rightarrow> string \<Rightarrow> string) \<Rightarrow> (mail_message \<Rightarrow> 'e option)
    \<Rightarrow> byte list option \<Rightarrow> time \<Rightarrow> string \<Rightarrow> 'r \<Rightarrow> 's
    \<Rightarrow> (duration \<times> resets_error option) \<times> mail_message option \<times> 'r \<times> 's" where
  "request_reset tx st allow_account sha to_lower parse_address join_path deliver random now email r s =
     (case normalize_email parse_address email of
        Inl e \<Rightarrow> ((0, Some (InvalidResetEmail e)), None, r, s)
      | Inr address \<Rightarrow>
        (case reset_allowed allow_account sha to_lower address r of
           ((wait, Some e), r') \<Rightarrow> ((wait, Some e), None, r', s)
         | ((_, None), r') \<Rightarrow>
           (case new_password_reset_token sha random of
              Inl e \<Rightarrow> ((0, Some (NewResetToken e)), None, r', s)
            | Inr (token, digest) \<Rightarrow>
              (let (v, s') = tx (request_body st address digest now) s in
               case tx_outcome BeginResetTx CommitResetTx v of
                 Inl e \<Rightarrow> ((0, Some e), None, r', s')
               | Inr send_to \<Rightarrow>
                 if send_to = '''' then ((0, None), None, r', s')
                 else let message = reset_message join_path send_to token in
                      case deliver message of
                        Some e \<Rightarrow> ((0, None), Some message, r', s')
                      | None \<Rightarrow> ((0, None), Some message, r', s')))))"

subsection \<open>Choosing the new password\<close>

definition reset_of :: "reset_row \<Rightarrow> password_reset" where
  "reset_of row =
     \<lparr>r_id = pr_id row, r_user_id = pr_user_id row, r_used_at = pr_used_at row,
      r_created_at = pr_created_at row, r_expires_at = pr_expires_at row\<rparr>"

definition confirm_body ::
  "'s tx_store \<Rightarrow> byte list \<Rightarrow> string \<Rightarrow> time \<Rightarrow> 's \<Rightarrow> (resets_error + unit) \<times> 's" where
  "confirm_body st digest hash now s =
     (case tx_get_reset st digest s of
        (Inl e, s1) \<Rightarrow> (Inl (if e = NoRows then ErrPasswordResetNotUsable else GetReset e), s1)
      | (Inr row, s1) \<Rightarrow>
        let reset = reset_of row in
        if \<not> reset_is_usable reset now then (Inl ErrPasswordResetNotUsable, s1)
        else case tx_use_reset st (r_id reset) s1 of
          (Inl e, s2) \<Rightarrow> (Inl (UseReset e), s2)
        | (Inr stamped, s2) \<Rightarrow>
          if stamped = 0 then (Inl ErrPasswordResetNotUsable, s2)
          else case tx_set_password_hash st hash (r_user_id reset) s2 of
            (Inl e, s3) \<Rightarrow> (Inl (if e = NoRows then ErrPasswordResetNotUsable else SetPassword e), s3)
          | (Inr user, s3) \<Rightarrow>
            (case tx_delete_all_sessions st (u_id user) s3 of
               (Inl e, s4) \<Rightarrow> (Inl (RevokeSessions e), s4)
             | (Inr _, s4) \<Rightarrow> (Inr (), s4)))"

definition confirm_reset ::
  "(('s \<Rightarrow> (resets_error + unit) \<times> 's) \<Rightarrow> 's \<Rightarrow> (resets_error tx_error + unit) \<times> 's)
    \<Rightarrow> 's tx_store \<Rightarrow> (byte list \<Rightarrow> byte list) \<Rightarrow> argon2 \<Rightarrow> (string \<Rightarrow> string) \<Rightarrow> byte list option
    \<Rightarrow> time \<Rightarrow> string \<Rightarrow> string \<Rightarrow> 's \<Rightarrow> resets_error option \<times> 's" where
  "confirm_reset tx st sha a nfkc salt now token password s =
     (case password_reset_token_digest sha token of
        Inl _ \<Rightarrow> (Some ErrPasswordResetNotUsable, s)
      | Inr digest \<Rightarrow>
        (case hash_password a nfkc salt password of
           Inl e \<Rightarrow> (Some (NewPasswordRefused e), s)
         | Inr hash \<Rightarrow>
           (let (v, s') = tx (confirm_body st digest hash now) s in
            (case tx_outcome BeginResetTx CommitResetTx v of Inl e \<Rightarrow> Some e | Inr _ \<Rightarrow> None, s'))))"

end
