(* ===== verification/Api.thy ===== *)
theory Api
  imports Http Sessions Password_Resets
begin

text \<open>
  The whole interface: the handlers of \<open>backend/internal/modules/identity/handler\<close>, the routes and the
  session guard of \<open>route/route.go\<close>, and what \<open>cmd/api/main.go\<close> wires them to.  The state is the
  repository, Redis with what becomes of the next commands sent to it, and the messages handed to the
  mail server.  What is written to the log is left out.
\<close>

subsection \<open>The application\<close>

record 'r api_state =
  as_pg :: pg
  as_redis :: "'r redis_conn"
  as_mail :: "mail_message list"

text \<open>
  What the process is built from.  \<open>app_json\<close> is the decoding of a request body, cut off at a number of
  bytes, into a structure with the given string fields: \<open>None\<close> when it fails, and the empty string for
  a field that is missing.
\<close>

record 'r app =
  app_redis :: "'r redis"
  app_sha :: "byte list \<Rightarrow> byte list"
  app_argon2 :: argon2
  app_cpus :: nat
  app_nfkc :: "string \<Rightarrow> string"
  app_decoy :: string
  app_to_lower :: "string \<Rightarrow> string"
  app_parse_address :: "string \<Rightarrow> string option"
  app_join_path :: "string \<Rightarrow> string \<Rightarrow> string"
  app_deliver :: "mail_message \<Rightarrow> string option"
  app_scan_uuid :: "string \<Rightarrow> bool"
  app_trusted :: trusted_proxies
  app_parse_ip :: "string \<Rightarrow> ip_addr option"
  app_ip_text :: "ip_addr \<Rightarrow> string"
  app_json :: "nat \<Rightarrow> string list \<Rightarrow> string \<Rightarrow> (string \<Rightarrow> string) option"

record user_body =
  ub_id :: string
  ub_email :: string
  ub_name :: string
  ub_timezone :: string
  ub_role :: string

record session_body =
  sb_id :: string
  sb_user_agent :: string
  sb_created_at :: time
  sb_last_seen_at :: time
  sb_expires_at :: time
  sb_current :: bool

datatype api_body =
  MeBody user_body
  | LoginResponse user_body
  | SessionList "session_body list"
  | RevokedResponse int
  | InvitationBody string string string time
  | AcceptResponse user_body
  | HealthBody
  | ReadyBody ready_response

type_synonym api_request = "authenticated request"
type_synonym api_response = "api_body response"
type_synonym 'r api_handler = "(authenticated, api_body, 'r api_state) handler"

definition mail_of :: "mail_message option \<Rightarrow> mail_message list" where
  "mail_of sent = (case sent of None \<Rightarrow> [] | Some m \<Rightarrow> [m])"

subsection \<open>Cookies and field errors\<close>

definition SessionCookieName :: string where "SessionCookieName = ''__Host-session''"
definition maxLoginBody :: nat where "maxLoginBody = 4096"
definition maxInvitationBody :: nat where "maxInvitationBody = 4096"
definition maxAcceptBody :: nat where "maxAcceptBody = 8192"
definition maxPasswordResetBody :: nat where "maxPasswordResetBody = 4096"
definition unkeyableWait :: duration where "unkeyableWait = 30 * second"

definition session_cookie :: "string \<Rightarrow> time \<Rightarrow> set_cookie" where
  "session_cookie token expires =
     \<lparr>ck_name = SessionCookieName, ck_value = token, ck_path = ''/'', ck_expires = Some expires, ck_max_age = 0,
      ck_http_only = True, ck_secure = True, ck_lax = True\<rparr>"

definition cleared_session_cookie :: set_cookie where
  "cleared_session_cookie =
     \<lparr>ck_name = SessionCookieName, ck_value = '''', ck_path = ''/'', ck_expires = None, ck_max_age = -1,
      ck_http_only = True, ck_secure = True, ck_lax = True\<rparr>"

definition field_missing :: "(string \<Rightarrow> string) \<Rightarrow> string list \<Rightarrow> field_error list" where
  "field_missing f names =
     map (\<lambda>n. \<lparr>fe_field = n, fe_code = ''REQUIRED''\<rparr>) (filter (\<lambda>n. f n = '''') names)"

definition not_json :: "api_request \<Rightarrow> api_response" where
  "not_json r = write_error r CodeValidationFailed ''Isi permintaan tidak bisa dibaca sebagai JSON.'' []"

definition invalid_field :: "api_request \<Rightarrow> string \<Rightarrow> string \<Rightarrow> string \<Rightarrow> api_response" where
  "invalid_field r message field code =
     write_error r CodeValidationFailed message [\<lparr>fe_field = field, fe_code = code\<rparr>]"

subsection \<open>Signing in and out (\<open>handler/auth.go\<close>)\<close>

definition body_of :: "user \<Rightarrow> user_body" where
  "body_of u = \<lparr>ub_id = user_id u, ub_email = user_email u, ub_name = user_name u,
     ub_timezone = user_timezone u, ub_role = user_role u\<rparr>"

definition attempt_from :: "'r app \<Rightarrow> api_request \<Rightarrow> string \<Rightarrow> login_attempt option" where
  "attempt_from app r email =
     (case client_ip (app_parse_ip app) (app_trusted app) (rq_remote_addr r) (header_values r ''X-Forwarded-For'') of
        None \<Rightarrow> None
      | Some addr \<Rightarrow> Some \<lparr>la_email = email, la_address = rate_limit_key (app_ip_text app) addr,
                         la_network = rate_limit_prefix_key (app_ip_text app) addr\<rparr>)"

definition user_agent :: "api_request \<Rightarrow> string" where
  "user_agent r = header_get r ''User-Agent''"

definition login :: "'r app \<Rightarrow> 'r api_handler" where
  "login app dr r s =
     (case app_json app maxLoginBody [''email'', ''password''] (rq_body r) of
        None \<Rightarrow> (not_json r, s)
      | Some f \<Rightarrow>
        let missing = field_missing f [''email'', ''password'']; email = f ''email'' in
        if missing \<noteq> [] then (write_error r CodeValidationFailed ''Email dan password wajib diisi.'' missing, s)
        else case attempt_from app r email of
          None \<Rightarrow> (write_rate_limited r unkeyableWait, s)
        | Some attempt \<Rightarrow>
          let guard = new_login_guard (app_redis app) DefaultLoginLimits in
          (case guard_check (app_sha app) (app_to_lower app) guard attempt (as_redis s) of
             ((retry_after, Some _), c) \<Rightarrow> (write_rate_limited r retry_after, s\<lparr>as_redis := c\<rparr>)
           | ((_, None), c) \<Rightarrow>
             (case check_credentials pg_user_store (app_argon2 app) (app_cpus app) (app_nfkc app) (app_decoy app)
                     (dr_salt dr) email (f ''password'') (as_pg s) of
                ((Inl e, _), d) \<Rightarrow>
                  if e = ErrInvalidCredentials
                  then (write_error r CodeUnauthenticated ''Email atau password salah.'' [],
                        s\<lparr>as_pg := d, as_redis := guard_record (app_sha app) (app_to_lower app) guard attempt c\<rparr>)
                  else (write_internal_error r, s\<lparr>as_pg := d, as_redis := c\<rparr>)
              | ((Inr user, _), d) \<Rightarrow>
                let c' = guard_succeeded (app_sha app) (app_to_lower app) guard attempt c in
                (case issue pg_session_store (app_sha app) (dr_token dr) (dr_now dr) (user_id user) (user_agent r) d of
                   (Inl _, d') \<Rightarrow> (write_internal_error r, s\<lparr>as_pg := d', as_redis := c'\<rparr>)
                 | (Inr (token, session), d') \<Rightarrow>
                   (add_cookies [session_cookie token (s_expires_at session)] (write_json 200 (LoginResponse (body_of user))),
                    s\<lparr>as_pg := d', as_redis := c'\<rparr>)))))"

definition logout :: "'r app \<Rightarrow> 'r api_handler" where
  "logout app dr r s =
     (let signed_out = add_cookies [cleared_session_cookie] (empty_response 204) in
      case request_cookie r SessionCookieName of
        None \<Rightarrow> (signed_out, s)
      | Some v \<Rightarrow>
        (case revoke pg_session_store (app_sha app) v (as_pg s) of
           (Some _, d) \<Rightarrow> (write_internal_error r, s\<lparr>as_pg := d\<rparr>)
         | (None, d) \<Rightarrow> (signed_out, s\<lparr>as_pg := d\<rparr>)))"

subsection \<open>The caller's account and sessions (\<open>handler/caller.go\<close>, \<open>handler/sessions.go\<close>)\<close>

definition me :: "'r api_handler" where
  "me dr r s =
     (case rq_caller r of
        None \<Rightarrow> (write_internal_error r, s)
      | Some who \<Rightarrow>
        (write_json 200 (MeBody \<lparr>ub_id = au_user_id who, ub_email = au_email who, ub_name = au_name who,
           ub_timezone = au_timezone who, ub_role = au_role who\<rparr>), s))"

definition list_own_sessions :: "'r api_handler" where
  "list_own_sessions dr r s =
     (case rq_caller r of
        None \<Rightarrow> (write_internal_error r, s)
      | Some who \<Rightarrow>
        (case list_sessions pg_session_store (au_user_id who) (au_session_id who) (as_pg s) of
           (Inl _, d) \<Rightarrow> (write_internal_error r, s\<lparr>as_pg := d\<rparr>)
         | (Inr rows, d) \<Rightarrow>
           (write_json 200 (SessionList (map (\<lambda>m. \<lparr>sb_id = sm_id m, sb_user_agent = sm_user_agent m,
              sb_created_at = sm_created_at m, sb_last_seen_at = sm_last_seen_at m,
              sb_expires_at = sm_expires_at m, sb_current = sm_current m\<rparr>) rows)),
            s\<lparr>as_pg := d\<rparr>)))"

definition revoke_session :: "'r app \<Rightarrow> string \<Rightarrow> 'r api_handler" where
  "revoke_session app path_id dr r s =
     (case rq_caller r of
        None \<Rightarrow> (write_internal_error r, s)
      | Some who \<Rightarrow>
        (case revoke_by_id pg_session_store (app_scan_uuid app) (au_user_id who) path_id (as_pg s) of
           (Some e, d) \<Rightarrow>
             if e = ErrSessionNotFound then (write_error r CodeNotFound ''Sesi tidak ditemukan.'' [], s\<lparr>as_pg := d\<rparr>)
             else (write_internal_error r, s\<lparr>as_pg := d\<rparr>)
         | (None, d) \<Rightarrow>
             (add_cookies (if path_id = au_session_id who then [cleared_session_cookie] else []) (empty_response 204),
              s\<lparr>as_pg := d\<rparr>)))"

definition revoke_other_sessions :: "'r app \<Rightarrow> 'r api_handler" where
  "revoke_other_sessions app dr r s =
     (case rq_caller r of
        None \<Rightarrow> (write_internal_error r, s)
      | Some who \<Rightarrow>
        (case revoke_others pg_session_store (app_scan_uuid app) (au_user_id who) (au_session_id who) (as_pg s) of
           (Inl _, d) \<Rightarrow> (write_internal_error r, s\<lparr>as_pg := d\<rparr>)
         | (Inr n, d) \<Rightarrow> (write_json 200 (RevokedResponse n), s\<lparr>as_pg := d\<rparr>)))"

subsection \<open>Inviting and redeeming (\<open>handler/invitations.go\<close>)\<close>

definition write_create_error :: "api_request \<Rightarrow> string invitations_error \<Rightarrow> api_response" where
  "write_create_error r e =
     (case e of
        ErrInvalidEmail _ \<Rightarrow> invalid_field r ''Alamat email tidak valid.'' ''email'' ''INVALID''
      | ErrRoleNotInvitable _ \<Rightarrow> invalid_field r ''Peran itu tidak bisa diundang.'' ''role'' ''INVALID''
      | ErrEmailTaken \<Rightarrow> write_error r CodeConflict
          ''Alamat itu sudah punya akun. Tambahkan orangnya langsung ke folder atau project.'' []
      | ErrUndeliverable _ _ \<Rightarrow> write_error r CodeInternal
          ''Undangan tercatat tapi emailnya gagal dikirim. Undang ulang untuk mengirim tautan baru.'' []
      | _ \<Rightarrow> write_internal_error r)"

definition create_invitation_handler :: "'r app \<Rightarrow> 'r api_handler" where
  "create_invitation_handler app dr r s =
     (case rq_caller r of
        None \<Rightarrow> (write_internal_error r, s)
      | Some who \<Rightarrow>
        (let (role, e) = parse_role (au_role who) in
         if e \<noteq> None \<or> \<not> can \<lparr>caller_user = au_user_id who, caller_role = role\<rparr> ActionUserInvite
         then (write_error r CodeForbidden ''Hanya owner yang bisa mengundang pengguna.'' [], s)
         else case app_json app maxInvitationBody [''email'', ''role''] (rq_body r) of
             None \<Rightarrow> (not_json r, s)
           | Some f \<Rightarrow>
             let missing = field_missing f [''email'', ''role''] in
             if missing \<noteq> [] then (write_error r CodeValidationFailed ''Email dan peran wajib diisi.'' missing, s)
             else case create_invited in_tx pg_tx_store (app_sha app) (app_parse_address app) (app_join_path app)
                         (app_deliver app) (dr_token dr) (dr_later dr) (au_user_id who) (f ''email'') (f ''role'')
                         (as_pg s) of
                 ((Inl e, sent), d) \<Rightarrow>
                   (write_create_error r e, s\<lparr>as_pg := d, as_mail := as_mail s @ mail_of sent\<rparr>)
               | ((Inr invited, sent), d) \<Rightarrow>
                   (write_json 201 (InvitationBody (inv_id invited) (inv_email invited) (inv_role invited)
                      (inv_expires_at invited)),
                    s\<lparr>as_pg := d, as_mail := as_mail s @ mail_of sent\<rparr>)))"

text \<open>The rules of the password are answered as they are; two handlers share these answers.\<close>

definition password_answer :: "api_request \<Rightarrow> password_error \<Rightarrow> api_response" where
  "password_answer r e =
     (case e of
        ErrPasswordTooShort \<Rightarrow> invalid_field r (''Sandi minimal '' @ dec_string MinPasswordLength @ '' karakter.'')
          ''password'' ''TOO_SHORT''
      | ErrPasswordTooLong \<Rightarrow> invalid_field r (''Sandi maksimal '' @ dec_string MaxPasswordLength @ '' byte.'')
          ''password'' ''TOO_LONG''
      | _ \<Rightarrow> write_internal_error r)"

definition write_accept_error :: "api_request \<Rightarrow> string invitations_error \<Rightarrow> api_response" where
  "write_accept_error r e =
     (case e of
        ErrInvitationNotUsable \<Rightarrow> write_error r CodeNotFound
          ''Tautan undangan ini tidak berlaku. Minta undangan baru ke owner.'' []
      | PasswordRefused p \<Rightarrow> password_answer r p
      | ErrInvalidName _ \<Rightarrow> invalid_field r ''Nama tidak bisa disimpan.'' ''name'' ''INVALID''
      | ErrEmailTaken \<Rightarrow> write_error r CodeConflict ''Alamat pada undangan ini sudah punya akun. Silakan masuk.'' []
      | _ \<Rightarrow> write_internal_error r)"

definition accept_invitation_handler :: "'r app \<Rightarrow> 'r api_handler" where
  "accept_invitation_handler app dr r s =
     (case app_json app maxAcceptBody [''token'', ''name'', ''password''] (rq_body r) of
        None \<Rightarrow> (not_json r, s)
      | Some f \<Rightarrow>
        let missing = field_missing f [''token'', ''name'', ''password''] in
        if missing \<noteq> [] then (write_error r CodeValidationFailed ''Tautan, nama, dan sandi wajib diisi.'' missing, s)
        else case accept_invited in_tx pg_tx_store (app_sha app) (app_argon2 app) (app_nfkc app) (dr_salt dr) (dr_now dr)
                    (f ''token'') (f ''name'') (f ''password'') (as_pg s) of
            (Inl e, d) \<Rightarrow> (write_accept_error r e, s\<lparr>as_pg := d\<rparr>)
          | (Inr user, d) \<Rightarrow>
            (case issue pg_session_store (app_sha app) (dr_token dr) (dr_later dr) (user_id user) (user_agent r) d of
               (Inl _, d') \<Rightarrow> (write_internal_error r, s\<lparr>as_pg := d'\<rparr>)
             | (Inr (token, session), d') \<Rightarrow>
               (add_cookies [session_cookie token (s_expires_at session)] (write_json 201 (AcceptResponse (body_of user))),
                s\<lparr>as_pg := d'\<rparr>)))"

subsection \<open>Resetting a password (\<open>handler/passwordresets.go\<close>)\<close>

definition redis_limiter ::
  "'r redis \<Rightarrow> tier list \<Rightarrow> (string redis_error, 'r redis_conn) limiter" where
  "redis_limiter rd tiers key =
     (\<lambda>(r, ds). let (a, r') = allow rd tiers (next_delivery ds) key r
                in (a, (r', if tiers = [] then ds else tl ds)))"

definition reset_account_tiers :: "tier list" where
  "reset_account_tiers = [\<lparr>tier_limit = 3, tier_window = hour\<rparr>]"

definition write_request_error :: "api_request \<Rightarrow> duration \<Rightarrow> resets_error \<Rightarrow> api_response" where
  "write_request_error r retry_after e =
     (case e of
        ErrTooManyResets \<Rightarrow> write_rate_limited r retry_after
      | InvalidResetEmail _ \<Rightarrow> invalid_field r ''Alamat email tidak valid.'' ''email'' ''INVALID''
      | _ \<Rightarrow> write_internal_error r)"

definition request_reset_handler :: "'r app \<Rightarrow> 'r api_handler" where
  "request_reset_handler app dr r s =
     (case app_json app maxPasswordResetBody [''email''] (rq_body r) of
        None \<Rightarrow> (not_json r, s)
      | Some f \<Rightarrow>
        if f ''email'' = '''' then (invalid_field r ''Email wajib diisi.'' ''email'' ''REQUIRED'', s)
        else case request_reset in_tx pg_tx_store (redis_limiter (app_redis app) reset_account_tiers) (app_sha app)
                    (app_to_lower app) (app_parse_address app) (app_join_path app) (app_deliver app) (dr_token dr)
                    (dr_now dr) (f ''email'') (as_redis s) (as_pg s) of
            ((retry_after, Some e), sent, c, d) \<Rightarrow>
              (write_request_error r retry_after e, s\<lparr>as_pg := d, as_redis := c, as_mail := as_mail s @ mail_of sent\<rparr>)
          | ((_, None), sent, c, d) \<Rightarrow>
              (empty_response 202, s\<lparr>as_pg := d, as_redis := c, as_mail := as_mail s @ mail_of sent\<rparr>))"

definition write_confirm_error :: "api_request \<Rightarrow> resets_error \<Rightarrow> api_response" where
  "write_confirm_error r e =
     (case e of
        ErrPasswordResetNotUsable \<Rightarrow> write_error r CodeNotFound
          ''Tautan ini tidak berlaku. Minta tautan baru lewat halaman lupa sandi.'' []
      | NewPasswordRefused p \<Rightarrow> password_answer r p
      | _ \<Rightarrow> write_internal_error r)"

definition confirm_reset_handler :: "'r app \<Rightarrow> 'r api_handler" where
  "confirm_reset_handler app dr r s =
     (case app_json app maxPasswordResetBody [''token'', ''password''] (rq_body r) of
        None \<Rightarrow> (not_json r, s)
      | Some f \<Rightarrow>
        let missing = field_missing f [''token'', ''password''] in
        if missing \<noteq> [] then (write_error r CodeValidationFailed ''Tautan dan sandi baru wajib diisi.'' missing, s)
        else case confirm_reset in_tx pg_tx_store (app_sha app) (app_argon2 app) (app_nfkc app) (dr_salt dr) (dr_now dr)
                    (f ''token'') (f ''password'') (as_pg s) of
            (Some e, d) \<Rightarrow> (write_confirm_error r e, s\<lparr>as_pg := d\<rparr>)
          | (None, d) \<Rightarrow>
              (add_cookies [cleared_session_cookie] (empty_response 204), s\<lparr>as_pg := d\<rparr>))"

subsection \<open>The limits of the routes (\<open>cmd/api/main.go\<close>)\<close>

definition on_redis ::
  "('e, 'r redis_conn) limiter \<Rightarrow> string \<Rightarrow> 'r api_state \<Rightarrow> (bool \<times> duration \<times> 'e option) \<times> 'r api_state" where
  "on_redis limiter key s = (let (a, c) = limiter key (as_redis s) in (a, s\<lparr>as_redis := c\<rparr>))"

definition address_key :: "'r app \<Rightarrow> string \<Rightarrow> api_request \<Rightarrow> string" where
  "address_key app prefix r =
     (case client_ip (app_parse_ip app) (app_trusted app) (rq_remote_addr r) (header_values r ''X-Forwarded-For'') of
        None \<Rightarrow> prefix @ '':unkeyable''
      | Some addr \<Rightarrow> prefix @ '':'' @ rate_limit_key (app_ip_text app) addr)"

definition invite_limit :: "'r app \<Rightarrow> (authenticated, api_body, 'r api_state) middleware" where
  "invite_limit app = rate_limit
     (on_redis (redis_limiter (app_redis app)
        [\<lparr>tier_limit = 20, tier_window = hour\<rparr>, \<lparr>tier_limit = 100, tier_window = 24 * hour\<rparr>]))
     (\<lambda>r. case rq_caller r of None \<Rightarrow> '''' | Some who \<Rightarrow> ''invite:'' @ au_user_id who) FailOpen"

definition accept_limit :: "'r app \<Rightarrow> (authenticated, api_body, 'r api_state) middleware" where
  "accept_limit app = rate_limit
     (on_redis (redis_limiter (app_redis app)
        [\<lparr>tier_limit = 10, tier_window = 10 * minute\<rparr>, \<lparr>tier_limit = 50, tier_window = hour\<rparr>]))
     (address_key app ''accept'') FailClosed"

definition reset_request_limit :: "'r app \<Rightarrow> (authenticated, api_body, 'r api_state) middleware" where
  "reset_request_limit app = rate_limit
     (on_redis (redis_limiter (app_redis app) [\<lparr>tier_limit = 10, tier_window = hour\<rparr>]))
     (address_key app ''reset'') FailClosed"

definition reset_confirm_limit :: "'r app \<Rightarrow> (authenticated, api_body, 'r api_state) middleware" where
  "reset_confirm_limit app = rate_limit
     (on_redis (redis_limiter (app_redis app)
        [\<lparr>tier_limit = 10, tier_window = 10 * minute\<rparr>, \<lparr>tier_limit = 50, tier_window = hour\<rparr>]))
     (address_key app ''reset-confirm'') FailClosed"

subsection \<open>The session guard and the routes (\<open>route/route.go\<close>)\<close>

definition refuse :: "api_request \<Rightarrow> api_response" where
  "refuse r = write_error r CodeUnauthenticated ''Silakan masuk lebih dulu.'' []"

definition require_session :: "'r app \<Rightarrow> (authenticated, api_body, 'r api_state) middleware" where
  "require_session app next dr r s =
     (case request_cookie r SessionCookieName of
        None \<Rightarrow> (refuse r, s)
      | Some v \<Rightarrow>
        (case authenticate pg_session_store (app_sha app) (dr_now dr) v (as_pg s) of
           (Inl e, d) \<Rightarrow>
             if e = ErrUnauthenticated then (refuse r, s\<lparr>as_pg := d\<rparr>) else (write_internal_error r, s\<lparr>as_pg := d\<rparr>)
         | (Inr who, d) \<Rightarrow> next dr (r\<lparr>rq_caller := Some who\<rparr>) (s\<lparr>as_pg := d\<rparr>)))"

datatype route =
  PostLogin | PostLogout | GetMe | GetSessions | DeleteSessions | DeleteSessionId string
  | PostInvitations | PostAccept | PostReset | PostResetConfirm | GetHealthz | GetReadyz

text \<open>
  The patterns as \<open>http.ServeMux\<close> matches them: a pattern for \<open>GET\<close> also answers \<open>HEAD\<close>, and \<open>{id}\<close> is
  one segment that is not empty.
\<close>

definition route_of :: "string \<Rightarrow> string list \<Rightarrow> route option" where
  "route_of method path =
     (let get = (method = ''GET'' \<or> method = ''HEAD''); post = (method = ''POST''); delete = (method = ''DELETE'') in
      if post \<and> path = [''api'', ''v1'', ''auth'', ''login''] then Some PostLogin
      else if post \<and> path = [''api'', ''v1'', ''auth'', ''logout''] then Some PostLogout
      else if get \<and> path = [''api'', ''v1'', ''me''] then Some GetMe
      else if get \<and> path = [''api'', ''v1'', ''me'', ''sessions''] then Some GetSessions
      else if delete \<and> path = [''api'', ''v1'', ''me'', ''sessions''] then Some DeleteSessions
      else if delete \<and> length path = 5 \<and> take 4 path = [''api'', ''v1'', ''me'', ''sessions''] \<and> path ! 4 \<noteq> ''''
        then Some (DeleteSessionId (path ! 4))
      else if post \<and> path = [''api'', ''v1'', ''invitations''] then Some PostInvitations
      else if post \<and> path = [''api'', ''v1'', ''invitations'', ''accept''] then Some PostAccept
      else if post \<and> path = [''api'', ''v1'', ''auth'', ''password'', ''reset''] then Some PostReset
      else if post \<and> path = [''api'', ''v1'', ''auth'', ''password'', ''reset'', ''confirm''] then Some PostResetConfirm
      else if get \<and> path = [''healthz''] then Some GetHealthz
      else if get \<and> path = [''readyz''] then Some GetReadyz
      else None)"

text \<open>\<open>postgres\<close> is the only readiness check; \<open>answers\<close> is whether it answers in time.\<close>

definition serve_route :: "'r app \<Rightarrow> bool \<Rightarrow> route \<Rightarrow> 'r api_handler" where
  "serve_route app answers rt =
     (let guard = require_session app in
      case rt of
        PostLogin \<Rightarrow> login app
      | PostLogout \<Rightarrow> logout app
      | GetMe \<Rightarrow> guard me
      | GetSessions \<Rightarrow> guard list_own_sessions
      | DeleteSessions \<Rightarrow> guard (revoke_other_sessions app)
      | DeleteSessionId i \<Rightarrow> guard (revoke_session app i)
      | PostInvitations \<Rightarrow> guard (invite_limit app (create_invitation_handler app))
      | PostAccept \<Rightarrow> accept_limit app (accept_invitation_handler app)
      | PostReset \<Rightarrow> reset_request_limit app (request_reset_handler app)
      | PostResetConfirm \<Rightarrow> reset_confirm_limit app (confirm_reset_handler app)
      | GetHealthz \<Rightarrow> (\<lambda>dr r s. (write_json 200 HealthBody, s))
      | GetReadyz \<Rightarrow> (\<lambda>dr r s. let checks = [(''postgres'', answers)]
          in (write_json (ready_status checks) (ReadyBody (ready_body checks)), s)))"

text \<open>\<open>unmatched\<close> is the status \<open>ServeMux\<close> answers a request that no pattern matches with.\<close>

definition mux :: "'r app \<Rightarrow> bool \<Rightarrow> nat \<Rightarrow> 'r api_handler" where
  "mux app answers unmatched dr r s =
     (case route_of (rq_method r) (rq_segments r) of
        None \<Rightarrow> (empty_response unmatched, s)
      | Some rt \<Rightarrow> serve_route app answers rt dr r s)"

text \<open>The request log and the recovery from panics, which change no answer given here, are in \<open>Middleware\<close>.\<close>

definition api_handler :: "'r app \<Rightarrow> bool \<Rightarrow> nat \<Rightarrow> 'r api_handler" where
  "api_handler app answers unmatched = chain (mux app answers unmatched) [request_id, csrf (app_to_lower app)]"

end

