(* ===== verification/Transactions.thy ===== *)
theory Transactions
  imports Sessions
begin

text \<open>
  What a transaction can leave behind: nothing, or everything its body did.
\<close>

subsection \<open>Transactions\<close>

text \<open>All that may differ is which identifiers were taken and which faults are still to come.\<close>

definition untouched :: "pg \<Rightarrow> pg \<Rightarrow> bool" where
  "untouched d d' \<longleftrightarrow> (\<exists>n ds. d' = d\<lparr>uuid_count := n, deliveries := ds\<rparr>)"

lemma untouched_refl [simp]: "untouched d d"
proof -
  have "d = d\<lparr>uuid_count := uuid_count d, deliveries := deliveries d\<rparr>" by simp
  then show ?thesis unfolding untouched_def by metis
qed

lemma untouched_deliveries [simp]: "untouched d (d\<lparr>deliveries := xs\<rparr>)"
proof -
  have "d\<lparr>deliveries := xs\<rparr> = d\<lparr>uuid_count := uuid_count d, deliveries := xs\<rparr>" by simp
  then show ?thesis unfolding untouched_def by metis
qed

lemma untouched_trans: "untouched d d' \<Longrightarrow> untouched d' d'' \<Longrightarrow> untouched d d''"
  unfolding untouched_def by (elim exE, simp) (intro exI, rule refl)

lemma untouched_rolled_back [simp]: "untouched d (rolled_back d d')"
  by (auto simp: untouched_def rolled_back_def)

lemma untouched_fields:
  "untouched d d' \<Longrightarrow> users d' = users d \<and> sessions d' = sessions d \<and> invitations d' = invitations d \<and>
    resets d' = resets d \<and> pg_now d' = pg_now d \<and> pg_lower d' = pg_lower d \<and> to_uuid d' = to_uuid d \<and>
    new_uuid d' = new_uuid d"
  by (auto simp: untouched_def)

lemma untouched_ok:
  assumes "untouched d d'"
  shows "schema_ok d' \<longleftrightarrow> schema_ok d" "uuids_ok d' \<longleftrightarrow> uuids_ok d"
  using assms by (auto simp: untouched_def uuids_ok_def)

lemma statement_read:
  assumes "statement (\<lambda>d. (f d, d)) d = (r, d')"
  shows "untouched d d'"
  using assms by (cases rule: statement_cases [of "\<lambda>d. (f d, d)" d]) auto

text \<open>A transaction leaves no trace, or its body succeeded and everything it did is kept.\<close>

lemma in_tx_cases:
  assumes "in_tx body d = (r, d')"
  obtains (clean) e where "untouched d d'" "r = Inl e"
  | (kept) d0 a d1 ds where "untouched d d0" "body d0 = (Inr a, d1)" "d' = d1\<lparr>deliveries := ds\<rparr>"
      "r = Inr a \<or> (\<exists>e. r = Inl (Commit e))"
proof -
  obtain b d0 where bgn: "statement (\<lambda>d. (Inr (), d)) d = (b, d0)" by fastforce
  note d0 = statement_read [OF bgn]
  show ?thesis
  proof (cases b)
    case (Inl e)
    then have "in_tx body d = (Inl (Begin e), d0)" by (simp add: in_tx_def bgn)
    with assms d0 show ?thesis by (intro clean [of "Begin e"]) auto
  next
    case (Inr x)
    then have b: "b = Inr ()" by simp
    obtain v d1 where body: "body d0 = (v, d1)" by fastforce
    show ?thesis
    proof (cases v)
      case (Inl e)
      then have "in_tx body d = (Inl (Body e), rolled_back d0 d1)" by (simp add: in_tx_def bgn b body)
      with assms untouched_trans [OF d0 untouched_rolled_back] show ?thesis by (intro clean) auto
    next
      case v: (Inr a)
      note tx = in_tx_def bgn b body v
      consider "deliveries d1 = []" | e rest where "deliveries d1 = NotRun e # rest"
        | e rest where "deliveries d1 = ReplyLost e # rest" | rest where "deliveries d1 = Delivered # rest"
        by (metis delivery.exhaust list.exhaust)
      then show ?thesis
      proof cases
        case 1
        then have "in_tx body d = (Inr a, d1\<lparr>deliveries := []\<rparr>)" by (simp add: tx)
        with assms d0 body v show ?thesis by (intro kept [of d0 a d1 "[]"]) simp_all
      next
        case (2 e rest)
        then have "in_tx body d = (Inl (Commit (Unavailable e)), rolled_back d0 (d1\<lparr>deliveries := rest\<rparr>))"
          by (simp add: tx)
        with assms untouched_trans [OF d0 untouched_rolled_back] show ?thesis by (intro clean) auto
      next
        case (3 e rest)
        then have "in_tx body d = (Inl (Commit (Unavailable e)), d1\<lparr>deliveries := rest\<rparr>)" by (simp add: tx)
        with assms d0 body v show ?thesis by (intro kept [of d0 a d1 rest]) auto
      next
        case (4 rest)
        then have "in_tx body d = (Inr a, d1\<lparr>deliveries := rest\<rparr>)" by (simp add: tx)
        with assms d0 body v show ?thesis by (intro kept [of d0 a d1 rest]) auto
      qed
    qed
  qed
qed

lemma in_tx_ok: "deliveries d = [] \<Longrightarrow> body d = (Inr a, d') \<Longrightarrow> deliveries d' = [] \<Longrightarrow> in_tx body d = (Inr a, d')"
  by (simp add: in_tx_def)

lemma get_user_NoRows:
  assumes "get_user_by_email email d = (Inl NoRows, d')"
  shows "untouched d d' \<and> (\<forall>u \<in> set (users_live d). pg_lower d (u_email u) \<noteq> pg_lower d email)"
proof -
  from assms [unfolded get_user_by_email_def] obtain xs where
    "(find_row (\<lambda>u. pg_lower (d\<lparr>deliveries := xs\<rparr>) (u_email u) = pg_lower (d\<lparr>deliveries := xs\<rparr>) email)
       (users_live (d\<lparr>deliveries := xs\<rparr>)), d\<lparr>deliveries := xs\<rparr>) = (Inl NoRows, d')"
    by (rule statement_NoRows)
  then have "find_row (\<lambda>u. pg_lower d (u_email u) = pg_lower d email) (users_live d) = Inl NoRows"
    "d' = d\<lparr>deliveries := xs\<rparr>" by (simp_all add: users_live_def)
  then show ?thesis by (auto simp: find_row_NoRows)
qed

end
