(* ===== verification/Api_Invariants.thy ===== *)
theory Api_Invariants
  imports Api Transactions
begin

text \<open>
  What every request keeps of the repository.  A predicate on the repository that the statements keep
  is kept by every operation of the services, by every handler and by the whole application; the
  locales say which statements a predicate must be kept by.
\<close>

subsection \<open>Predicates that statements keep\<close>

definition handler_keeps :: "(pg \<Rightarrow> bool) \<Rightarrow> 'r api_handler \<Rightarrow> bool" where
  "handler_keeps I h \<longleftrightarrow> (\<forall>dr r s. I (as_pg s) \<longrightarrow> I (as_pg (snd (h dr r s))))"

lemma handler_keepsI: "(\<And>dr r s. I (as_pg s) \<Longrightarrow> I (as_pg (snd (h dr r s)))) \<Longrightarrow> handler_keeps I h"
  by (simp add: handler_keeps_def)

lemma handler_keepsD: "handler_keeps I h \<Longrightarrow> I (as_pg s) \<Longrightarrow> I (as_pg (snd (h dr r s)))"
  by (simp add: handler_keeps_def)

text \<open>The middleware that touches Redis only.\<close>

lemma on_redis_pg: "as_pg (snd (on_redis limiter key s)) = as_pg s"
  by (simp add: on_redis_def split: prod.split)

lemma rate_limit_keeps:
  assumes "handler_keeps I next_h"
  shows "handler_keeps I (rate_limit (on_redis limiter) key on_failure next_h)"
proof (rule handler_keepsI)
  fix dr r and s :: "'a api_state"
  assume s: "I (as_pg s)"
  obtain ok wait e s' where l: "on_redis limiter (key r) s = ((ok, wait, e), s')" by (metis prod.collapse)
  then have "as_pg s' = as_pg s" using on_redis_pg [of limiter "key r" s] by simp
  with s assms l show "I (as_pg (snd (rate_limit (on_redis limiter) key on_failure next_h dr r s)))"
    by (auto simp: rate_limit_def Let_def handler_keepsD split: option.split)
qed

lemma csrf_keeps:
  assumes "handler_keeps I next_h"
  shows "handler_keeps I (csrf low next_h)"
  using assms by (auto simp: csrf_def handler_keeps_def split: option.split prod.split) (metis snd_conv)+

locale statement_invariant =
  fixes I :: "pg \<Rightarrow> bool"
  assumes marks: "I (d\<lparr>deliveries := xs\<rparr>) \<longleftrightarrow> I d" "I (d\<lparr>uuid_count := n\<rparr>) \<longleftrightarrow> I d"
    and touch_session: "I d \<Longrightarrow> I (snd (touch_session e i d))"
    and delete_sessions: "I d \<Longrightarrow> I (snd (delete_sessions P d))"
    and update_hash: "I d \<Longrightarrow> I (snd (update_user_password_hash pw i pw' d))"
    and set_hash: "I d \<Longrightarrow> I (snd (set_user_password_hash pw i d))"
    and expire_invitations: "I d \<Longrightarrow> I (snd (expire_open_invitations_for_email email d))"
    and stamp_invitation: "I d \<Longrightarrow> I (snd (accept_invitation i d))"
    and expire_resets: "I d \<Longrightarrow> I (snd (expire_open_password_resets_for_user i d))"
    and create_reset: "I d \<Longrightarrow> I (snd (create_password_reset i h e d))"
    and stamp_reset: "I d \<Longrightarrow> I (snd (use_password_reset i d))"
begin

lemma statement: "(\<And>d. I d \<Longrightarrow> I (snd (f d))) \<Longrightarrow> I d \<Longrightarrow> I (snd (statement f d))"
  by (rule statement_keeps) (simp_all add: marks)

lemma reads:
  assumes "I d"
  shows "I (snd (get_user_by_email email d))" "I (snd (get_session_by_token_hash h d))"
    "I (snd (list_sessions_by_user i d))" "I (snd (get_invitation_by_token_hash h d))"
    "I (snd (get_password_reset_by_token_hash h d))"
  using assms
  by (auto simp: get_user_by_email_def get_session_by_token_hash_def list_sessions_by_user_def
      get_invitation_by_token_hash_def get_password_reset_by_token_hash_def
      intro!: statement with_uuid_keeps [where I = I])

lemma deletes:
  assumes "I d"
  shows "I (snd (delete_session_by_token_hash h d))" "I (snd (delete_session_for_user i u d))"
    "I (snd (delete_other_sessions_for_user u i d))" "I (snd (delete_all_sessions_for_user u d))"
  using assms
  by (auto simp: delete_session_by_token_hash_def delete_session_for_user_def delete_other_sessions_for_user_def
      delete_all_sessions_for_user_def intro!: statement with_uuid_keeps [where I = I] delete_sessions)

lemma in_tx_keeps:
  assumes "\<And>d. I d \<Longrightarrow> I (snd (body d))" "I d"
  shows "I (snd (in_tx body d))"
proof -
  obtain r d' where "in_tx body d = (r, d')" by fastforce
  then show ?thesis
  proof (cases rule: in_tx_cases)
    case (clean e)
    with assms(2) \<open>in_tx body d = (r, d')\<close> show ?thesis by (auto simp: untouched_def marks)
  next
    case (kept d0 a d1 ds)
    then have "I d0" using assms(2) by (auto simp: untouched_def marks)
    with assms(1) [of d0] kept \<open>in_tx body d = (r, d')\<close> show ?thesis by (simp add: marks)
  qed
qed

text \<open>The services.\<close>

lemma sessions_keep:
  assumes "I d"
  shows "I (snd (authenticate pg_session_store sha now token d))" "I (snd (revoke pg_session_store sha token d))"
    "I (snd (list_sessions pg_session_store uid sid d))" "I (snd (revoke_by_id pg_session_store scan uid sid d))"
    "I (snd (revoke_others pg_session_store scan uid sid d))"
proof -
  have "I d1" if "get_session_by_token_hash digest d = (v, d1)" for digest v d1
    using reads(2) [OF assms, of digest] that by simp
  then show "I (snd (authenticate pg_session_store sha now token d))"
    using assms
    by (auto simp: authenticate_def renew_def Let_def touch_session split: sum.split prod.split)
qed (use assms in \<open>simp_all add: service_states reads deletes split: sum.split prod.split\<close>)

lemma kept_by: "I (snd p) \<Longrightarrow> p = (v, d') \<Longrightarrow> I d'"
  by simp

lemma credentials_keep:
  assumes "I d"
  shows "I (snd (check_credentials pg_user_store a cpus nfkc decoy salt email password d))"
proof -
  obtain v d1 where get: "get_user_by_email email d = (v, d1)" by fastforce
  have d1: "I d1" by (rule kept_by [OF reads(1) [OF assms] get])
  then have "I (rehash pg_user_store a cpus nfkc salt uid h password d1)" for uid h
    by (auto simp: rehash_def pg_user_store_def update_hash split: sum.split)
  with d1 get show ?thesis
    by (auto simp: check_credentials_def pg_user_store_def split: sum.split option.split)
qed

lemma step_keeps:
  assumes "I (snd p)" "\<And>e d. I d \<Longrightarrow> I (snd (f e d))" "\<And>a d. I d \<Longrightarrow> I (snd (g a d))"
  shows "I (snd (case p of (Inl e, d) \<Rightarrow> f e d | (Inr a, d) \<Rightarrow> g a d))"
  using assms by (cases p) (auto split: sum.split)

lemma branch_keeps:
  "(c \<Longrightarrow> I (snd p)) \<Longrightarrow> (\<not> c \<Longrightarrow> I (snd q)) \<Longrightarrow> I (snd (if c then p else q))"
  by simp

lemma request_body_keeps: "I d \<Longrightarrow> I (snd (request_body pg_tx_store address digest now d))"
  unfolding request_body_def tx_store_ops
  by (intro step_keeps reads expire_resets create_reset) simp_all

lemma confirm_body_keeps: "I d \<Longrightarrow> I (snd (confirm_body pg_tx_store digest h now d))"
  unfolding confirm_body_def Let_def tx_store_ops
  by (intro step_keeps branch_keeps reads stamp_reset set_hash deletes) simp_all

lemma request_keeps:
  assumes "I d"
    "request_reset in_tx pg_tx_store limiter sha low parse join deliver random now email r d = (x, m, r', d')"
  shows "I d'"
proof (cases "d' = d")
  case False
  then obtain address token digest wait where ok: "normalize_email parse email = Inr address"
    "new_password_reset_token sha random = Inr (token, digest)"
    "reset_allowed limiter sha low address r = ((wait, None), r')"
    using assms(2) by (auto simp: request_reset_def Let_def split: sum.splits prod.splits option.splits if_splits)
  obtain v where tx: "in_tx (request_body pg_tx_store address digest now) d = (v, d')"
    using assms(2) ok by (auto simp: request_reset_def Let_def split: sum.splits prod.splits option.splits if_splits)
  show ?thesis by (rule kept_by [OF in_tx_keeps [OF request_body_keeps assms(1)] tx])
qed (use assms(1) in simp)

lemma confirm_keeps:
  assumes "I d"
  shows "I (snd (confirm_reset in_tx pg_tx_store sha a nfkc salt now token password d))"
proof -
  have "I d'" if "in_tx (confirm_body pg_tx_store digest h now) d = (v, d')" for digest h v d'
    by (rule kept_by [OF in_tx_keeps [OF confirm_body_keeps assms] that])
  then show ?thesis
    using assms by (auto simp: confirm_reset_def Let_def split: sum.split option.split prod.split)
qed

text \<open>The handlers that neither sign in nor invite nor redeem.\<close>

lemma handlers_keep:
  assumes "I (as_pg s)"
  shows "I (as_pg (snd (logout app dr r s)))" "I (as_pg (snd (me dr r s)))"
    "I (as_pg (snd (list_own_sessions dr r s)))" "I (as_pg (snd (revoke_session app i dr r s)))"
    "I (as_pg (snd (revoke_other_sessions app dr r s)))" "I (as_pg (snd (request_reset_handler app dr r s)))"
    "I (as_pg (snd (confirm_reset_handler app dr r s)))"
  using assms by (auto simp: logout_def me_def list_own_sessions_def revoke_session_def revoke_other_sessions_def
    request_reset_handler_def confirm_reset_handler_def Let_def split: option.split prod.split sum.split
    dest: kept_by [OF sessions_keep(2)] kept_by [OF sessions_keep(3)] kept_by [OF sessions_keep(4)]
      kept_by [OF sessions_keep(5)] kept_by [OF confirm_keeps] request_keeps)

lemma guard_keeps:
  assumes "handler_keeps I next_h"
  shows "handler_keeps I (require_session app next_h)"
proof (rule handler_keepsI)
  fix dr r and s :: "'a api_state"
  assume s: "I (as_pg s)"
  have "I d" if "authenticate pg_session_store sha now v (as_pg s) = (x, d)" for sha now v x d
    by (rule kept_by [OF sessions_keep(1) [OF s] that])
  then show "I (as_pg (snd (require_session app next_h dr r s)))"
    using s assms by (auto simp: require_session_def handler_keepsD split: option.split sum.split prod.split)
qed

lemma routes_keep:
  assumes "rt \<noteq> PostLogin" "rt \<noteq> PostInvitations" "rt \<noteq> PostAccept"
  shows "handler_keeps I (serve_route app answers rt)"
proof -
  have "handler_keeps I (logout app)" "handler_keeps I me"
    "handler_keeps I list_own_sessions" "\<And>i. handler_keeps I (revoke_session app i)"
    "handler_keeps I (revoke_other_sessions app)" "handler_keeps I (request_reset_handler app)"
    "handler_keeps I (confirm_reset_handler app)" "handler_keeps I (\<lambda>dr r s. (p r, s))"
    for p :: "api_request \<Rightarrow> api_response"
    by (rule handler_keepsI, simp add: handlers_keep)+
  note keeps = this
  show ?thesis
    using assms by (cases rt) (simp_all add: serve_route_def keeps guard_keeps rate_limit_keeps
        reset_request_limit_def reset_confirm_limit_def Let_def)
qed

end

text \<open>A predicate that signing in keeps too.\<close>

locale signing_in_invariant = statement_invariant +
  assumes create_session: "I d \<Longrightarrow> I (snd (create_session uid h agent e d))"
begin

lemma issue_keeps: "I d \<Longrightarrow> I (snd (issue pg_session_store sha random now uid agent d))"
  by (simp add: service_states create_session split: sum.split prod.split)

lemma login_keeps: "handler_keeps I (serve_route app answers PostLogin)"
proof -
  have "I (as_pg (snd (login app dr r s)))" if s: "I (as_pg s)" for dr r and s :: "'a api_state"
  proof -
    have c: "I d'" if "check_credentials pg_user_store a cpus nfkc decoy salt email password (as_pg s) = (v, d')"
      for a cpus nfkc decoy salt email password v d' by (rule kept_by [OF credentials_keep [OF s] that])
    have i: "I d'" if "issue pg_session_store sha random now uid agent d = (v, d')" "I d"
      for sha random now uid agent d v d' by (rule kept_by [OF issue_keeps [OF that(2)] that(1)])
    show ?thesis using s by (auto simp: login_def Let_def split: option.split prod.split sum.split dest: c i)
  qed
  then show ?thesis by (simp add: serve_route_def handler_keeps_def)
qed

end

text \<open>A predicate that inviting keeps too, one that redeeming keeps, and one that both keep.\<close>

locale inviting_invariant = statement_invariant +
  assumes create_invitation: "I d \<Longrightarrow> I (snd (create_invitation email h by_id role e d))"
begin

lemma create_body_keeps: "I d \<Longrightarrow> I (snd (create_body pg_tx_store address digest by_id role now d))"
  unfolding create_body_def tx_store_ops
  by (intro step_keeps branch_keeps reads expire_invitations create_invitation) simp_all

lemma create_invited_keeps:
  fixes deliver :: "mail_message \<Rightarrow> 'e option"
  assumes "I d"
    "create_invited in_tx pg_tx_store sha parse join deliver random now by_id email role d = (x, d')"
  shows "I d'"
proof (cases "d' = d")
  case False
  then obtain address token digest where ok: "normalize_email parse email = Inr address" "check_invitable role = None"
    "new_invitation_token sha random = Inr (token, digest)"
    using assms(2) by (auto simp: create_invited_def split: sum.splits option.splits prod.splits)
  obtain v :: "'e invitations_error tx_error + invitation_row" where tx: "in_tx (create_body pg_tx_store address digest by_id role now) d = (v, d')"
    using assms(2) ok by (auto simp: create_invited_def Let_def split: sum.splits option.splits prod.splits)
  show ?thesis by (rule kept_by [OF in_tx_keeps [OF create_body_keeps assms(1)] tx])
qed (use assms(1) in simp)

lemma inviting_keeps: "handler_keeps I (serve_route app answers PostInvitations)"
proof -
  have "handler_keeps I (create_invitation_handler app)"
    by (rule handler_keepsI)
      (auto simp: create_invitation_handler_def Let_def split: option.split prod.split sum.split
        dest: create_invited_keeps)
  then show ?thesis by (simp add: serve_route_def invite_limit_def guard_keeps rate_limit_keeps)
qed

end

locale joining_invariant = signing_in_invariant +
  assumes create_user: "I d \<Longrightarrow> I (snd (create_user email name pw role d))"
begin

lemma accept_body_keeps: "I d \<Longrightarrow> I (snd (accept_body pg_tx_store digest full h now d))"
  unfolding accept_body_def tx_store_ops Let_def
  by (intro step_keeps branch_keeps reads stamp_invitation create_user) simp_all

lemma accept_invited_keeps:
  assumes "I d"
  shows "I (snd (accept_invited in_tx pg_tx_store sha a nfkc salt now token name password d))"
proof -
  have "I d'" if "in_tx (accept_body pg_tx_store digest full h now) d = (v, d')" for digest full h v d'
    by (rule kept_by [OF in_tx_keeps [OF accept_body_keeps assms] that])
  then show ?thesis
    using assms by (auto simp: accept_invited_def Let_def split: sum.split prod.split)
qed

lemma joining_keeps: "handler_keeps I (serve_route app answers PostAccept)"
proof -
  have "handler_keeps I (accept_invitation_handler app)"
  proof (rule handler_keepsI)
    fix dr r and s :: "'a api_state"
    assume s: "I (as_pg s)"
    have a: "I d'" if "accept_invited in_tx pg_tx_store sha a nfkc salt now token name password (as_pg s)
        = (v :: string invitations_error + user, d')" for sha a nfkc salt now token name password v d'
      by (rule kept_by [OF accept_invited_keeps [OF s] that])
    have i: "I d'" if "issue pg_session_store sha random now uid agent d = (v, d')" "I d"
      for sha random now uid agent d v d' by (rule kept_by [OF issue_keeps [OF that(2)] that(1)])
    show "I (as_pg (snd (accept_invitation_handler app dr r s)))"
      using s by (auto simp: accept_invitation_handler_def Let_def split: option.split prod.split sum.split dest: a i)
  qed
  then show ?thesis by (simp add: serve_route_def accept_limit_def rate_limit_keeps)
qed

end

locale repository_invariant = inviting_invariant + joining_invariant
begin

lemma api_keeps:
  assumes "I (as_pg s)"
  shows "I (as_pg (snd (api_handler app answers unmatched dr r s)))"
proof -
  have "handler_keeps I (serve_route app answers rt)" for rt
    using routes_keep login_keeps inviting_keeps joining_keeps
    by (cases "rt \<in> {PostLogin, PostInvitations, PostAccept}") auto
  then have "handler_keeps I (mux app answers unmatched)"
    by (intro handler_keepsI) (simp add: mux_def handler_keepsD split: option.split)
  from handler_keepsD [OF csrf_keeps [OF this] assms] show ?thesis
    by (simp add: api_handler_def chain_def request_id_def Let_def split: prod.split) (metis snd_conv)
qed

end

subsection \<open>The schema, and identifiers in canonical spelling\<close>

definition valid_pg :: "pg \<Rightarrow> bool" where
  "valid_pg d \<longleftrightarrow> schema_ok d \<and> uuids_ok d"

lemma uuids_marks [simp]:
  "uuids_ok (d\<lparr>deliveries := xs\<rparr>) = uuids_ok d" "uuids_ok (d\<lparr>uuid_count := n\<rparr>) = uuids_ok d"
  by (simp_all add: uuids_ok_def)

lemma uuids_statement:
  "(\<And>d. uuids_ok d \<Longrightarrow> uuids_ok (snd (f d))) \<Longrightarrow> uuids_ok d \<Longrightarrow> uuids_ok (snd (statement f d))"
  by (rule statement_keeps) simp_all

lemma uuids_cast:
  "(\<And>i d. uuids_ok d \<Longrightarrow> to_uuid d i = Some i \<Longrightarrow> uuids_ok (snd (f i d))) \<Longrightarrow> uuids_ok d \<Longrightarrow>
    uuids_ok (snd (with_uuid txt f d))"
  by (auto simp: with_uuid_def uuids_ok_def split: option.split)

lemma uuids_delete: "uuids_ok d \<Longrightarrow> uuids_ok (snd (delete_sessions P d))"
  by (simp add: uuids_ok_def delete_sessions_def)

lemma uuids_updates:
  assumes "uuids_ok d"
  shows "(\<And>r. u_id (f r) = u_id r) \<Longrightarrow> uuids_ok (d\<lparr>users := update_rows P f (users d)\<rparr>)"
    "(\<And>r. ss_id (g r) = ss_id r) \<Longrightarrow> uuids_ok (d\<lparr>sessions := update_rows Q g (sessions d)\<rparr>)"
    "(\<And>r. in_id (h r) = in_id r) \<Longrightarrow> uuids_ok (d\<lparr>invitations := update_rows R h (invitations d)\<rparr>)"
    "(\<And>r. pr_id (k r) = pr_id r) \<Longrightarrow> (\<And>r. pr_user_id (k r) = pr_user_id r) \<Longrightarrow>
      uuids_ok (d\<lparr>resets := update_rows S k (resets d)\<rparr>)"
  using assms by (auto simp: uuids_ok_def set_update_rows)

lemma uuids_inserts:
  assumes "uuids_ok d"
  shows "to_uuid d (u_id u) = Some (u_id u) \<Longrightarrow> uuids_ok (d\<lparr>users := users d @ [u]\<rparr>)"
    "to_uuid d (ss_id s) = Some (ss_id s) \<Longrightarrow> uuids_ok (d\<lparr>sessions := sessions d @ [s]\<rparr>)"
    "to_uuid d (in_id i) = Some (in_id i) \<Longrightarrow> uuids_ok (d\<lparr>invitations := invitations d @ [i]\<rparr>)"
    "to_uuid d (pr_id p) = Some (pr_id p) \<Longrightarrow> to_uuid d (pr_user_id p) = Some (pr_user_id p) \<Longrightarrow>
      uuids_ok (d\<lparr>resets := resets d @ [p]\<rparr>)"
    "to_uuid d (next_uuid d) = Some (next_uuid d)"
  using assms by (simp_all add: uuids_ok_def next_uuid_def)

lemma uuids_commute:
  "d\<lparr>uuid_count := n, users := us\<rparr> = d\<lparr>users := us\<rparr>\<lparr>uuid_count := n\<rparr>"
  "d\<lparr>uuid_count := n, sessions := ss\<rparr> = d\<lparr>sessions := ss\<rparr>\<lparr>uuid_count := n\<rparr>"
  "d\<lparr>uuid_count := n, invitations := is\<rparr> = d\<lparr>invitations := is\<rparr>\<lparr>uuid_count := n\<rparr>"
  "d\<lparr>uuid_count := n, resets := rs\<rparr> = d\<lparr>resets := rs\<rparr>\<lparr>uuid_count := n\<rparr>"
  by simp_all

lemma uuids_writes:
  assumes "uuids_ok d"
  shows "uuids_ok (snd (create_session uid h agent e d))" "uuids_ok (snd (touch_session e i d))"
    "uuids_ok (snd (update_user_password_hash pw i pw' d))" "uuids_ok (snd (set_user_password_hash pw i d))"
    "uuids_ok (snd (expire_open_invitations_for_email email d))" "uuids_ok (snd (accept_invitation i d))"
    "uuids_ok (snd (expire_open_password_resets_for_user i d))" "uuids_ok (snd (create_password_reset i h e d))"
    "uuids_ok (snd (use_password_reset i d))" "uuids_ok (snd (create_invitation email h by_id role e d))"
    "uuids_ok (snd (create_user email name pw role d))"
  using assms
  unfolding create_session_def touch_session_def update_user_password_hash_def set_user_password_hash_def
    expire_open_invitations_for_email_def accept_invitation_def expire_open_password_resets_for_user_def
    create_password_reset_def use_password_reset_def create_invitation_def create_user_def Let_def
  by (intro uuids_statement uuids_cast; simp add: uuids_commute uuids_updates uuids_inserts)+

interpretation valid: repository_invariant valid_pg
  by unfold_locales
    (auto simp: valid_pg_def uuids_writes uuids_delete schema_writes schema_create_session schema_ok_delete
      schema_create_password_reset schema_create_invitation schema_create_user)

subsection \<open>Who has an account, and which invitations there are\<close>

text \<open>All of an account but what its owner can change.\<close>

definition account_of :: "user_row \<Rightarrow> string \<times> string \<times> string \<times> string \<times> time option" where
  "account_of u = (u_id u, u_email u, u_name u, u_role u, u_deleted_at u)"

definition accounts :: "pg \<Rightarrow> (string \<times> string \<times> string \<times> string \<times> time option) list" where
  "accounts d = map account_of (users d)"

definition invitation_ids :: "pg \<Rightarrow> string list" where
  "invitation_ids d = map in_id (invitations d)"

lemma frame_statement:
  assumes "\<And>d. g (snd (f d)) = g d" "\<And>d xs. g (d\<lparr>deliveries := xs\<rparr>) = g d"
  shows "g (snd (statement f d)) = g d"
  using statement_keeps [of "\<lambda>d'. g d' = g d" f d] assms by simp

lemma frame_cast:
  assumes "\<And>i d. g (snd (f i d)) = g d"
  shows "g (snd (with_uuid txt f d)) = g d"
  using assms by (simp add: with_uuid_def split: option.split)

lemmas write_defs =
  create_session_def touch_session_def update_user_password_hash_def set_user_password_hash_def
  expire_open_invitations_for_email_def accept_invitation_def expire_open_password_resets_for_user_def
  create_password_reset_def use_password_reset_def

lemma accounts_update [simp]:
  "accounts (d\<lparr>users := update_rows P (\<lambda>u. u\<lparr>u_password_hash := h, u_updated_at := t\<rparr>) (users d)\<rparr>) = accounts d"
  by (simp add: accounts_def account_of_def)

lemma accounts_frame [simp]:
  "accounts (d\<lparr>sessions := ss\<rparr>) = accounts d" "accounts (d\<lparr>invitations := is\<rparr>) = accounts d"
  "accounts (d\<lparr>resets := rs\<rparr>) = accounts d" "accounts (d\<lparr>deliveries := xs\<rparr>) = accounts d"
  "accounts (d\<lparr>uuid_count := n\<rparr>) = accounts d"
  by (simp_all add: accounts_def)

interpretation account_list: inviting_invariant "\<lambda>d. accounts d = A" for A
  by unfold_locales
    (simp_all add: write_defs create_invitation_def delete_sessions_def Let_def frame_statement frame_cast)

interpretation account_list: signing_in_invariant "\<lambda>d. accounts d = A" for A
  by unfold_locales (simp add: create_session_def Let_def frame_statement frame_cast)

lemma invitation_ids_update [simp]:
  "(\<And>r. in_id (f r) = in_id r) \<Longrightarrow> invitation_ids (d\<lparr>invitations := update_rows P f (invitations d)\<rparr>) = invitation_ids d"
  by (simp add: invitation_ids_def)

lemma invitation_ids_frame [simp]:
  "invitation_ids (d\<lparr>sessions := ss\<rparr>) = invitation_ids d" "invitation_ids (d\<lparr>users := us\<rparr>) = invitation_ids d"
  "invitation_ids (d\<lparr>resets := rs\<rparr>) = invitation_ids d" "invitation_ids (d\<lparr>deliveries := xs\<rparr>) = invitation_ids d"
  "invitation_ids (d\<lparr>uuid_count := n\<rparr>) = invitation_ids d"
  by (simp_all add: invitation_ids_def)

interpretation invitation_list: joining_invariant "\<lambda>d. invitation_ids d = A" for A
  by unfold_locales
    (simp_all add: write_defs create_user_def delete_sessions_def Let_def frame_statement frame_cast)

end
