(* ===== verification/Password_Resets_Properties.thy ===== *)
theory Password_Resets_Properties
  imports Password_Resets Transactions
begin

text \<open>
  What asking for a reset and confirming it do to the repository, whatever becomes of their statements
  on the way, and what the caller can tell from the answer.
\<close>

subsection \<open>What the statements of a confirmation did when they succeeded\<close>

lemma get_reset_Inr:
  assumes "get_password_reset_by_token_hash h d = (Inr row, d')"
  shows "row \<in> set (resets d) \<and> pr_token_hash row = h \<and> untouched d d'"
proof -
  from assms [unfolded get_password_reset_by_token_hash_def] obtain xs where
    "find_row (\<lambda>r. pr_token_hash r = h) (resets (d\<lparr>deliveries := xs\<rparr>)) = Inr row"
    "d' = d\<lparr>deliveries := xs\<rparr>"
    by (rule statement_Inr) auto
  from find_row_Inr [OF this(1)] this(2) show ?thesis by simp
qed

lemma use_reset_Inr:
  assumes "use_password_reset i d = (Inr n, d')" "to_uuid d i = Some i"
  defines "P \<equiv> \<lambda>r. pr_id r = i \<and> pr_used_at r = None \<and> pr_expires_at r > pg_now d"
  shows "n = row_count P (resets d)
    \<and> (\<exists>xs. d' = d\<lparr>deliveries := xs,
        resets := update_rows P (\<lambda>r. r\<lparr>pr_used_at := Some (pg_now d)\<rparr>) (resets d)\<rparr>)"
  using assms(1) [unfolded use_password_reset_def]
  by (rule statement_Inr) (use assms(2) in \<open>auto simp: with_uuid_def Let_def P_def\<close>)

lemma set_hash_Inr:
  assumes "set_user_password_hash h i d = (Inr u, d')" "to_uuid d i = Some i"
  shows "(\<exists>v \<in> set (users_live d). u_id v = i) \<and> u_id u = i
    \<and> (\<exists>xs. d' = d\<lparr>deliveries := xs, users := update_rows (\<lambda>u. u_id u = i \<and> u_deleted_at u = None)
        (\<lambda>u. u\<lparr>u_password_hash := h, u_updated_at := pg_now d\<rparr>) (users d)\<rparr>)"
  using assms(1) [unfolded set_user_password_hash_def]
proof (rule statement_Inr)
  fix xs
  let ?P = "\<lambda>u. u_id u = i \<and> u_deleted_at u = None"
  let ?us = "update_rows ?P (\<lambda>u. u\<lparr>u_password_hash := h, u_updated_at := pg_now d\<rparr>) (users d)"
  assume "with_uuid i (\<lambda>i d.
     let P = (\<lambda>u. u_id u = i \<and> u_deleted_at u = None);
         users' = update_rows P (\<lambda>u. u\<lparr>u_password_hash := h, u_updated_at := pg_now d\<rparr>)
           (users d)
     in (find_row P users', d\<lparr>users := users'\<rparr>)) (d\<lparr>deliveries := xs\<rparr>) = (Inr u, d')"
  then have f: "find_row ?P ?us = Inr u" and d': "d' = d\<lparr>deliveries := xs, users := ?us\<rparr>"
    using assms(2) by (simp_all add: with_uuid_def Let_def)
  from find_row_Inr [OF f] have "u \<in> set ?us" "?P u" by auto
  then obtain v where "v \<in> set (users d)" "?P v" by (auto simp: set_update_rows split: if_splits)
  with \<open>?P u\<close> show ?thesis by (auto simp: d' users_live_def)
qed

lemma delete_all_Inr:
  assumes "delete_all_sessions_for_user i d = (Inr n, d')" "to_uuid d i = Some i"
  shows "\<exists>xs. d' = d\<lparr>deliveries := xs, sessions := filter (\<lambda>s. ss_user_id s \<noteq> i) (sessions d)\<rparr>"
  using assms(1) [unfolded delete_all_sessions_for_user_def]
  by (rule statement_Inr) (use assms(2) in \<open>auto simp: with_uuid_def delete_sessions_def\<close>)

text \<open>The state a confirmation leaves when nothing stopped it.\<close>

definition confirmed :: "reset_row \<Rightarrow> user_row \<Rightarrow> string \<Rightarrow> pg \<Rightarrow> pg" where
  "confirmed i u h d = d\<lparr>
     users := map (\<lambda>x. if x = u then x\<lparr>u_password_hash := h, u_updated_at := pg_now d\<rparr> else x) (users d),
     resets := map (\<lambda>x. if x = i then x\<lparr>pr_used_at := Some (pg_now d)\<rparr> else x) (resets d),
     sessions := filter (\<lambda>s. ss_user_id s \<noteq> u_id u) (sessions d)\<rparr>"

lemma confirmed_as_updates:
  assumes "schema_ok d" "i \<in> set (resets d)" "u \<in> set (users d)"
  shows "confirmed i u h d = d\<lparr>
     users := update_rows (\<lambda>x. u_id x = u_id u) (\<lambda>x. x\<lparr>u_password_hash := h, u_updated_at := pg_now d\<rparr>) (users d),
     resets := update_rows (\<lambda>x. pr_id x = pr_id i) (\<lambda>x. x\<lparr>pr_used_at := Some (pg_now d)\<rparr>) (resets d),
     sessions := filter (\<lambda>s. ss_user_id s \<noteq> u_id u) (sessions d)\<rparr>"
proof -
  have du: "distinct (map u_id (users d))" and dr: "distinct (map pr_id (resets d))"
    using assms(1) by (simp_all add: schema_defs)
  have "u_id x = u_id u \<longleftrightarrow> x = u" if "x \<in> set (users d)" for x
    using inj_key [OF du that assms(3)] by blast
  moreover have "pr_id x = pr_id i \<longleftrightarrow> x = i" if "x \<in> set (resets d)" for x
    using inj_key [OF dr that assms(2)] by blast
  ultimately show ?thesis by (simp add: confirmed_def update_rows_only)
qed

lemma confirmed_ok:
  assumes "schema_ok d" "uuids_ok d" "i \<in> set (resets d)" "u \<in> set (users d)"
  shows "schema_ok (confirmed i u h d)" "uuids_ok (confirmed i u h d)"
proof -
  let ?d1 = "d\<lparr>users := update_rows (\<lambda>x. u_id x = u_id u)
      (\<lambda>x. x\<lparr>u_password_hash := h, u_updated_at := pg_now d\<rparr>) (users d)\<rparr>"
  let ?d2 = "?d1\<lparr>resets := update_rows (\<lambda>x. pr_id x = pr_id i)
      (\<lambda>x. x\<lparr>pr_used_at := Some (pg_now d)\<rparr>) (resets ?d1)\<rparr>"
  have "schema_ok ?d1" by (rule schema_ok_users [OF assms(1)]) simp_all
  then have "schema_ok ?d2" by (rule schema_ok_resets) simp_all
  then have "schema_ok (?d2\<lparr>sessions := filter (\<lambda>s. ss_user_id s \<noteq> u_id u) (sessions ?d2)\<rparr>)"
    by (rule schema_ok_sessions) (use \<open>schema_ok ?d2\<close> in \<open>auto simp: schema_defs distinct_map_filter\<close>)
  then show "schema_ok (confirmed i u h d)"
    by (simp add: confirmed_as_updates [OF assms(1,3,4)])
  show "uuids_ok (confirmed i u h d)"
    using assms(2) by (auto simp: confirmed_def uuids_ok_def)
qed

lemma confirm_body_Inr:
  assumes "confirm_body pg_tx_store digest hash now d = (Inr x, d')" "schema_ok d" "uuids_ok d"
  obtains i u c xs where "i \<in> set (resets d)" "pr_token_hash i = digest" "pr_used_at i = None"
    "now < pr_expires_at i" "pg_now d < pr_expires_at i" "u \<in> set (users_live d)" "u_id u = pr_user_id i"
    "d' = confirmed i u hash d\<lparr>uuid_count := c, deliveries := xs\<rparr>"
proof -
  obtain row d1 n d2 u0 d3 m where get: "get_password_reset_by_token_hash digest d = (Inr row, d1)"
    and usable: "reset_is_usable (reset_of row) now"
    and use: "use_password_reset (pr_id row) d1 = (Inr n, d2)" "n \<noteq> 0"
    and set_hash: "set_user_password_hash hash (pr_user_id row) d2 = (Inr u0, d3)"
    and del: "delete_all_sessions_for_user (u_id u0) d3 = (Inr m, d')"
    using assms(1)
    by (auto simp: confirm_body_def Let_def reset_of_def split: prod.splits sum.splits if_splits)
  note row = get_reset_Inr [OF get]
  obtain c zs where d1: "d1 = d\<lparr>uuid_count := c, deliveries := zs\<rparr>" using row unfolding untouched_def by blast
  have uuid: "to_uuid d (pr_id row) = Some (pr_id row)" "to_uuid d (pr_user_id row) = Some (pr_user_id row)"
    using assms(3) row by (auto simp: uuids_ok_def)
  let ?P = "\<lambda>r. pr_id r = pr_id row \<and> pr_used_at r = None \<and> pr_expires_at r > pg_now d"
  obtain ws where n: "n = row_count ?P (resets d)" and
    d2: "d2 = d1\<lparr>deliveries := ws, resets := update_rows ?P (\<lambda>r. r\<lparr>pr_used_at := Some (pg_now d)\<rparr>) (resets d)\<rparr>"
    using use_reset_Inr [OF use(1)] uuid(1) by (auto simp: d1)
  have dist: "distinct (map pr_id (resets d))" "distinct (map u_id (users d))"
    using assms(2) by (simp_all add: schema_defs)
  have only: "r = row" if "r \<in> set (resets d)" "pr_id r = pr_id row" for r
    using inj_key [OF dist(1) that(1) _ that(2)] row by blast
  obtain r where "r \<in> set (resets d)" "?P r" using use(2) n row_count_zero [of ?P] by blast
  with only have P: "?P row" by blast
  have stamp: "update_rows ?P (\<lambda>r. r\<lparr>pr_used_at := Some (pg_now d)\<rparr>) (resets d)
    = map (\<lambda>x. if x = row then x\<lparr>pr_used_at := Some (pg_now d)\<rparr> else x) (resets d)"
  proof (rule update_rows_only)
    fix r assume r: "r \<in> set (resets d)"
    show "?P r \<longleftrightarrow> r = row"
    proof (cases "r = row")
      case True
      then show ?thesis using P by simp
    next
      case False
      with only [OF r] have "pr_id r \<noteq> pr_id row" by blast
      with False show ?thesis by simp
    qed
  qed
  have live2: "users_live d2 = users_live d" by (simp add: d2 d1 users_live_def)
  have "to_uuid d2 (pr_user_id row) = Some (pr_user_id row)" using uuid(2) by (simp add: d2 d1)
  note sh = set_hash_Inr [OF set_hash this, unfolded live2]
  obtain u where u: "u \<in> set (users_live d)" "u_id u = pr_user_id row" using sh by blast
  then have u_in: "u \<in> set (users d)" and live: "u_deleted_at u = None" by (auto simp: users_live_def)
  obtain vs where d3: "d3 = d2\<lparr>deliveries := vs, users := update_rows (\<lambda>x. u_id x = pr_user_id row \<and> u_deleted_at x = None)
        (\<lambda>x. x\<lparr>u_password_hash := hash, u_updated_at := pg_now d\<rparr>) (users d)\<rparr>"
    using sh by (auto simp: d2 d1)
  have "x = u" if "x \<in> set (users d)" "u_id x = u_id u" for x
    using inj_key [OF dist(2) that(1) u_in that(2)] .
  then have who: "(u_id x = pr_user_id row \<and> u_deleted_at x = None) \<longleftrightarrow> x = u" if "x \<in> set (users d)" for x
    using that u(2) live by metis
  have upd: "update_rows (\<lambda>x. u_id x = pr_user_id row \<and> u_deleted_at x = None)
        (\<lambda>x. x\<lparr>u_password_hash := hash, u_updated_at := pg_now d\<rparr>) (users d)
    = map (\<lambda>x. if x = u then x\<lparr>u_password_hash := hash, u_updated_at := pg_now d\<rparr> else x) (users d)"
    by (rule update_rows_only) (rule who)
  have uid: "u_id u0 = u_id u" using sh u(2) by simp
  have "to_uuid d3 (u_id u0) = Some (u_id u0)" using uuid(2) u(2) by (simp add: d3 d2 d1 uid)
  from delete_all_Inr [OF del this] obtain us where
    d': "d' = d3\<lparr>deliveries := us, sessions := filter (\<lambda>s. ss_user_id s \<noteq> u_id u) (sessions d)\<rparr>"
    by (auto simp: d3 d2 d1 uid)
  have "d' = confirmed row u hash d\<lparr>uuid_count := uuid_count d', deliveries := us\<rparr>"
    unfolding d' d3 d2 d1 upd stamp confirmed_def by simp
  moreover have "now < pr_expires_at row"
    using usable by (simp add: reset_is_usable_def reset_is_expired_def reset_of_def)
  ultimately show ?thesis using row P u by (intro that [of row u us "uuid_count d'"]) simp_all
qed

lemma confirm_reset_cases:
  assumes "confirm_reset in_tx pg_tx_store sha a nfkc salt now token password d = (r, d')"
  obtains (refused) "untouched d d'" "r \<noteq> None"
  | (confirmed) d0 digest hash d1 ds where "untouched d d0" "hash_password a nfkc salt password = Inr hash"
      "password_reset_token_digest sha token = Inr digest"
      "confirm_body pg_tx_store digest hash now d0 = (Inr (), d1)"
      "d' = d1\<lparr>deliveries := ds\<rparr>" "r = None \<or> (\<exists>e. r = Some (CommitResetTx e))"
proof -
  consider "r \<noteq> None" "d' = d"
    | digest hash where "password_reset_token_digest sha token = Inr digest"
      "hash_password a nfkc salt password = Inr hash"
    using assms by (auto simp: confirm_reset_def split: sum.splits)
  then show ?thesis
  proof cases
    case 1
    then show ?thesis by (intro refused) simp_all
  next
    case 2
    obtain v where tx: "in_tx (confirm_body pg_tx_store digest hash now) d = (v, d')"
      and r: "r = (case tx_outcome BeginResetTx CommitResetTx v of Inl e \<Rightarrow> Some e | Inr _ \<Rightarrow> None)"
      using assms 2 by (auto simp: confirm_reset_def split: prod.splits)
    from tx show ?thesis
    proof (cases rule: in_tx_cases)
      case (clean e)
      then have "r \<noteq> None" by (cases e) (simp_all add: r tx_outcome_def)
      with clean(1) show ?thesis by (rule refused)
    next
      case (kept d0 x d1 ds)
      then have "r = None \<or> (\<exists>e. r = Some (CommitResetTx e))" by (auto simp: r tx_outcome_def)
      with kept 2 show ?thesis by (intro confirmed [of d0 hash digest d1 ds]) auto
    qed
  qed
qed

lemma confirmation_effect:
  assumes "schema_ok d" "uuids_ok d"
    and "confirm_reset in_tx pg_tx_store sha a nfkc salt now token password d = (r, d')"
  shows "untouched d d' \<and> r \<noteq> None \<or>
    (\<exists>i u h. i \<in> set (resets d) \<and> password_reset_token_digest sha token = Inr (pr_token_hash i)
      \<and> pr_used_at i = None \<and> now < pr_expires_at i \<and> pg_now d < pr_expires_at i
      \<and> u \<in> set (users_live d) \<and> u_id u = pr_user_id i \<and> hash_password a nfkc salt password = Inr h
      \<and> untouched (confirmed i u h d) d' \<and> schema_ok d' \<and> uuids_ok d'
      \<and> (r = None \<or> (\<exists>e. r = Some (CommitResetTx e))))"
  using assms(3)
proof (cases rule: confirm_reset_cases)
  case refused
  then show ?thesis by blast
next
  case (confirmed d0 digest hash d1 ds)
  have ok0: "schema_ok d0" "uuids_ok d0" using assms(1,2) by (simp_all add: untouched_ok [OF confirmed(1)])
  from confirm_body_Inr [OF confirmed(4) ok0] obtain i u n xs where
    i: "i \<in> set (resets d0)" "pr_token_hash i = digest" "pr_used_at i = None"
      "now < pr_expires_at i" "pg_now d0 < pr_expires_at i" "u \<in> set (users_live d0)" "u_id u = pr_user_id i"
    and d1: "d1 = confirmed i u hash d0\<lparr>uuid_count := n, deliveries := xs\<rparr>" .
  obtain c zs where d0: "d0 = d\<lparr>uuid_count := c, deliveries := zs\<rparr>"
    using confirmed(1) unfolding untouched_def by blast
  have i': "i \<in> set (resets d)" "pg_now d < pr_expires_at i" "u \<in> set (users_live d)" "u \<in> set (users d)"
    using i by (simp_all add: d0 users_live_def)
  have "d' = confirmed i u hash d\<lparr>uuid_count := n, deliveries := ds\<rparr>"
    unfolding confirmed(5) d1 d0 by (simp add: confirmed_def)
  then have d': "untouched (confirmed i u hash d) d'" unfolding untouched_def by blast
  with confirmed_ok [OF assms(1,2) i'(1,4)] have "schema_ok d'" "uuids_ok d'" by (simp_all add: untouched_ok)
  with i i' d' confirmed(2,3,6) show ?thesis
    by (intro disjI2 exI [of _ i] exI [of _ u] exI [of _ hash]) simp
qed

subsection \<open>Confirming\<close>

text \<open>
  C17: confirming is all or nothing, whatever happens to the statements on the way.  Either nothing
  changes and an error is answered, or the link's reset, still open by the clocks of both the
  application and the database, is stamped, its account, and no other, has the hash of the chosen
  password, every session of that account is gone and no other, nothing else changes, the constraints of
  the schema still hold, and the caller is told so, or that the commit's outcome is unknown.
\<close>
theorem confirming_all_or_nothing:
  assumes "schema_ok d" "uuids_ok d"
    and "confirm_reset in_tx pg_tx_store sha a nfkc salt now token password d = (r, d')"
  shows "untouched d d' \<and> r \<noteq> None \<or>
    (\<exists>i u h. i \<in> set (resets d) \<and> password_reset_token_digest sha token = Inr (pr_token_hash i)
      \<and> pr_used_at i = None \<and> now < pr_expires_at i \<and> pg_now d < pr_expires_at i
      \<and> u \<in> set (users_live d) \<and> u_id u = pr_user_id i \<and> hash_password a nfkc salt password = Inr h
      \<and> users d' = map (\<lambda>x. if x = u then x\<lparr>u_password_hash := h, u_updated_at := pg_now d\<rparr> else x) (users d)
      \<and> sessions d' = filter (\<lambda>s. ss_user_id s \<noteq> u_id u) (sessions d)
      \<and> resets d' = map (\<lambda>x. if x = i then x\<lparr>pr_used_at := Some (pg_now d)\<rparr> else x) (resets d)
      \<and> invitations d' = invitations d \<and> schema_ok d' \<and> uuids_ok d'
      \<and> (r = None \<or> (\<exists>e. r = Some (CommitResetTx e))))"
  using confirmation_effect [OF assms]
proof
  assume "\<exists>i u h. i \<in> set (resets d) \<and> password_reset_token_digest sha token = Inr (pr_token_hash i)
      \<and> pr_used_at i = None \<and> now < pr_expires_at i \<and> pg_now d < pr_expires_at i
      \<and> u \<in> set (users_live d) \<and> u_id u = pr_user_id i \<and> hash_password a nfkc salt password = Inr h
      \<and> untouched (confirmed i u h d) d' \<and> schema_ok d' \<and> uuids_ok d'
      \<and> (r = None \<or> (\<exists>e. r = Some (CommitResetTx e)))"
  then obtain i u h where c: "i \<in> set (resets d)" "password_reset_token_digest sha token = Inr (pr_token_hash i)"
    "pr_used_at i = None" "now < pr_expires_at i" "pg_now d < pr_expires_at i" "u \<in> set (users_live d)"
    "u_id u = pr_user_id i" "hash_password a nfkc salt password = Inr h" "schema_ok d'" "uuids_ok d'"
    "r = None \<or> (\<exists>e. r = Some (CommitResetTx e))" and d': "untouched (confirmed i u h d) d'" by blast
  from untouched_fields [OF d'] c show ?thesis
    by (intro disjI2 exI [of _ i] exI [of _ u] exI [of _ h]) (simp add: confirmed_def)
qed simp

lemma live_account:
  assumes "schema_ok d" "u \<in> set (users_live d)"
  shows "pg_account d (u_email u) = Some u"
proof -
  have "distinct (map (\<lambda>u. pg_lower d (u_email u)) (users_live d))"
    using assms(1) by (simp add: schema_defs)
  from inj_key [OF this _ assms(2)]
  have "find_row (\<lambda>x. pg_lower d (u_email x) = pg_lower d (u_email u)) (users_live d) = Inr u"
    by (intro find_row_unique assms(2)) simp_all
  then show ?thesis by (simp add: pg_account_def find_row_def split: option.splits)
qed

text \<open>
  C18: a reset takes the account back.  Once it has been confirmed, at any later time and whatever
  becomes of the statements: no token signs in on a session of that account until a new one is issued,
  and the link is refused, changing nothing.  And the account's address and the chosen password sign in
  as it, without its hash being written again.
\<close>
theorem reset_takes_account_back:
  assumes "schema_ok d" "uuids_ok d"
    and "confirm_reset in_tx pg_tx_store sha a nfkc (Some salt) now token password d = (None, d')"
    and "argon2_documented a" "length salt = saltLength" "0 < cpus"
  shows "\<exists>u \<in> set (users_live d).
      (\<exists>i \<in> set (resets d). password_reset_token_digest sha token = Inr (pr_token_hash i) \<and> u_id u = pr_user_id i)
    \<and> (\<forall>t ds at any who d''. authenticate pg_session_store sha at any (d'\<lparr>pg_now := t, deliveries := ds\<rparr>)
         = (Inr who, d'') \<longrightarrow> au_user_id who \<noteq> u_id u)
    \<and> (\<forall>t ds a' nfkc' salt' at chosen r d''.
         confirm_reset in_tx pg_tx_store sha a' nfkc' salt' at token chosen (d'\<lparr>pg_now := t, deliveries := ds\<rparr>)
           = (r, d'') \<longrightarrow> r \<noteq> None \<and> untouched (d'\<lparr>pg_now := t, deliveries := ds\<rparr>) d'')
    \<and> (\<exists>h. check_credentials pg_user_store a cpus nfkc decoy any_salt (u_email u) password (d'\<lparr>deliveries := []\<rparr>)
         = ((Inr (user_of u), Some h), d'\<lparr>deliveries := []\<rparr>))"
proof -
  obtain i u h where i: "i \<in> set (resets d)" "password_reset_token_digest sha token = Inr (pr_token_hash i)"
    and u: "u \<in> set (users_live d)" "u_id u = pr_user_id i" and h: "hash_password a nfkc (Some salt) password = Inr h"
    and d': "untouched (confirmed i u h d) d'" "schema_ok d'" "uuids_ok d'"
    using confirmation_effect [OF assms(1-3)] by auto
  note same = untouched_fields [OF d'(1)]
  have rs: "resets d' = map (\<lambda>x. if x = i then x\<lparr>pr_used_at := Some (pg_now d)\<rparr> else x) (resets d)"
    using same by (simp add: confirmed_def)
  have dist: "distinct (map pr_token_hash (resets d))" using assms(1) by (simp add: schema_defs)
  have only: "j = i" if "j \<in> set (resets d)" "pr_token_hash j = pr_token_hash i" for j
    by (rule inj_key [OF dist that(1) i(1) that(2)])
  have ended: "au_user_id who \<noteq> u_id u"
    if "authenticate pg_session_store sha at any (d'\<lparr>pg_now := t, deliveries := ds\<rparr>) = (Inr who, d'')"
    for t ds at any who d''
    using pg_sessions.authenticate_sound [OF that] same
    by (auto simp: live_sessions_def confirmed_def)
  have spent: "r \<noteq> None \<and> untouched (d'\<lparr>pg_now := t, deliveries := ds\<rparr>) d''"
    if again: "confirm_reset in_tx pg_tx_store sha a' nfkc' salt' at token chosen
      (d'\<lparr>pg_now := t, deliveries := ds\<rparr>) = (r, d'')" for t ds a' nfkc' salt' at chosen r d''
  proof -
    let ?e = "d'\<lparr>pg_now := t, deliveries := ds\<rparr>"
    have ok: "schema_ok ?e" "uuids_ok ?e" using d'(2,3) by (simp_all add: uuids_ok_def)
    have stamped: "pr_used_at j \<noteq> None" if j: "j \<in> set (resets ?e)" "pr_token_hash j = pr_token_hash i" for j
    proof -
      obtain x where x: "x \<in> set (resets d)" "j = (if x = i then x\<lparr>pr_used_at := Some (pg_now d)\<rparr> else x)"
        using j(1) rs by auto
      then have "x = i" using only [of x] j(2) by (auto split: if_splits)
      with x(2) show ?thesis by simp
    qed
    have "\<not> (j \<in> set (resets ?e) \<and> password_reset_token_digest sha token = Inr (pr_token_hash j)
        \<and> pr_used_at j = None)" for j
      using i(2) stamped [of j] by auto
    with confirmation_effect [OF ok again] show ?thesis by blast
  qed
  let ?u = "u\<lparr>u_password_hash := h, u_updated_at := pg_now d\<rparr>"
  have "?u \<in> set (users_live (d'\<lparr>deliveries := []\<rparr>))"
    using u(1) same by (auto simp: users_live_def confirmed_def)
  from live_account [OF _ this] d'(2)
  have account: "pg_account (d'\<lparr>deliveries := []\<rparr>) (u_email u) = Some ?u" by simp
  have "verify_password a cpus nfkc (u_password_hash ?u) password = None" "\<not> needs_rehash a cpus (u_password_hash ?u)"
    using verify_fresh [OF h assms(4-6)] h by (simp_all add: hash_password_Inr)
  with pg_users.right_password [OF _ account this(1), of decoy any_salt]
  have "check_credentials pg_user_store a cpus nfkc decoy any_salt (u_email u) password (d'\<lparr>deliveries := []\<rparr>)
      = ((Inr (user_of u), Some h), d'\<lparr>deliveries := []\<rparr>)"
    by (simp add: user_of_def rehash_def)
  with i u ended spent show ?thesis by (intro bexI [of _ u] bexI [of _ i] conjI allI impI exI [of _ h]) blast+
qed

subsection \<open>Asking for a link\<close>

lemma get_user_Inr:
  assumes "get_user_by_email email d = (Inr u, d')"
  shows "untouched d d' \<and> u \<in> set (users_live d) \<and> pg_lower d (u_email u) = pg_lower d email"
proof -
  from assms [unfolded get_user_by_email_def] obtain xs where
    f: "find_row (\<lambda>u. pg_lower (d\<lparr>deliveries := xs\<rparr>) (u_email u) = pg_lower (d\<lparr>deliveries := xs\<rparr>) email)
       (users_live (d\<lparr>deliveries := xs\<rparr>)) = Inr u" "d' = d\<lparr>deliveries := xs\<rparr>"
    by (rule statement_Inr) auto
  from find_row_Inr [OF f(1)] f(2) show ?thesis by (simp add: users_live_def)
qed

lemma expire_resets_Inr:
  assumes "expire_open_password_resets_for_user i d = (Inr n, d')" "to_uuid d i = Some i"
  shows "\<exists>xs. d' = d\<lparr>deliveries := xs, resets :=
    update_rows (\<lambda>r. pr_user_id r = i \<and> pr_used_at r = None \<and> pr_expires_at r > pg_now d)
      (\<lambda>r. r\<lparr>pr_expires_at := pg_now d\<rparr>) (resets d)\<rparr>"
  using assms(1) [unfolded expire_open_password_resets_for_user_def]
  by (rule statement_Inr) (use assms(2) in \<open>auto simp: with_uuid_def Let_def\<close>)

lemma create_reset_Inr:
  assumes "create_password_reset i h e d = (Inr p, d')" "to_uuid d i = Some i"
  shows "pr_user_id p = i \<and> pr_token_hash p = h \<and> pr_expires_at p = e \<and> pr_used_at p = None
    \<and> (\<exists>n xs. d' = d\<lparr>deliveries := xs, uuid_count := n, resets := resets d @ [p]\<rparr>)"
  using assms(1) [unfolded create_password_reset_def]
  by (rule statement_Inr) (use assms(2) in \<open>auto simp: Let_def with_uuid_def split: if_splits\<close>)

definition open_resets :: "pg \<Rightarrow> string \<Rightarrow> reset_row list" where
  "open_resets d uid = filter (\<lambda>r. pr_user_id r = uid \<and> pr_used_at r = None \<and> pr_expires_at r > pg_now d) (resets d)"

lemma none_open_after_request:
  "filter (\<lambda>r. pr_user_id r = k \<and> pr_used_at r = None \<and> pr_expires_at r > now)
    (update_rows (\<lambda>r. pr_user_id r = k \<and> pr_used_at r = None \<and> pr_expires_at r > now)
      (\<lambda>r. r\<lparr>pr_expires_at := now\<rparr>) rows) = []"
  by (induction rows) (simp_all add: update_rows_def)

lemma request_body_Inr:
  assumes "request_body pg_tx_store address digest now d = (Inr send_to, d')" "uuids_ok d"
  obtains (nobody) "untouched d d'" "send_to = ''''"
  | (somebody) u p n xs where "u \<in> set (users_live d)" "pg_lower d (u_email u) = pg_lower d address"
      "send_to = u_email u" "pr_user_id p = u_id u" "pr_token_hash p = digest"
      "pr_expires_at p = now + hour" "pr_used_at p = None"
      "d' = d\<lparr>deliveries := xs, uuid_count := n, resets := update_rows
         (\<lambda>r. pr_user_id r = u_id u \<and> pr_used_at r = None \<and> pr_expires_at r > pg_now d)
         (\<lambda>r. r\<lparr>pr_expires_at := pg_now d\<rparr>) (resets d) @ [p]\<rparr>"
proof -
  obtain v d1 where get: "get_user_by_email address d = (v, d1)" by fastforce
  show ?thesis
  proof (cases v)
    case (Inl e)
    then have "e = NoRows" "send_to = ''''" "d' = d1"
      using assms(1) get by (auto simp: request_body_def split: if_splits)
    with get get_user_NoRows [of address d d1] Inl show ?thesis by (intro nobody) simp_all
  next
    case (Inr u)
    then obtain n d2 p where exp: "expire_open_password_resets_for_user (u_id u) d1 = (Inr n, d2)"
      and cre: "create_password_reset (u_id u) digest (new_password_reset_expiry now) d2 = (Inr p, d')"
      and to: "send_to = u_email u"
      using assms(1) get by (auto simp: request_body_def split: prod.splits sum.splits)
    note g = get_user_Inr [OF get [unfolded Inr]]
    then have uuid: "to_uuid d (u_id u) = Some (u_id u)"
      using assms(2) by (auto simp: uuids_ok_def users_live_def)
    obtain m zs where d1: "d1 = d\<lparr>uuid_count := m, deliveries := zs\<rparr>" using g unfolding untouched_def by blast
    obtain xs where d2: "d2 = d1\<lparr>deliveries := xs, resets := update_rows
       (\<lambda>r. pr_user_id r = u_id u \<and> pr_used_at r = None \<and> pr_expires_at r > pg_now d1)
       (\<lambda>r. r\<lparr>pr_expires_at := pg_now d1\<rparr>) (resets d1)\<rparr>"
      using expire_resets_Inr [OF exp] uuid by (auto simp: d1)
    from create_reset_Inr [OF cre] uuid obtain c ys where
      p: "pr_user_id p = u_id u" "pr_token_hash p = digest" "pr_expires_at p = now + hour" "pr_used_at p = None"
      and d': "d' = d2\<lparr>deliveries := ys, uuid_count := c, resets := resets d2 @ [p]\<rparr>"
      by (auto simp: d2 d1 new_password_reset_expiry_def PasswordResetWindow_def)
    have "d' = d\<lparr>deliveries := ys, uuid_count := c, resets := update_rows
         (\<lambda>r. pr_user_id r = u_id u \<and> pr_used_at r = None \<and> pr_expires_at r > pg_now d)
         (\<lambda>r. r\<lparr>pr_expires_at := pg_now d\<rparr>) (resets d) @ [p]\<rparr>"
      unfolding d' d2 d1 by simp
    with g to p show ?thesis by (intro somebody [of u p c ys]) simp_all
  qed
qed

text \<open>
  A link goes to the account it opens and to nobody else.  Whatever becomes of the statements and
  of the message, a request changes nothing and sends nothing, or the address belongs to a live account
  and that account has a new reset that ends after an hour and is its only open one, in whatever case
  the address was typed; the one message goes to the account's own address, carries the token of which
  the row holds the digest, and the answer is the one an unknown address gets.
\<close>
theorem reset_mail_only_to_owner:
  assumes "request_reset in_tx pg_tx_store allow_account sha to_lower parse_address join_path deliver random now
      email r d = (answer, sent, r', d')" "uuids_ok d"
  shows "untouched d d' \<and> sent = None \<or>
    (\<exists>address token u p. normalize_email parse_address email = Inr address
      \<and> new_password_reset_token sha random = Inr (token, pr_token_hash p)
      \<and> u \<in> set (users_live d) \<and> pg_lower d (u_email u) = pg_lower d address
      \<and> pr_user_id p = u_id u \<and> pr_used_at p = None \<and> pr_expires_at p = now + hour
      \<and> open_resets d' (u_id u) = (if pg_now d < now + hour then [p] else [])
      \<and> users d' = users d \<and> sessions d' = sessions d \<and> invitations d' = invitations d
      \<and> (sent = Some (reset_message join_path (u_email u) token) \<and> answer = (0, None)
         \<or> sent = None \<and> (u_email u = '''' \<and> answer = (0, None) \<or> (\<exists>e. answer = (0, Some (CommitResetTx e))))))"
proof (cases "sent = None \<and> d' = d")
  case False
  then obtain address token digest wait where ok: "normalize_email parse_address email = Inr address"
    "new_password_reset_token sha random = Inr (token, digest)"
    "reset_allowed allow_account sha to_lower address r = ((wait, None), r')"
    using assms(1) by (auto simp: request_reset_def Let_def split: sum.splits prod.splits option.splits if_splits)
  obtain v where tx: "in_tx (request_body pg_tx_store address digest now) d = (v, d')"
    using assms(1) ok by (auto simp: request_reset_def Let_def split: sum.splits prod.splits option.splits if_splits)
  note full = assms(1) [unfolded request_reset_def ok sum.case option.case prod.case tx Let_def]
  from tx show ?thesis
  proof (cases rule: in_tx_cases)
    case (clean e)
    then have "sent = None" using full by (cases e) (auto simp: tx_outcome_def)
    with clean(1) show ?thesis by simp
  next
    case (kept d0 send_to d1 ds)
    have ok0: "uuids_ok d0" using assms(2) by (simp add: untouched_ok [OF kept(1)])
    note same = untouched_fields [OF kept(1)]
    from kept(2) ok0 show ?thesis
    proof (cases rule: request_body_Inr)
      case nobody
      have "untouched d d'"
        unfolding kept(3) using untouched_trans [OF untouched_trans [OF kept(1) nobody(1)]] by simp
      moreover have "sent = None" using full kept(4) nobody(2) by (auto simp: tx_outcome_def)
      ultimately show ?thesis by simp
    next
      case (somebody u p n xs)
      have live: "users_live d0 = users_live d" using same by (simp add: users_live_def)
      have fields: "users d' = users d" "sessions d' = sessions d" "invitations d' = invitations d"
        using same by (simp_all add: kept(3) somebody(8))
      have "open_resets d' (u_id u) = (if pg_now d < now + hour then [p] else [])"
        using same somebody(4,6,7)
        by (simp add: open_resets_def kept(3) somebody(8) none_open_after_request)
      moreover have "sent = Some (reset_message join_path (u_email u) token) \<and> answer = (0, None)
         \<or> sent = None \<and> (u_email u = '''' \<and> answer = (0, None) \<or> (\<exists>e. answer = (0, Some (CommitResetTx e))))"
        using full kept(4) somebody(3) by (auto simp: tx_outcome_def split: if_splits option.splits)
      ultimately show ?thesis
        using ok(1,2) somebody(1,2,4-7) same live fields
        by (intro disjI2 exI [of _ address] exI [of _ token] exI [of _ u] exI [of _ p]) simp
    qed
  qed
qed simp

subsection \<open>What the answer tells\<close>

definition reset_can_be_stored :: "(byte list \<Rightarrow> byte list) \<Rightarrow> byte list option \<Rightarrow> pg \<Rightarrow> bool" where
  "reset_can_be_stored sha random d \<longleftrightarrow>
     pg_sound d \<and> next_uuid d \<notin> pr_id ` set (resets d) \<and>
     (case random of None \<Rightarrow> True
      | Some raw \<Rightarrow> length (sha raw) = 32 \<and> sha raw \<notin> pr_token_hash ` set (resets d))"

lemma request_body_ok:
  assumes "reset_can_be_stored sha (Some raw) d"
  shows "\<exists>send_to d'. request_body pg_tx_store address (sha raw) now d = (Inr send_to, d') \<and> deliveries d' = []"
proof (cases "get_user_by_email address d")
  case (Pair v d1)
  have d: "deliveries d = []" "uuids_ok d" using assms by (simp_all add: reset_can_be_stored_def pg_sound_def)
  then have d1: "d1 = d" and v: "v = find_row (\<lambda>u. pg_lower d (u_email u) = pg_lower d address) (users_live d)"
    using Pair by (auto simp: get_user_by_email_def)
  show ?thesis
  proof (cases v)
    case (Inl e)
    then have "e = NoRows" using v by (simp add: find_row_def split: option.splits)
    with Inl d(1) show ?thesis by (simp add: request_body_def Pair d1)
  next
    case (Inr u)
    then have "u \<in> set (users d)" using find_row_Inr [OF v [symmetric, unfolded Inr]] by (simp add: users_live_def)
    moreover from this have "to_uuid d (u_id u) = Some (u_id u)" using d(2) by (simp add: uuids_ok_def)
    ultimately show ?thesis
      using assms d(1)
      by (simp add: request_body_def Pair d1 Inr expire_open_password_resets_for_user_def create_password_reset_def
          with_uuid_def Let_def update_rows_image reset_can_be_stored_def next_uuid_def)
  qed
qed

text \<open>The answer and the limiter's state, without the repository.\<close>

definition reset_reply ::
  "('l, 'r) limiter \<Rightarrow> (byte list \<Rightarrow> byte list) \<Rightarrow> (string \<Rightarrow> string) \<Rightarrow> (string \<Rightarrow> string option)
    \<Rightarrow> byte list option \<Rightarrow> string \<Rightarrow> 'r \<Rightarrow> (duration \<times> resets_error option) \<times> 'r" where
  "reset_reply allow_account sha to_lower parse_address random email r =
     (case normalize_email parse_address email of
        Inl e \<Rightarrow> ((0, Some (InvalidResetEmail e)), r)
      | Inr address \<Rightarrow>
        (case reset_allowed allow_account sha to_lower address r of
           ((wait, Some e), r') \<Rightarrow> ((wait, Some e), r')
         | ((_, None), r') \<Rightarrow> ((0, if random = None then Some (NewResetToken ErrReadToken) else None), r')))"

lemma reset_answer:
  assumes "reset_can_be_stored sha random d"
  shows "\<exists>m d'. request_reset in_tx pg_tx_store allow_account sha to_lower parse_address join_path deliver random now
      email r d = (fst (reset_reply allow_account sha to_lower parse_address random email r), m,
        snd (reset_reply allow_account sha to_lower parse_address random email r), d')"
proof (cases "normalize_email parse_address email")
  case (Inl e)
  then show ?thesis by (simp add: request_reset_def reset_reply_def)
next
  case (Inr address)
  obtain wait refused r' where allowed: "reset_allowed allow_account sha to_lower address r = ((wait, refused), r')"
    by (metis prod.collapse)
  note shape = request_reset_def reset_reply_def Inr allowed
  show ?thesis
  proof (cases refused)
    case (Some e)
    then show ?thesis by (simp add: shape)
  next
    case None
    note shape = shape None
    show ?thesis
    proof (cases random)
      case None
      then show ?thesis by (simp add: shape new_password_reset_token_def new_opaque_token_def)
    next
      case (Some raw)
      from request_body_ok [OF assms [unfolded Some]] obtain send_to d' where
        body: "request_body pg_tx_store address (sha raw) now d = (Inr send_to, d')" "deliveries d' = []" by blast
      have "deliveries d = []" using assms by (simp add: reset_can_be_stored_def pg_sound_def)
      then have "in_tx (request_body pg_tx_store address (sha raw) now) d = (Inr send_to, d')"
        by (rule in_tx_ok) (fact body)+
      then show ?thesis
        by (simp add: shape Some new_password_reset_token_def new_opaque_token_def tx_outcome_def Let_def
            split: option.split)
    qed
  qed
qed


subsection \<open>A repository in which the properties are used\<close>

definition sample_reset :: reset_row where
  "sample_reset = \<lparr>pr_id = ''r1'', pr_user_id = ''u1'', pr_token_hash = replicate 32 7, pr_expires_at = 100,
     pr_used_at = None, pr_created_at = 0\<rparr>"

definition sample_stolen :: session_row where
  "sample_stolen = \<lparr>ss_id = ''s1'', ss_user_id = ''u1'', ss_token_hash = replicate 32 8,
     ss_user_agent = ''agent'', ss_created_at = 0, ss_last_seen_at = 0, ss_expires_at = SessionIdleWindow\<rparr>"

definition sample_forgotten :: pg where
  "sample_forgotten = (sample_accounts ''x'')\<lparr>sessions := [sample_stolen], resets := [sample_reset]\<rparr>"

definition sample_reset_link :: string where
  "sample_reset_link = base64_encode url_alphabet (replicate 32 7)"

lemmas sample_forgotten_defs =
  sample_forgotten_def sample_accounts_def sample_account_def sample_reset_def sample_stolen_def

lemma sample_forgotten_ok: "schema_ok sample_forgotten" "uuids_ok sample_forgotten"
  by (simp_all add: sample_forgotten_defs schema_defs users_live_def uuids_ok_def account_roles_def)

lemma sample_reset_link_digest: "password_reset_token_digest id sample_reset_link = Inr (replicate 32 7)"
  using decode_new_opaque_token [of id "replicate 32 7"]
  by (simp add: sample_reset_link_def password_reset_token_digest_def new_opaque_token_def opaque_token_bytes_def)

lemma sample_confirmed:
  "\<exists>d'. confirm_reset in_tx pg_tx_store id sample_argon2 id (Some (replicate 16 1)) 5 sample_reset_link
    ''correct horse'' sample_forgotten = (None, d')"
proof -
  obtain h where h: "hash_password sample_argon2 id (Some (replicate 16 1)) ''correct horse'' = Inr h"
    using sample_hash by blast
  show ?thesis
    by (simp add: confirm_reset_def sample_reset_link_digest h confirm_body_def in_tx_def tx_outcome_def
        get_password_reset_by_token_hash_def use_password_reset_def set_user_password_hash_def
        delete_all_sessions_for_user_def delete_sessions_def with_uuid_def find_row_def row_count_def update_rows_def
        reset_of_def reset_is_usable_def reset_is_used_def reset_is_expired_def sample_forgotten_defs Let_def)
qed

lemma confirming_all_or_nothing_witness:
  "\<exists>d'. confirm_reset in_tx pg_tx_store id sample_argon2 id (Some (replicate 16 1)) 5 sample_reset_link
      ''correct horse'' sample_forgotten = (None, d')
    \<and> sessions d' = [] \<and> map pr_used_at (resets d') = [Some 5]"
proof -
  obtain d' where r: "confirm_reset in_tx pg_tx_store id sample_argon2 id (Some (replicate 16 1)) 5 sample_reset_link
      ''correct horse'' sample_forgotten = (None, d')" using sample_confirmed by blast
  from confirming_all_or_nothing [OF sample_forgotten_ok r]
  have "sessions d' = [] \<and> map pr_used_at (resets d') = [Some 5]"
    by (auto simp: sample_forgotten_defs)
  with r show ?thesis by (intro exI [of _ d']) simp
qed

lemma reset_takes_account_back_witness:
  "\<exists>d' h. confirm_reset in_tx pg_tx_store id sample_argon2 id (Some (replicate 16 1)) 5 sample_reset_link
      ''correct horse'' sample_forgotten = (None, d')
    \<and> check_credentials pg_user_store sample_argon2 4 id ''decoy'' None ''ana@example.com'' ''correct horse''
      (d'\<lparr>deliveries := []\<rparr>) = ((Inr (user_of (sample_account ''x'')), Some h), d'\<lparr>deliveries := []\<rparr>)"
proof -
  obtain d' where r: "confirm_reset in_tx pg_tx_store id sample_argon2 id (Some (replicate 16 1)) 5 sample_reset_link
      ''correct horse'' sample_forgotten = (None, d')" using sample_confirmed by blast
  have live: "set (users_live sample_forgotten) = {sample_account ''x''}"
    by (simp add: sample_forgotten_defs users_live_def)
  have "u_email (sample_account ''x'') = ''ana@example.com''" by (simp add: sample_account_def)
  with reset_takes_account_back [OF sample_forgotten_ok r sample_argon2_documented, where cpus = 4
      and decoy = "''decoy''" and any_salt = None] r
  show ?thesis unfolding live by (auto simp: saltLength_def)
qed

lemma sample_storable: "reset_can_be_stored id (Some (replicate 32 9)) sample_forgotten"
  "reset_can_be_stored id (Some (replicate 32 9)) (sample_forgotten\<lparr>users := [], sessions := [], resets := []\<rparr>)"
  by (simp_all add: reset_can_be_stored_def pg_sound_def sample_forgotten_defs schema_defs users_live_def
      uuids_ok_def account_roles_def next_uuid_def)

definition sample_limiter :: "(unit, nat) limiter" where
  "sample_limiter key r = (if r < 3 then ((True, 0, None), r + 1) else ((False, hour, None), r))"


lemma reset_mail_only_to_owner_witness:
  "\<exists>d'. request_reset in_tx pg_tx_store sample_limiter id id Some (\<lambda>x y. x @ y) (\<lambda>_. None :: unit option)
      (Some (replicate 32 9)) 5 ''ana@example.com'' 2 sample_forgotten
      = ((0, None), Some (reset_message (\<lambda>x y. x @ y) ''ana@example.com'' (base64_encode url_alphabet (replicate 32 9))),
         3, d') \<and> length (open_resets d' ''u1'') = 1"
proof -
  have n: "normalize_email Some ''ana@example.com'' = Inr ''ana@example.com''" by code_simp
  obtain d' where r: "request_reset in_tx pg_tx_store sample_limiter id id Some (\<lambda>x y. x @ y) (\<lambda>_. None :: unit option)
      (Some (replicate 32 9)) 5 ''ana@example.com'' 2 sample_forgotten
      = ((0, None), Some (reset_message (\<lambda>x y. x @ y) ''ana@example.com'' (base64_encode url_alphabet (replicate 32 9))),
         3, d')"
    by (simp add: request_reset_def n reset_allowed_def sample_limiter_def new_password_reset_token_def
        new_opaque_token_def request_body_def in_tx_def tx_outcome_def get_user_by_email_def find_row_def users_live_def
        expire_open_password_resets_for_user_def create_password_reset_def with_uuid_def update_rows_def
        sample_forgotten_defs next_uuid_def Let_def)
  from reset_mail_only_to_owner [OF r sample_forgotten_ok(2)] n
  have "length (open_resets d' ''u1'') = 1"
    by (auto simp: sample_forgotten_defs users_live_def duration_defs)
  with r show ?thesis by (intro exI [of _ d']) simp
qed

end
