(* ===== verification/Invitations_Properties.thy ===== *)
theory Invitations_Properties
  imports Invitations Transactions
begin

text \<open>
  What inviting and redeeming do to the repository, whatever becomes of their statements on the way.
\<close>

subsection \<open>What the statements of a redemption did when they succeeded\<close>

lemma get_invitation_Inr:
  assumes "get_invitation_by_token_hash h d = (Inr row, d')"
  shows "row \<in> set (invitations d) \<and> in_token_hash row = h \<and> untouched d d'"
proof -
  from assms [unfolded get_invitation_by_token_hash_def] obtain xs where
    "find_row (\<lambda>r. in_token_hash r = h) (invitations (d\<lparr>deliveries := xs\<rparr>)) = Inr row"
    "d' = d\<lparr>deliveries := xs\<rparr>"
    by (rule statement_Inr) auto
  from find_row_Inr [OF this(1)] this(2) show ?thesis by simp
qed

lemma accept_invitation_Inr:
  assumes "accept_invitation i d = (Inr n, d')" "to_uuid d i = Some i"
  shows "n = row_count (\<lambda>r. in_id r = i \<and> in_accepted_at r = None \<and> in_expires_at r > pg_now d) (invitations d)
    \<and> (\<exists>xs. d' = d\<lparr>deliveries := xs, invitations :=
        update_rows (\<lambda>r. in_id r = i \<and> in_accepted_at r = None \<and> in_expires_at r > pg_now d)
          (\<lambda>r. r\<lparr>in_accepted_at := Some (pg_now d)\<rparr>) (invitations d)\<rparr>)"
proof -
  from assms(1) [unfolded accept_invitation_def] obtain xs where
    "with_uuid i (\<lambda>i d. let P = (\<lambda>r. in_id r = i \<and> in_accepted_at r = None \<and> in_expires_at r > pg_now d)
       in (Inr (row_count P (invitations d)),
           d\<lparr>invitations := update_rows P (\<lambda>r. r\<lparr>in_accepted_at := Some (pg_now d)\<rparr>) (invitations d)\<rparr>))
       (d\<lparr>deliveries := xs\<rparr>) = (Inr n, d')"
    by (rule statement_Inr)
  then show ?thesis using assms(2) by (auto simp: with_uuid_def Let_def)
qed

lemma create_user_Inr:
  assumes "create_user email name h role d = (Inr u, d')"
  shows "u_email u = email \<and> u_name u = name \<and> u_password_hash u = h \<and> u_role u = role \<and> u_deleted_at u = None
    \<and> u_id u = next_uuid d
    \<and> (\<exists>n xs. d' = d\<lparr>deliveries := xs, uuid_count := n, users := users d @ [u]\<rparr>)"
  using assms [unfolded create_user_def]
  by (rule statement_Inr) (auto simp: Let_def next_uuid_def split: if_splits)

lemma uuids_ok_accepted:
  assumes "uuids_ok d" "u_id u = next_uuid d"
    "d' = d\<lparr>deliveries := xs, uuid_count := n, users := users d @ [u],
       invitations := map (\<lambda>x. if x = i then x\<lparr>in_accepted_at := t\<rparr> else x) (invitations d)\<rparr>"
  shows "uuids_ok d'"
  using assms by (auto simp: uuids_ok_def next_uuid_def)

lemma accept_body_Inr:
  assumes "accept_body pg_tx_store digest full hash now d = (Inr u, d')" "schema_ok d" "uuids_ok d"
  obtains i n xs where "i \<in> set (invitations d)" "in_token_hash i = digest" "in_accepted_at i = None"
    "now < in_expires_at i" "pg_now d < in_expires_at i" "u_email u = in_email i" "u_role u = in_role i"
    "u_name u = full" "u_password_hash u = hash" "u_deleted_at u = None" "schema_ok d'" "uuids_ok d'"
    "d' = d\<lparr>deliveries := xs, uuid_count := n, users := users d @ [u],
       invitations := map (\<lambda>x. if x = i then x\<lparr>in_accepted_at := Some (pg_now d)\<rparr> else x) (invitations d)\<rparr>"
proof -
  obtain row d1 where get: "get_invitation_by_token_hash digest d = (Inr row, d1)"
    and usable: "invitation_is_usable (invitation_of row) now"
    and rest: "(case accept_invitation (in_id row) d1 of
          (Inl e, s2) \<Rightarrow> (Inl (AcceptInvitation e), s2)
        | (Inr stamped, s2) \<Rightarrow>
          if stamped = 0 then (Inl ErrInvitationNotUsable, s2)
          else case create_user (in_email row) full hash (in_role row) s2 of
            (Inl e, s3) \<Rightarrow> (Inl (if is_unique_violation e then ErrEmailTaken else CreateUser e), s3)
          | (Inr created, s3) \<Rightarrow> (Inr created, s3)) = (Inr u, d')"
    using assms(1)
    by (auto simp: accept_body_def Let_def invitation_of_def split: prod.splits sum.splits if_splits)
  note row = get_invitation_Inr [OF get]
  have same: "invitations d1 = invitations d" "users d1 = users d" "pg_now d1 = pg_now d" "to_uuid d1 = to_uuid d"
    using untouched_fields [of d d1] row by auto
  obtain n d2 where acc: "accept_invitation (in_id row) d1 = (Inr n, d2)" "n \<noteq> 0"
    and cu: "create_user (in_email row) full hash (in_role row) d2 = (Inr u, d')"
    using rest by (auto split: prod.splits sum.splits if_splits)
  have uuid: "to_uuid d1 (in_id row) = Some (in_id row)"
    using assms(3) row by (auto simp: uuids_ok_def same(4))
  let ?P = "\<lambda>r. in_id r = in_id row \<and> in_accepted_at r = None \<and> in_expires_at r > pg_now d"
  obtain xs where n: "n = row_count ?P (invitations d)" and
    d2: "d2 = d1\<lparr>deliveries := xs, invitations :=
        update_rows ?P (\<lambda>r. r\<lparr>in_accepted_at := Some (pg_now d)\<rparr>) (invitations d)\<rparr>"
    using accept_invitation_Inr [OF acc(1) uuid] by (auto simp: same)
  have dist: "distinct (map in_id (invitations d))" using assms(2) by (simp add: schema_defs)
  have only: "r = row" if "r \<in> set (invitations d)" "in_id r = in_id row" for r
    using inj_key [OF dist that(1) _ that(2)] row by blast
  obtain r where "r \<in> set (invitations d)" "?P r" using acc(2) n row_count_zero [of ?P] by blast
  with only have P: "?P row" by blast
  have upd: "update_rows ?P (\<lambda>r. r\<lparr>in_accepted_at := Some (pg_now d)\<rparr>) (invitations d)
    = map (\<lambda>x. if x = row then x\<lparr>in_accepted_at := Some (pg_now d)\<rparr> else x) (invitations d)"
  proof (rule update_rows_only)
    fix r assume r: "r \<in> set (invitations d)"
    show "?P r \<longleftrightarrow> r = row"
    proof (cases "r = row")
      case True
      then show ?thesis using P by simp
    next
      case False
      with only [OF r] have "in_id r \<noteq> in_id row" by blast
      with False show ?thesis by simp
    qed
  qed
  have u: "u_email u = in_email row" "u_role u = in_role row" "u_name u = full" "u_password_hash u = hash"
    "u_deleted_at u = None" and uid: "u_id u = next_uuid d2" and "\<exists>n' ys. d' = d2\<lparr>deliveries := ys, uuid_count := n', users := users d2 @ [u]\<rparr>"
    using create_user_Inr [OF cu] by simp_all
  then obtain n' ys where d': "d' = d2\<lparr>deliveries := ys, uuid_count := n', users := users d2 @ [u]\<rparr>" by blast
  obtain m zs where d1: "d1 = d\<lparr>uuid_count := m, deliveries := zs\<rparr>"
    using row unfolding untouched_def by blast
  have "now < in_expires_at row"
    using usable by (simp add: invitation_is_usable_def invitation_is_expired_def invitation_of_def)
  moreover have d'_eq: "d' = d\<lparr>deliveries := ys, uuid_count := n', users := users d @ [u],
      invitations := map (\<lambda>x. if x = row then x\<lparr>in_accepted_at := Some (pg_now d)\<rparr> else x) (invitations d)\<rparr>"
    unfolding d' d2 d1 upd by simp
  moreover have "schema_ok d'"
  proof -
    have "schema_ok d1" using assms(2) row untouched_ok(1) [of d d1] by blast
    then have "schema_ok d2" using schema_writes(8) [of d1 "in_id row"] acc(1) by simp
    then show ?thesis using schema_create_user [of d2 "in_email row" full hash "in_role row"] cu by simp
  qed
  moreover have "uuids_ok d'"
  proof -
    have "uuids_ok d1" using assms(3) row untouched_ok(2) [of d d1] by blast
    moreover have "u_id u = next_uuid d1" by (simp add: uid d2 next_uuid_def)
    moreover have "d' = d1\<lparr>deliveries := ys, uuid_count := n', users := users d1 @ [u],
        invitations := map (\<lambda>x. if x = row then x\<lparr>in_accepted_at := Some (pg_now d)\<rparr> else x) (invitations d1)\<rparr>"
      unfolding d' d2 upd by (simp add: same)
    ultimately show ?thesis by (rule uuids_ok_accepted)
  qed
  ultimately show ?thesis
    using row P by (intro that [OF _ _ _ _ _ u]) simp_all
qed

lemma accept_invited_cases:
  fixes r :: "'e invitations_error + user"
  assumes "accept_invited in_tx pg_tx_store sha a nfkc salt now token name password d = (r, d')"
  obtains (refused) e where "untouched d d'" "r = Inl e"
  | (redeemed) d0 digest full hash u d1 ds where "untouched d d0" "normalize_name name = Inr full"
      "hash_password a nfkc salt password = Inr hash"
      "invitation_token_digest sha token = Inr digest"
      "accept_body pg_tx_store digest full hash now d0 = (Inr u :: 'e invitations_error + user_row, d1)"
      "d' = d1\<lparr>deliveries := ds\<rparr>" "r = Inr (user_of u) \<or> (\<exists>e. r = Inl (CommitTx e))"
proof -
  consider e where "r = Inl e" "d' = d"
    | digest full hash where "invitation_token_digest sha token = Inr digest" "normalize_name name = Inr full"
      "hash_password a nfkc salt password = Inr hash"
    using assms by (auto simp: accept_invited_def split: sum.splits)
  then show ?thesis
  proof cases
    case 1
    then show ?thesis by (intro refused [of e]) simp_all
  next
    case 2
    obtain v where tx: "in_tx (accept_body pg_tx_store digest full hash now) d = (v, d')"
      and r: "r = (case tx_outcome BeginTx CommitTx v of Inl e \<Rightarrow> Inl e | Inr created \<Rightarrow> Inr (user_of created))"
      using assms 2 by (auto simp: accept_invited_def split: prod.splits sum.splits)
    from tx show ?thesis
    proof (cases rule: in_tx_cases)
      case (clean e)
      then have "\<exists>e'. r = Inl e'" by (cases e) (simp_all add: r tx_outcome_def)
      with clean(1) show ?thesis using refused by metis
    next
      case (kept d0 u d1 ds)
      then have "r = Inr (user_of u) \<or> (\<exists>e. r = Inl (CommitTx e))" by (auto simp: r tx_outcome_def)
      with kept 2 show ?thesis by (intro redeemed [of d0 full hash digest u d1 ds]) auto
    qed
  qed
qed

lemma stamped_invitations_ok:
  assumes "schema_ok d" "i \<in> set (invitations d)"
  shows "in_role i \<noteq> ''owner''"
  using assms by (auto simp: schema_defs)

lemma redeeming_effect:
  assumes "schema_ok d" "uuids_ok d"
    and "accept_invited in_tx pg_tx_store sha a nfkc salt now token name password d = (r, d')"
  shows "untouched d d' \<and> (\<exists>e. r = Inl e) \<or>
    (\<exists>i u. i \<in> set (invitations d) \<and> invitation_token_digest sha token = Inr (in_token_hash i)
      \<and> in_accepted_at i = None \<and> now < in_expires_at i \<and> pg_now d < in_expires_at i
      \<and> u_email u = in_email i \<and> u_role u = in_role i \<and> u_role u \<noteq> ''owner'' \<and> u_deleted_at u = None
      \<and> normalize_name name = Inr (u_name u) \<and> hash_password a nfkc salt password = Inr (u_password_hash u)
      \<and> users d' = users d @ [u]
      \<and> invitations d' = map (\<lambda>x. if x = i then x\<lparr>in_accepted_at := Some (pg_now d)\<rparr> else x) (invitations d)
      \<and> sessions d' = sessions d \<and> resets d' = resets d \<and> schema_ok d' \<and> uuids_ok d'
      \<and> (r = Inr (user_of u) \<or> (\<exists>e. r = Inl (CommitTx e))))"
  using assms(3)
proof (cases rule: accept_invited_cases)
  case (refused e)
  then show ?thesis by blast
next
  case (redeemed d0 digest full hash u d1 ds)
  note digest = redeemed(4) and body = redeemed(5)
  note same = untouched_fields [OF redeemed(1)] and ok = untouched_ok [OF redeemed(1)]
  have "schema_ok d0" "uuids_ok d0" using assms(1,2) by (simp_all add: ok)
  from accept_body_Inr [OF body this] obtain i n xs where
    i: "i \<in> set (invitations d0)" "in_token_hash i = digest" "in_accepted_at i = None" "now < in_expires_at i"
      "pg_now d0 < in_expires_at i" and
    u: "u_email u = in_email i" "u_role u = in_role i" "u_name u = full" "u_password_hash u = hash"
      "u_deleted_at u = None" and
    ok1: "schema_ok d1" "uuids_ok d1" and
    d1: "d1 = d0\<lparr>deliveries := xs, uuid_count := n, users := users d0 @ [u],
       invitations := map (\<lambda>x. if x = i then x\<lparr>in_accepted_at := Some (pg_now d0)\<rparr> else x) (invitations d0)\<rparr>" .
  have i': "i \<in> set (invitations d)" "pg_now d < in_expires_at i" using i same by simp_all
  have ok': "schema_ok d'" "uuids_ok d'" using ok1 unfolding redeemed(6) by (simp_all add: uuids_ok_def)
  have d': "users d' = users d @ [u]" "sessions d' = sessions d" "resets d' = resets d"
    "invitations d' = map (\<lambda>x. if x = i then x\<lparr>in_accepted_at := Some (pg_now d)\<rparr> else x) (invitations d)"
    unfolding redeemed(6) d1 using same by simp_all
  show ?thesis
    using digest i(2-4) i' u d' ok' redeemed(2,3,7) stamped_invitations_ok [OF assms(1) i'(1)]
    by (intro disjI2 exI [of _ i] exI [of _ u]) simp
qed

subsection \<open>Properties\<close>

text \<open>
  C14: redeeming is all or nothing, whatever happens to the statements on the way.  Either nothing
  changes and an error is answered, or exactly one account is added, with the address and the role the
  invitation names, never the owner's, the name and the hash of the password the caller chose, and
  exactly that invitation, still open by the clocks of both the application and the database, is
  stamped, the constraints of the schema still hold, and the caller is told so, or that the commit's
  outcome is unknown.
\<close>
theorem redeeming_all_or_nothing:
  assumes "schema_ok d" "uuids_ok d"
    and "accept_invited in_tx pg_tx_store sha a nfkc salt now token name password d = (r, d')"
  shows "untouched d d' \<and> (\<exists>e. r = Inl e) \<or>
    (\<exists>i u. i \<in> set (invitations d) \<and> invitation_token_digest sha token = Inr (in_token_hash i)
      \<and> in_accepted_at i = None \<and> now < in_expires_at i \<and> pg_now d < in_expires_at i
      \<and> u_email u = in_email i \<and> u_role u = in_role i \<and> u_role u \<noteq> ''owner'' \<and> u_deleted_at u = None
      \<and> normalize_name name = Inr (u_name u) \<and> hash_password a nfkc salt password = Inr (u_password_hash u)
      \<and> users d' = users d @ [u]
      \<and> invitations d' = map (\<lambda>x. if x = i then x\<lparr>in_accepted_at := Some (pg_now d)\<rparr> else x) (invitations d)
      \<and> sessions d' = sessions d \<and> resets d' = resets d \<and> schema_ok d' \<and> uuids_ok d'
      \<and> (r = Inr (user_of u) \<or> (\<exists>e. r = Inl (CommitTx e))))"
  by (rule redeeming_effect [OF assms])

text \<open>
  A link works once.  After a redemption that answered with an account, the same link is refused
  at every later time, with any name and password and whatever becomes of the statements, and nothing
  changes.
\<close>
theorem invitation_single_use:
  assumes "schema_ok d" "uuids_ok d"
    and "accept_invited in_tx pg_tx_store sha a nfkc salt now token name password d = (Inr who, d')"
    and "accept_invited in_tx pg_tx_store sha a' nfkc' salt' now' token name' password'
      (d'\<lparr>pg_now := t, deliveries := ds\<rparr>) = (r, d'')"
  shows "untouched (d'\<lparr>pg_now := t, deliveries := ds\<rparr>) d'' \<and> (\<exists>e. r = Inl e)"
proof -
  let ?e = "d'\<lparr>pg_now := t, deliveries := ds\<rparr>"
  obtain i where i: "i \<in> set (invitations d)" "invitation_token_digest sha token = Inr (in_token_hash i)"
    and d': "invitations d' = map (\<lambda>x. if x = i then x\<lparr>in_accepted_at := Some (pg_now d)\<rparr> else x) (invitations d)"
      "schema_ok d'" "uuids_ok d'"
    using redeeming_effect [OF assms(1-3)] by auto
  have ok: "schema_ok ?e" "uuids_ok ?e" using d'(2,3) by (simp_all add: uuids_ok_def)
  have dist: "distinct (map in_token_hash (invitations d))" using assms(1) by (simp add: schema_defs)
  have spent: "in_accepted_at x \<noteq> None"
    if "x \<in> set (invitations ?e)" "in_token_hash x = in_token_hash i" for x
  proof -
    obtain y where y: "y \<in> set (invitations d)" "x = (if y = i then y\<lparr>in_accepted_at := Some (pg_now d)\<rparr> else y)"
      using \<open>x \<in> set (invitations ?e)\<close> d'(1) by auto
    have "in_token_hash y = in_token_hash i" using y(2) that(2) by (auto split: if_splits)
    then have "y = i" by (rule inj_key [OF dist y(1) i(1)])
    then show ?thesis using y(2) by simp
  qed
  have "\<not> (j \<in> set (invitations ?e) \<and> invitation_token_digest sha token = Inr (in_token_hash j)
      \<and> in_accepted_at j = None)" for j
    using i(2) spent [of j] by auto
  with redeeming_effect [OF ok assms(4)] show ?thesis by blast
qed

subsection \<open>Inviting\<close>

lemma expire_open_Inr:
  assumes "expire_open_invitations_for_email email d = (Inr n, d')"
  shows "\<exists>xs. d' = d\<lparr>deliveries := xs, invitations :=
    update_rows (\<lambda>r. pg_lower d (in_email r) = pg_lower d email \<and> in_accepted_at r = None \<and> in_expires_at r > pg_now d)
      (\<lambda>r. r\<lparr>in_expires_at := pg_now d\<rparr>) (invitations d)\<rparr>"
  using assms [unfolded expire_open_invitations_for_email_def]
  by (rule statement_Inr) (auto simp: Let_def)

lemma create_invitation_Inr:
  assumes "create_invitation email h by_id role e d = (Inr i, d')"
  shows "in_email i = email \<and> in_token_hash i = h \<and> in_role i = role \<and> in_expires_at i = e \<and>
    in_accepted_at i = None \<and> to_uuid d by_id = Some (in_invited_by i) \<and>
    role \<in> {''maintainer'', ''contributor'', ''viewer''} \<and> h \<notin> in_token_hash ` set (invitations d) \<and>
    in_id i = next_uuid d \<and>
    (\<exists>n xs. d' = d\<lparr>deliveries := xs, uuid_count := n, invitations := invitations d @ [i]\<rparr>)"
  using assms [unfolded create_invitation_def]
  by (rule statement_Inr) (auto simp: Let_def with_uuid_def next_uuid_def split: if_splits option.splits)

lemma create_body_Inr:
  assumes "create_body pg_tx_store address digest by_id role now d = (Inr i, d')"
  obtains xs n where "\<forall>u \<in> set (users_live d). pg_lower d (u_email u) \<noteq> pg_lower d address"
    "in_email i = address" "in_token_hash i = digest" "in_role i = role" "role \<noteq> ''owner''"
    "in_expires_at i = now + InvitationWindow" "in_accepted_at i = None" "to_uuid d by_id = Some (in_invited_by i)"
    "digest \<notin> in_token_hash ` set (invitations d)"
    "d' = d\<lparr>deliveries := xs, uuid_count := n, invitations := update_rows
       (\<lambda>r. pg_lower d (in_email r) = pg_lower d address \<and> in_accepted_at r = None \<and> in_expires_at r > pg_now d)
       (\<lambda>r. r\<lparr>in_expires_at := pg_now d\<rparr>) (invitations d) @ [i]\<rparr>"
proof -
  obtain d1 n1 d2 where get: "get_user_by_email address d = (Inl NoRows, d1)"
    and exp: "expire_open_invitations_for_email address d1 = (Inr n1, d2)"
    and cre: "create_invitation address digest by_id role (new_invitation_expiry now) d2 = (Inr i, d')"
    using assms by (auto simp: create_body_def split: prod.splits sum.splits if_splits)
  note g = get_user_NoRows [OF get] and c = create_invitation_Inr [OF cre]
  obtain m zs where d1: "d1 = d\<lparr>uuid_count := m, deliveries := zs\<rparr>" using g unfolding untouched_def by blast
  obtain xs where d2: "d2 = d1\<lparr>deliveries := xs, invitations := update_rows
     (\<lambda>r. pg_lower d1 (in_email r) = pg_lower d1 address \<and> in_accepted_at r = None \<and> in_expires_at r > pg_now d1)
     (\<lambda>r. r\<lparr>in_expires_at := pg_now d1\<rparr>) (invitations d1)\<rparr>" using expire_open_Inr [OF exp] by blast
  obtain n ys where d': "d' = d2\<lparr>deliveries := ys, uuid_count := n, invitations := invitations d2 @ [i]\<rparr>"
    using c by blast
  have hashes: "in_token_hash ` set (invitations d2) = in_token_hash ` set (invitations d)"
    unfolding d2 d1 by (simp add: update_rows_image)
  have "d' = d\<lparr>deliveries := ys, uuid_count := n, invitations := update_rows
       (\<lambda>r. pg_lower d (in_email r) = pg_lower d address \<and> in_accepted_at r = None \<and> in_expires_at r > pg_now d)
       (\<lambda>r. r\<lparr>in_expires_at := pg_now d\<rparr>) (invitations d) @ [i]\<rparr>"
    unfolding d' d2 d1 by simp
  moreover have "to_uuid d2 = to_uuid d" unfolding d2 d1 by simp
  ultimately show ?thesis
    using g c hashes by (intro that [of n ys]) (auto simp: new_invitation_expiry_def)
qed

lemma create_invited_cases:
  fixes r :: "'e invitations_error + invited"
  assumes "create_invited in_tx pg_tx_store sha parse_address join_path deliver random now by_id email role d
    = ((r, sent), d')"
  obtains (refused) e where "untouched d d'" "r = Inl e" "sent = None"
  | (invited) d0 address token digest i d1 ds where "untouched d d0" "normalize_email parse_address email = Inr address"
      "new_invitation_token sha random = Inr (token, digest)"
      "create_body pg_tx_store address digest by_id role now d0
        = (Inr i :: 'e invitations_error + invitation_row, d1)" "d' = d1\<lparr>deliveries := ds\<rparr>"
      "sent = None \<and> (\<exists>e. r = Inl (CommitTx e)) \<or>
       sent = Some (invitation_message join_path address token) \<and>
       (let answer = \<lparr>inv_id = in_id i, inv_email = in_email i, inv_role = in_role i, inv_expires_at = in_expires_at i\<rparr>
        in r = (case deliver (invitation_message join_path address token) of
                  None \<Rightarrow> Inr answer | Some e \<Rightarrow> Inl (ErrUndeliverable answer e)))"
proof -
  consider e where "r = Inl e" "sent = None" "d' = d"
    | address token digest where "normalize_email parse_address email = Inr address" "check_invitable role = None"
      "new_invitation_token sha random = Inr (token, digest)"
    using assms by (auto simp: create_invited_def split: sum.splits option.splits prod.splits)
  then show ?thesis
  proof cases
    case 1
    then show ?thesis by (intro refused [of e]) simp_all
  next
    case 2
    obtain v :: "'e invitations_error tx_error + invitation_row" where tx: "in_tx (create_body pg_tx_store address digest by_id role now) d = (v, d')"
      using assms 2
      by (auto simp: create_invited_def Let_def split: prod.splits sum.splits option.splits)
    note full = assms [unfolded create_invited_def 2 sum.case option.case prod.case tx Let_def]
    from tx show ?thesis
    proof (cases rule: in_tx_cases)
      case (clean e)
      then have "\<exists>e'. r = Inl e' \<and> sent = None"
        using full by (cases e) (auto simp: tx_outcome_def)
      with clean(1) show ?thesis using refused by metis
    next
      case (kept d0 i d1 ds)
      with full show ?thesis
        by (intro invited [of d0 address token digest i d1 ds])
          (auto simp: 2 tx_outcome_def Let_def split: option.splits)
    qed
  qed
qed

definition open_invitations :: "pg \<Rightarrow> string \<Rightarrow> invitation_row list" where
  "open_invitations d email = filter (\<lambda>r. pg_lower d (in_email r) = pg_lower d email \<and> in_accepted_at r = None
     \<and> in_expires_at r > pg_now d) (invitations d)"

lemma none_open_after_expiry:
  "filter (\<lambda>r. pg_lower d (in_email r) = k \<and> in_accepted_at r = None \<and> in_expires_at r > pg_now d)
    (update_rows (\<lambda>r. pg_lower d (in_email r) = k \<and> in_accepted_at r = None \<and> in_expires_at r > pg_now d)
      (\<lambda>r. r\<lparr>in_expires_at := pg_now d\<rparr>) rows) = []"
  by (induction rows) (simp_all add: update_rows_def)

text \<open>
  An address has one invitation, and only the message opens it.  Whatever becomes of the
  statements and of the message, \<open>Create\<close> changes nothing and sends nothing, or the address, which had
  no account, has a new invitation, to the role asked for and never the owner's, that ends after seven
  days; no other invitation to the address is open, in whatever case it was written; and the token of
  which the row holds the digest is in no answer, only in the one message, to that address.
\<close>
theorem inviting_leaves_one_open:
  assumes "create_invited in_tx pg_tx_store sha parse_address join_path deliver random now by_id email role d
      = ((r, sent), d')"
  shows "untouched d d' \<and> sent = None \<and> (\<exists>e. r = Inl e) \<or>
    (\<exists>address token i. normalize_email parse_address email = Inr address
      \<and> new_invitation_token sha random = Inr (token, in_token_hash i)
      \<and> (\<forall>u \<in> set (users_live d). pg_lower d (u_email u) \<noteq> pg_lower d address)
      \<and> in_email i = address \<and> in_role i = role \<and> role \<noteq> ''owner'' \<and> in_accepted_at i = None
      \<and> in_expires_at i = now + 7 * 24 * hour
      \<and> open_invitations d' address = (if pg_now d < in_expires_at i then [i] else [])
      \<and> users d' = users d \<and> sessions d' = sessions d \<and> resets d' = resets d
      \<and> (sent = None \<and> (\<exists>e. r = Inl (CommitTx e)) \<or>
         sent = Some (invitation_message join_path address token) \<and>
         (\<exists>answer. r = Inr answer \<or> (\<exists>e. r = Inl (ErrUndeliverable answer e)))))"
  using assms
proof (cases rule: create_invited_cases)
  case (refused e)
  then show ?thesis by simp
next
  case (invited d0 address token digest i d1 ds)
  note same = untouched_fields [OF invited(1)]
  have live: "users_live d0 = users_live d" using same by (simp add: users_live_def)
  from create_body_Inr [OF invited(4)] obtain xs n where
    free: "\<forall>u \<in> set (users_live d0). pg_lower d0 (u_email u) \<noteq> pg_lower d0 address" and
    i: "in_email i = address" "in_token_hash i = digest" "in_role i = role" "role \<noteq> ''owner''"
      "in_expires_at i = now + InvitationWindow" "in_accepted_at i = None" and
    d1: "d1 = d0\<lparr>deliveries := xs, uuid_count := n, invitations := update_rows
       (\<lambda>r. pg_lower d0 (in_email r) = pg_lower d0 address \<and> in_accepted_at r = None \<and> in_expires_at r > pg_now d0)
       (\<lambda>r. r\<lparr>in_expires_at := pg_now d0\<rparr>) (invitations d0) @ [i]\<rparr>" .
  have "open_invitations d' address = (if pg_now d < in_expires_at i then [i] else [])"
    using same i by (simp add: open_invitations_def invited(5) d1 none_open_after_expiry)
  moreover have "users d' = users d" "sessions d' = sessions d" "resets d' = resets d"
    using same by (simp_all add: invited(5) d1)
  moreover have "\<forall>u \<in> set (users_live d). pg_lower d (u_email u) \<noteq> pg_lower d address"
    using free same live by simp
  moreover have "sent = None \<and> (\<exists>e. r = Inl (CommitTx e)) \<or>
         sent = Some (invitation_message join_path address token) \<and>
         (\<exists>answer. r = Inr answer \<or> (\<exists>e. r = Inl (ErrUndeliverable answer e)))"
    using invited(6) by (auto simp: Let_def split: option.splits)
  ultimately show ?thesis
    using invited(2,3) i by (intro disjI2 exI [of _ address] exI [of _ token] exI [of _ i])
      (simp add: InvitationWindow_def)
qed

subsection \<open>From the invitation to the first login\<close>

lemma create_user_ok:
  assumes "deliveries d = []" "not_blank email" "not_blank name" "role \<in> set account_roles" "role \<noteq> ''owner''"
    and "next_uuid d \<notin> u_id ` set (users d)"
    and "\<forall>u \<in> set (users_live d). pg_lower d (u_email u) \<noteq> pg_lower d email"
  shows "\<exists>u. create_user email name h role d
      = (Inr u, d\<lparr>uuid_count := uuid_count d + 1, users := users d @ [u]\<rparr>)
    \<and> u_email u = email \<and> u_name u = name \<and> u_password_hash u = h \<and> u_role u = role \<and> u_deleted_at u = None"
  using assms by (auto simp: create_user_def Let_def next_uuid_def)

lemma find_append_new: "\<forall>x \<in> set xs. \<not> P x \<Longrightarrow> P y \<Longrightarrow> find P (xs @ [y]) = Some y"
  by (induction xs) auto

text \<open>What is left of a trimmed string is not blank, so the schema takes it.\<close>

lemma trim_space_not_blank: "trim_space s = [] \<or> not_blank (trim_space s)"
proof (cases "trim_space s = []")
  case False
  let ?t = "trim_space s"
  have "trim_end ?t = 0" using False trim_right_result unfolding trim_space_def by blast
  then have "find (\<lambda>w. take (length w) (rev ?t) = rev w) trim_runes = None"
  proof (cases "find (\<lambda>w. take (length w) (rev ?t) = rev w) trim_runes")
    case (Some w)
    then have "w \<in> set trim_runes" "length w = 0"
      using find_in [OF Some] \<open>trim_end ?t = 0\<close> by (simp_all add: trim_end_def)
    then show ?thesis by (simp add: trim_runes_def space_runes_def)
  qed simp
  then have none: "\<not> (\<exists>w. w \<in> set trim_runes \<and> take (length w) (rev ?t) = rev w)"
    unfolding find_None_iff .
  have "[CHR 0x20] \<in> set trim_runes" by (simp add: trim_runes_def space_runes_def)
  with none have "take (length [CHR 0x20]) (rev ?t) \<noteq> rev [CHR 0x20]" by blast
  moreover obtain u c where t: "?t = u @ [c]" using False by (cases ?t rule: rev_cases) simp_all
  ultimately have "c \<noteq> CHR 0x20" unfolding t by simp
  then show ?thesis unfolding t by (simp add: not_blank_def)
qed simp

lemma normalized_not_blank:
  "normalize_name name = Inr full \<Longrightarrow> not_blank full"
  "normalize_email parse_address email = Inr address \<Longrightarrow> not_blank address"
  using trim_space_not_blank [of name] trim_space_not_blank [of email]
  by (auto simp: normalize_name_def normalize_email_def Let_def split: if_splits option.splits)

lemma invitable_role:
  "check_invitable role = None \<Longrightarrow> role \<in> {''maintainer'', ''contributor'', ''viewer''}"
  by (cases role rule: parse_role_cases) (auto simp: check_invitable_def parse_role_def split: if_splits)

text \<open>The two bodies when every statement is delivered.\<close>

lemma create_body_ok:
  assumes "deliveries d = []" "\<forall>u \<in> set (users_live d). pg_lower d (u_email u) \<noteq> pg_lower d address"
    and "role \<in> {''maintainer'', ''contributor'', ''viewer''}" "length digest = 32"
    and "digest \<notin> in_token_hash ` set (invitations d)" "next_uuid d \<notin> in_id ` set (invitations d)"
    and "to_uuid d by_id = Some by_id" "by_id \<in> u_id ` set (users d)"
  shows "\<exists>i old. create_body pg_tx_store address digest by_id role now d
      = (Inr i, d\<lparr>uuid_count := uuid_count d + 1, invitations := old @ [i]\<rparr>)
    \<and> digest \<notin> in_token_hash ` set old \<and> in_token_hash i = digest \<and> in_id i = next_uuid d
    \<and> in_id i \<notin> in_id ` set old \<and> in_email i = address \<and> in_role i = role
    \<and> in_expires_at i = now + InvitationWindow \<and> in_accepted_at i = None"
proof -
  have "get_user_by_email address d = (Inl NoRows, d)"
    using assms(1,2) by (simp add: get_user_by_email_def find_row_NoRows)
  moreover define old where "old = update_rows (\<lambda>r. pg_lower d (in_email r) = pg_lower d address
      \<and> in_accepted_at r = None \<and> in_expires_at r > pg_now d) (\<lambda>r. r\<lparr>in_expires_at := pg_now d\<rparr>) (invitations d)"
  have old: "in_token_hash ` set old = in_token_hash ` set (invitations d)"
    "in_id ` set old = in_id ` set (invitations d)"
    by (simp_all add: old_def update_rows_image)
  let ?i = "\<lparr>in_id = next_uuid d, in_email = address, in_token_hash = digest, in_invited_by = by_id, in_role = role,
      in_expires_at = new_invitation_expiry now, in_accepted_at = None, in_created_at = pg_now d\<rparr>"
  have "expire_open_invitations_for_email address d =
      (Inr (row_count (\<lambda>r. pg_lower d (in_email r) = pg_lower d address
      \<and> in_accepted_at r = None \<and> in_expires_at r > pg_now d) (invitations d)), d\<lparr>invitations := old\<rparr>)"
    using assms(1) by (simp add: expire_open_invitations_for_email_def Let_def old_def)
  moreover have "create_invitation address digest by_id role (new_invitation_expiry now) (d\<lparr>invitations := old\<rparr>)
      = (Inr ?i, d\<lparr>invitations := old, uuid_count := uuid_count d + 1, invitations := old @ [?i]\<rparr>)"
    using assms(1,3-8) by (simp add: create_invitation_def with_uuid_def Let_def old next_uuid_def)
  ultimately have "create_body pg_tx_store address digest by_id role now d
      = (Inr ?i, d\<lparr>uuid_count := uuid_count d + 1, invitations := old @ [?i]\<rparr>)"
    by (simp add: create_body_def)
  then show ?thesis
    using assms(5,6) by (intro exI [of _ ?i] exI [of _ old]) (simp add: old new_invitation_expiry_def)
qed

lemma accept_body_ok:
  assumes "deliveries d = []" "invitations d = old @ [i]" "in_token_hash i \<notin> in_token_hash ` set old"
    and "in_id i \<notin> in_id ` set old" "to_uuid d (in_id i) = Some (in_id i)"
    and "in_accepted_at i = None" "now < in_expires_at i" "pg_now d < in_expires_at i"
    and "not_blank (in_email i)" "not_blank full" "in_role i \<in> {''maintainer'', ''contributor'', ''viewer''}"
    and "next_uuid d \<notin> u_id ` set (users d)"
    and "\<forall>u \<in> set (users_live d). pg_lower d (u_email u) \<noteq> pg_lower d (in_email i)"
  shows "\<exists>u d'. accept_body pg_tx_store (in_token_hash i) full hash now d = (Inr u, d')
    \<and> users d' = users d @ [u] \<and> deliveries d' = [] \<and> pg_lower d' = pg_lower d
    \<and> u_email u = in_email i \<and> u_role u = in_role i \<and> u_password_hash u = hash \<and> u_deleted_at u = None"
proof -
  let ?d = "d\<lparr>invitations := update_rows (\<lambda>r. in_id r = in_id i \<and> in_accepted_at r = None \<and> in_expires_at r > pg_now d)
      (\<lambda>r. r\<lparr>in_accepted_at := Some (pg_now d)\<rparr>) (invitations d)\<rparr>"
  have get: "get_invitation_by_token_hash (in_token_hash i) d = (Inr i, d)"
  proof -
    have "find (\<lambda>r. in_token_hash r = in_token_hash i) (old @ [i]) = Some i"
      by (rule find_append_new) (use assms(3) in \<open>metis image_eqI\<close>, simp)
    then show ?thesis using assms(1,2) by (simp add: get_invitation_by_token_hash_def find_row_def)
  qed
  have other: "in_id x \<noteq> in_id i" if "x \<in> set old" for x
    using that assms(4) by (metis image_eqI)
  have acc: "accept_invitation (in_id i) d = (Inr 1, ?d)"
    using assms(1,2,4-6,8) by (auto simp: accept_invitation_def with_uuid_def Let_def row_count_def filter_empty_conv dest: other)
  have "in_role i \<in> set account_roles" "in_role i \<noteq> ''owner''" using assms(11) by (auto simp: account_roles_def)
  from create_user_ok [of ?d "in_email i" full "in_role i" hash, OF _ assms(9,10) this] assms(1,12,13)
  obtain u where "create_user (in_email i) full hash (in_role i) ?d
      = (Inr u, ?d\<lparr>uuid_count := uuid_count ?d + 1, users := users ?d @ [u]\<rparr>)"
    "u_email u = in_email i" "u_role u = in_role i" "u_password_hash u = hash" "u_deleted_at u = None"
    by (auto simp: users_live_def next_uuid_def)
  then show ?thesis
    using assms(6,7)
    by (simp add: accept_body_def get acc Let_def invitation_of_def invitation_is_usable_def
        invitation_is_accepted_def invitation_is_expired_def assms(1))
qed

lemma create_invited_ok:
  fixes deliver :: "mail_message \<Rightarrow> 'e option"
  assumes "deliveries d = []" "normalize_email parse_address email = Inr address" "check_invitable role = None"
    and "\<forall>u \<in> set (users_live d). pg_lower d (u_email u) \<noteq> pg_lower d address"
    and "to_uuid d by_id = Some by_id" "by_id \<in> u_id ` set (users d)"
    and "length (sha raw) = 32" "sha raw \<notin> in_token_hash ` set (invitations d)"
    and "next_uuid d \<notin> in_id ` set (invitations d)" "\<And>message. deliver message = None"
  obtains invited i old where
    "create_invited in_tx pg_tx_store sha parse_address join_path deliver (Some raw) now by_id email role d
      = ((Inr invited, Some (invitation_message join_path address (base64_encode url_alphabet raw))),
         d\<lparr>uuid_count := uuid_count d + 1, invitations := old @ [i]\<rparr>)"
    "sha raw \<notin> in_token_hash ` set old" "in_token_hash i = sha raw" "in_id i = next_uuid d"
    "in_id i \<notin> in_id ` set old" "in_email i = address" "in_role i = role"
    "in_expires_at i = now + InvitationWindow" "in_accepted_at i = None"
proof -
  from create_body_ok [OF assms(1,4) invitable_role [OF assms(3)] assms(7,8,9,5,6), of now]
  obtain i old where body: "create_body pg_tx_store address (sha raw) by_id role now d
      = (Inr i :: 'e invitations_error + invitation_row,
         d\<lparr>uuid_count := uuid_count d + 1, invitations := old @ [i]\<rparr>)"
    and i: "sha raw \<notin> in_token_hash ` set old" "in_token_hash i = sha raw" "in_id i = next_uuid d"
      "in_id i \<notin> in_id ` set old" "in_email i = address" "in_role i = role"
      "in_expires_at i = now + InvitationWindow" "in_accepted_at i = None" by blast
  let ?d1 = "d\<lparr>uuid_count := uuid_count d + 1, invitations := old @ [i]\<rparr>"
  have "in_tx (create_body pg_tx_store address (sha raw) by_id role now) d
      = (Inr i :: 'e invitations_error tx_error + invitation_row, ?d1)"
    by (rule in_tx_ok) (simp_all add: assms(1) body)
  then have "create_invited in_tx pg_tx_store sha parse_address join_path deliver (Some raw)
      now by_id email role d = ((Inr \<lparr>inv_id = in_id i, inv_email = in_email i, inv_role = in_role i,
        inv_expires_at = in_expires_at i\<rparr>,
        Some (invitation_message join_path address (base64_encode url_alphabet raw))), ?d1)"
    using assms(2,3,10) by (simp add: create_invited_def new_invitation_token_def new_opaque_token_def
        tx_outcome_def Let_def)
  from that [OF this i] show ?thesis .
qed

lemma accept_invited_ok:
  assumes "deliveries d = []" "invitations d = old @ [i]" "in_token_hash i \<notin> in_token_hash ` set old"
    and "in_id i \<notin> in_id ` set old" "to_uuid d (in_id i) = Some (in_id i)"
    and "in_accepted_at i = None" "now < in_expires_at i" "pg_now d < in_expires_at i"
    and "not_blank (in_email i)" "in_role i \<in> {''maintainer'', ''contributor'', ''viewer''}"
    and "next_uuid d \<notin> u_id ` set (users d)"
    and "\<forall>u \<in> set (users_live d). pg_lower d (u_email u) \<noteq> pg_lower d (in_email i)"
    and "invitation_token_digest sha token = Inr (in_token_hash i)"
    and "normalize_name name = Inr full" "hash_password a nfkc salt password = Inr h"
  obtains u d' where
    "accept_invited in_tx pg_tx_store sha a nfkc salt now token name password d
      = (Inr (user_of u) :: 'e invitations_error + user, d')"
    "users d' = users d @ [u]" "deliveries d' = []" "pg_lower d' = pg_lower d"
    "u_email u = in_email i" "u_role u = in_role i" "u_password_hash u = h" "u_deleted_at u = None"
proof -
  from accept_body_ok [OF assms(1-9) normalized_not_blank(1) [OF assms(14)] assms(10-12), of h]
  obtain u d' where acc: "accept_body pg_tx_store (in_token_hash i) full h now d
      = (Inr u :: 'e invitations_error + user_row, d')"
    and d': "users d' = users d @ [u]" "deliveries d' = []" "pg_lower d' = pg_lower d"
      "u_email u = in_email i" "u_role u = in_role i" "u_password_hash u = h" "u_deleted_at u = None" by blast
  have "in_tx (accept_body pg_tx_store (in_token_hash i) full h now) d
      = (Inr u :: 'e invitations_error tx_error + user_row, d')"
    by (rule in_tx_ok) (simp add: assms(1), rule acc, rule d'(2))
  then have "accept_invited in_tx pg_tx_store sha a nfkc salt now token name password d
      = (Inr (user_of u) :: 'e invitations_error + user, d')"
    using assms(13-15) by (simp add: accept_invited_def tx_outcome_def)
  from that [OF this d'] show ?thesis .
qed

text \<open>
  C16: an invitation leads to a login.  When nothing fails on the way, inviting an address that has no
  account mails a link; whoever opens it before its seven days are over and chooses an acceptable name
  and password gets an account of that address and role; and from then on the address and that password
  sign in as it.
\<close>
theorem invited_account_signs_in:
  fixes deliver :: "mail_message \<Rightarrow> 'e option"
  assumes "pg_sound d" "normalize_email parse_address email = Inr address" "check_invitable role = None"
    and "\<forall>u \<in> set (users_live d). pg_lower d (u_email u) \<noteq> pg_lower d address"
    and "to_uuid d by_id = Some by_id" "by_id \<in> u_id ` set (users d)"
    and "length raw = opaque_token_bytes" "length (sha raw) = 32" "sha raw \<notin> in_token_hash ` set (invitations d)"
    and "next_uuid d \<notin> in_id ` set (invitations d)" "new_uuid d (uuid_count d + 1) \<notin> u_id ` set (users d)"
    and "\<And>message. deliver message = None"
    and "normalize_name name = Inr full" "hash_password a nfkc (Some salt) password = Inr h"
    and "argon2_documented a" "length salt = saltLength" "0 < cpus"
    and "opened < now + 7 * 24 * hour" "at < now + 7 * 24 * hour"
  shows "\<exists>token invited d1 who d2.
      create_invited in_tx pg_tx_store sha parse_address join_path deliver (Some raw) now by_id email role d
        = ((Inr invited, Some (invitation_message join_path address token)), d1)
    \<and> accept_invited in_tx pg_tx_store sha a nfkc (Some salt) opened token name password (d1\<lparr>pg_now := at\<rparr>)
        = (Inr who :: 'e invitations_error + user, d2)
    \<and> user_email who = address \<and> user_role who = role
    \<and> check_credentials pg_user_store a cpus nfkc decoy any_salt address password d2 = ((Inr who, Some h), d2)"
proof -
  have none: "deliveries d = []" using assms(1) by (simp add: pg_sound_def)
  let ?token = "base64_encode url_alphabet raw"
  from create_invited_ok [where deliver = deliver and join_path = join_path and now = now and sha = sha and raw = raw,
      OF none assms(2-6,8-10,12)]
  obtain invited i old where created:
    "create_invited in_tx pg_tx_store sha parse_address join_path deliver (Some raw) now by_id email role d
      = ((Inr invited, Some (invitation_message join_path address ?token)),
         d\<lparr>uuid_count := uuid_count d + 1, invitations := old @ [i]\<rparr>)"
    and i: "sha raw \<notin> in_token_hash ` set old" "in_token_hash i = sha raw" "in_id i = next_uuid d"
      "in_id i \<notin> in_id ` set old" "in_email i = address" "in_role i = role"
      "in_expires_at i = now + InvitationWindow" "in_accepted_at i = None" .
  let ?d = "d\<lparr>uuid_count := uuid_count d + 1, invitations := old @ [i]\<rparr>\<lparr>pg_now := at\<rparr>"
  have uuid: "to_uuid ?d (in_id i) = Some (in_id i)"
    using assms(1) by (simp add: i(3) pg_sound_def uuids_ok_def next_uuid_def)
  have digest: "invitation_token_digest sha ?token = Inr (in_token_hash i)"
    using decode_new_opaque_token [of sha raw ?token "sha raw"] assms(7)
    by (simp add: invitation_token_digest_def new_opaque_token_def i(2))
  obtain u d2 where accepted: "accept_invited in_tx pg_tx_store sha a nfkc (Some salt) opened ?token name password ?d
      = (Inr (user_of u) :: 'e invitations_error + user, d2)"
    and d2: "users d2 = users ?d @ [u]" "deliveries d2 = []" "pg_lower d2 = pg_lower ?d"
    and u: "u_email u = in_email i" "u_role u = in_role i" "u_password_hash u = h" "u_deleted_at u = None"
    by (rule accept_invited_ok [where old = old, OF _ _ _ _ uuid _ _ _ _ _ _ _ digest assms(13,14)])
      (use none i assms(4,11,18,19) normalized_not_blank(2) [OF assms(2)] invitable_role [OF assms(3)]
        in \<open>simp_all add: InvitationWindow_def next_uuid_def users_live_def\<close>)
  have account: "pg_account d2 address = Some u"
    using find_append_new [of "users_live d" "\<lambda>u. pg_lower d (u_email u) = pg_lower d address" u] assms(4) u d2 i(5)
    by (simp add: pg_account_def users_live_def)
  have "verify_password a cpus nfkc (u_password_hash u) password = None" "\<not> needs_rehash a cpus (u_password_hash u)"
    using verify_fresh [OF assms(14-17)] assms(14) by (simp_all add: u hash_password_Inr)
  with pg_users.right_password [OF d2(2) account this(1), of decoy any_salt]
  have "check_credentials pg_user_store a cpus nfkc decoy any_salt address password d2 = ((Inr (user_of u), Some h), d2)"
    by (simp add: user_of_def rehash_def u)
  moreover have "user_email (user_of u) = address" "user_role (user_of u) = role" by (simp_all add: user_of_def u i)
  ultimately show ?thesis using created accepted by blast
qed

subsection \<open>A repository in which the properties are used\<close>

definition sample_invitation :: invitation_row where
  "sample_invitation = \<lparr>in_id = ''i1'', in_email = ''budi@example.com'', in_token_hash = replicate 32 7,
     in_invited_by = ''u1'', in_role = ''contributor'', in_expires_at = 100, in_accepted_at = None, in_created_at = 0\<rparr>"

definition sample_invited :: pg where
  "sample_invited = (sample_accounts ''x'')\<lparr>invitations := [sample_invitation]\<rparr>"

definition sample_link :: string where
  "sample_link = base64_encode url_alphabet (replicate 32 7)"

lemma sample_invited_ok: "schema_ok sample_invited" "uuids_ok sample_invited"
  by (simp_all add: sample_invited_def sample_accounts_def sample_account_def sample_invitation_def schema_defs
      users_live_def uuids_ok_def account_roles_def)

lemma sample_link_digest: "invitation_token_digest id sample_link = Inr (replicate 32 7)"
  using decode_new_opaque_token [of id "replicate 32 7"]
  by (simp add: sample_link_def invitation_token_digest_def new_opaque_token_def opaque_token_bytes_def)

lemma sample_texts:
  "normalize_name '' Budi '' = Inr ''Budi''"
  "normalize_email Some ''budi@example.com'' = Inr ''budi@example.com''"
  "check_invitable ''contributor'' = None"
  by code_simp+

lemma sample_redeemed:
  "\<exists>who d'. accept_invited in_tx pg_tx_store id sample_argon2 id (Some (replicate 16 1)) 5 sample_link '' Budi ''
    ''correct horse'' sample_invited = (Inr who :: 'e invitations_error + user, d')
    \<and> deliveries d' = []"
proof -
  obtain h where h: "hash_password sample_argon2 id (Some (replicate 16 1)) ''correct horse'' = Inr h"
    using sample_hash by blast
  have digest: "invitation_token_digest id sample_link = Inr (in_token_hash sample_invitation)"
    by (simp add: sample_link_digest sample_invitation_def)
  have state: "deliveries sample_invited = []" "invitations sample_invited = [] @ [sample_invitation]"
    "in_token_hash sample_invitation \<notin> in_token_hash ` set []" "in_id sample_invitation \<notin> in_id ` set []"
    "to_uuid sample_invited (in_id sample_invitation) = Some (in_id sample_invitation)"
    "in_accepted_at sample_invitation = None" "5 < in_expires_at sample_invitation"
    "pg_now sample_invited < in_expires_at sample_invitation" "not_blank (in_email sample_invitation)"
    "in_role sample_invitation \<in> {''maintainer'', ''contributor'', ''viewer''}"
    "next_uuid sample_invited \<notin> u_id ` set (users sample_invited)"
    "\<forall>u \<in> set (users_live sample_invited). pg_lower sample_invited (u_email u)
      \<noteq> pg_lower sample_invited (in_email sample_invitation)"
    by (simp_all add: sample_invited_def sample_accounts_def sample_account_def sample_invitation_def
        not_blank_def next_uuid_def users_live_def)
  from accept_invited_ok [OF state digest sample_texts(1) h]
  obtain u d' where "accept_invited in_tx pg_tx_store id sample_argon2 id (Some (replicate 16 1)) 5 sample_link
      '' Budi '' ''correct horse'' sample_invited = (Inr (user_of u) :: 'e invitations_error + user, d')"
    "deliveries d' = []" .
  then show ?thesis by blast
qed

lemma redeeming_all_or_nothing_witness:
  "\<exists>who d'. accept_invited in_tx pg_tx_store id sample_argon2 id (Some (replicate 16 1)) 5 sample_link '' Budi ''
      ''correct horse'' sample_invited = (Inr who :: unit invitations_error + user, d')
    \<and> length (users d') = 2 \<and> map in_accepted_at (invitations d') = [Some 5]"
proof -
  obtain who d' where r: "accept_invited in_tx pg_tx_store id sample_argon2 id (Some (replicate 16 1)) 5 sample_link
      '' Budi '' ''correct horse'' sample_invited = (Inr who :: unit invitations_error + user, d')"
    using sample_redeemed by blast
  from redeeming_all_or_nothing [OF sample_invited_ok r]
  have "length (users d') = 2 \<and> map in_accepted_at (invitations d') = [Some 5]"
    by (auto simp: sample_invited_def sample_accounts_def)
  with r show ?thesis by (intro exI [of _ who] exI [of _ d']) simp
qed

lemma invitation_single_use_witness:
  "\<exists>who d' e d''. accept_invited in_tx pg_tx_store id sample_argon2 id (Some (replicate 16 1)) 5 sample_link '' Budi ''
      ''correct horse'' sample_invited = (Inr who :: unit invitations_error + user, d')
    \<and> accept_invited in_tx pg_tx_store id sample_argon2 id (Some (replicate 16 1)) 6 sample_link ''Mallory''
      ''battery staple'' (d'\<lparr>pg_now := 6, deliveries := []\<rparr>) = (Inl e :: unit invitations_error + user, d'')"
proof -
  obtain who d' where r: "accept_invited in_tx pg_tx_store id sample_argon2 id (Some (replicate 16 1)) 5 sample_link
      '' Budi '' ''correct horse'' sample_invited = (Inr who :: unit invitations_error + user, d')"
    using sample_redeemed by blast
  obtain v d'' where v: "accept_invited in_tx pg_tx_store id sample_argon2 id (Some (replicate 16 1)) 6 sample_link
      ''Mallory'' ''battery staple'' (d'\<lparr>pg_now := 6, deliveries := []\<rparr>) = (v :: unit invitations_error + user, d'')"
    by fastforce
  with invitation_single_use [OF sample_invited_ok r v] r show ?thesis by blast
qed

lemma inviting_leaves_one_open_witness:
  "\<exists>message d'. snd (fst (create_invited in_tx pg_tx_store id Some (\<lambda>x y. x @ y) (\<lambda>_. None :: unit option)
        (Some (replicate 32 9)) 10 ''u1'' ''budi@example.com'' ''contributor'' sample_invited)) = Some message
    \<and> snd (create_invited in_tx pg_tx_store id Some (\<lambda>x y. x @ y) (\<lambda>_. None :: unit option)
        (Some (replicate 32 9)) 10 ''u1'' ''budi@example.com'' ''contributor'' sample_invited) = d'
    \<and> length (open_invitations d' ''budi@example.com'') = 1"
proof -
  have state: "\<forall>u \<in> set (users_live sample_invited). pg_lower sample_invited (u_email u)
      \<noteq> pg_lower sample_invited ''budi@example.com''"
    "to_uuid sample_invited ''u1'' = Some ''u1''" "''u1'' \<in> u_id ` set (users sample_invited)"
    "length (id (replicate 32 9 :: byte list)) = 32"
    "id (replicate 32 9) \<notin> in_token_hash ` set (invitations sample_invited)"
    "next_uuid sample_invited \<notin> in_id ` set (invitations sample_invited)" "deliveries sample_invited = []"
    by (simp_all add: sample_invited_def sample_accounts_def sample_account_def sample_invitation_def
        next_uuid_def users_live_def)
  obtain invited i old where r: "create_invited in_tx pg_tx_store id Some (\<lambda>x y. x @ y) (\<lambda>_. None :: unit option)
        (Some (replicate 32 9)) 10 ''u1'' ''budi@example.com'' ''contributor'' sample_invited
      = ((Inr invited, Some (invitation_message (\<lambda>x y. x @ y) ''budi@example.com''
           (base64_encode url_alphabet (replicate 32 9)))),
         sample_invited\<lparr>uuid_count := uuid_count sample_invited + 1, invitations := old @ [i]\<rparr>)"
    by (rule create_invited_ok [where deliver = "\<lambda>_. None :: unit option" and join_path = "\<lambda>x y. x @ y"
          and now = 10 and sha = id and raw = "replicate 32 9", OF state(7) sample_texts(2,3) state(1-6) refl]) (rule that)
  from inviting_leaves_one_open [OF r] r sample_texts(2) show ?thesis
    by (auto simp: sample_invited_def sample_accounts_def duration_defs)
qed

lemma invited_account_signs_in_witness:
  "\<exists>who h d2. user_role who = ''contributor''
    \<and> check_credentials pg_user_store sample_argon2 4 id ''decoy'' None ''budi@example.com'' ''correct horse'' d2
      = ((Inr who, Some h), d2)"
proof -
  obtain h where h: "hash_password sample_argon2 id (Some (replicate 16 1)) ''correct horse'' = Inr h"
    using sample_hash by blast
  let ?d = "sample_accounts ''x''"
  have "pg_sound ?d"
    by (simp add: pg_sound_def sample_accounts_def sample_account_def schema_defs users_live_def uuids_ok_def
        account_roles_def)
  from invited_account_signs_in [where deliver = "\<lambda>_. None :: unit option" and sha = id and raw = "replicate 32 9"
      and by_id = "''u1''" and cpus = 4 and now = 10 and opened = 20 and at = 30, OF this sample_texts(2,3) _ _ _ _ _ _ _ _ _
      sample_texts(1) h sample_argon2_documented, of "\<lambda>x y. x @ y" "''decoy''" None]
  show ?thesis
    by (auto simp: sample_accounts_def sample_account_def users_live_def opaque_token_bytes_def next_uuid_def
        saltLength_def duration_defs)
qed

end
