(* ===== verification/Api_Properties.thy ===== *)
theory Api_Properties
  imports Api_Invariants Sessions_Properties Login_Guard_Properties Password_Resets_Properties Invitations_Properties
begin

text \<open>
  What holds of every request the application serves, whichever route it takes.
\<close>

subsection \<open>The chain\<close>

lemma api_handler_unfold:
  "api_handler app answers unmatched dr r s =
    (let i = hex_encode (dr_id dr);
         (answer, s') = csrf (app_to_lower app) (mux app answers unmatched) dr (r\<lparr>rq_id := i\<rparr>) s
     in (answer\<lparr>rs_request_id := i\<rparr>, s'))"
  by (simp add: api_handler_def chain_def request_id_def)

lemma request_fields [simp]:
  "header_get (r\<lparr>rq_id := i\<rparr>) name = header_get r name"
  "header_values (r\<lparr>rq_id := i\<rparr>) name = header_values r name"
  "request_cookie (r\<lparr>rq_id := i\<rparr>) name = request_cookie r name"
  "csrf_exempt low (r\<lparr>rq_id := i\<rparr>) = csrf_exempt low r"
  "csrf_cookie_token (r\<lparr>rq_id := i\<rparr>) = csrf_cookie_token r"
  "header_values (r\<lparr>rq_caller := c\<rparr>) name = header_values r name"
  by (simp_all add: header_get_def header_values_def request_cookie_def csrf_exempt_def csrf_cookie_token_def)

text \<open>Does the request present the pair?\<close>

definition presents_pair :: "'c request \<Rightarrow> bool" where
  "presents_pair r \<longleftrightarrow>
     (\<exists>v raw. request_cookie r CSRFCookieName = Some v \<and> base64_decode url_alphabet v = Some raw \<and>
        length raw = csrfTokenBytes \<and> header_get r CSRFHeaderName = v)"

lemma csrf_token_decodes:
  "csrf_cookie_token r = Some v \<longleftrightarrow> request_cookie r CSRFCookieName = Some v \<and>
    (\<exists>raw. base64_decode url_alphabet v = Some raw \<and> length raw = csrfTokenBytes)"
  by (auto simp: csrf_cookie_token_def split: option.splits)

lemma csrf_pair:
  assumes "csrf_cookie_token r = Some v"
  shows "csrf_failure v (header_get r CSRFHeaderName) = '''' \<longleftrightarrow> presents_pair r"
proof -
  have "v \<noteq> ''''"
    using assms by (auto simp: csrf_token_decodes base64_decode_def csrfTokenBytes_def)
  then show ?thesis using assms
    by (auto simp: csrf_token_decodes csrf_failure_def presents_pair_def)
qed


subsection \<open>The shape of an answer\<close>

definition contract_codes :: "error_code set" where
  "contract_codes = {CodeValidationFailed, CodeUnauthenticated, CodeForbidden, CodeNotFound, CodeConflict,
     CodeRateLimited, CodeInternal}"

definition host_cookie :: "set_cookie \<Rightarrow> bool" where
  "host_cookie c \<longleftrightarrow> ck_secure c \<and> ck_path c = ''/'' \<and> ck_lax c \<and>
     (ck_name c = SessionCookieName \<and> ck_http_only c \<or> ck_name c = CSRFCookieName)"

text \<open>What an answer to the request with the identifier \<open>i\<close> looks like.\<close>

definition well_formed :: "string \<Rightarrow> 'b response \<Rightarrow> bool" where
  "well_formed i a \<longleftrightarrow>
     (case rs_body a of
        ErrorBody e \<Rightarrow> eb_code e \<in> contract_codes \<and> rs_status a = status_of (eb_code e) \<and> eb_request_id e = i \<and>
          (\<forall>c \<in> set (rs_cookies a). ck_name c \<noteq> SessionCookieName)
      | JsonBody _ \<Rightarrow> rs_status a \<in> {200, 201, 503}
      | NoBody \<Rightarrow> rs_status a \<in> {202, 204, 301, 404, 405}) \<and>
     (rs_retry_after a = None \<longleftrightarrow> rs_status a \<noteq> 429) \<and> (\<forall>w. rs_retry_after a = Some w \<longrightarrow> 1 \<le> w) \<and>
     (\<forall>c \<in> set (rs_cookies a). host_cookie c)"

lemma status_of_limited: "code \<in> contract_codes \<Longrightarrow> status_of code = 429 \<longleftrightarrow> code = CodeRateLimited"
  by (auto simp: contract_codes_def status_of_def code_defs)

lemma well_formed_answers [simp]:
  "well_formed i (write_error r code m details) \<longleftrightarrow> code \<in> contract_codes - {CodeRateLimited} \<and> i = rq_id r"
  "well_formed (rq_id r) (write_internal_error r)"
  "well_formed (rq_id r) (write_rate_limited r w)"
  "well_formed i (write_json n b) \<longleftrightarrow> n \<in> {200, 201, 503}"
  "well_formed i (empty_response n) \<longleftrightarrow> n \<in> {202, 204, 301, 404, 405}"
  by (auto simp: well_formed_def write_error_def write_internal_error_def write_rate_limited_def write_json_def
      empty_response_def status_of_limited contract_codes_def retry_seconds_def)
    (simp_all add: status_of_def code_defs)

lemma cookies_ok:
  "host_cookie (session_cookie token e)" "host_cookie cleared_session_cookie" "host_cookie (new_csrf_cookie raw)"
  "ck_name (new_csrf_cookie raw) \<noteq> SessionCookieName"
  by (simp_all add: host_cookie_def session_cookie_def cleared_session_cookie_def new_csrf_cookie_def
      SessionCookieName_def CSRFCookieName_def)

lemma well_formed_cookies:
  assumes "well_formed i a" "\<forall>c \<in> set cs. host_cookie c"
    "(\<forall>e. rs_body a \<noteq> ErrorBody e) \<or> (\<forall>c \<in> set cs. ck_name c \<noteq> SessionCookieName)"
  shows "well_formed i (add_cookies cs a)"
  using assms by (auto simp: well_formed_def add_cookies_def split: body.splits)

lemma answer_bodies [simp]:
  "rs_body (write_json n b) = JsonBody b" "rs_body (empty_response n) = NoBody"
  by (simp_all add: write_json_def empty_response_def)

lemma well_formed_session [simp]:
  "n \<in> {200, 201, 503} \<Longrightarrow> well_formed i (add_cookies [session_cookie token e] (write_json n b))"
  "n \<in> {202, 204, 301, 404, 405} \<Longrightarrow> well_formed i (add_cookies [cleared_session_cookie] (empty_response n))"
  "n \<in> {202, 204, 301, 404, 405} \<Longrightarrow> well_formed i (add_cookies [] (empty_response n))"
  by (rule well_formed_cookies; simp add: cookies_ok)+

lemma contract_code [simp]:
  "CodeValidationFailed \<in> contract_codes" "CodeUnauthenticated \<in> contract_codes"
  "CodeForbidden \<in> contract_codes" "CodeNotFound \<in> contract_codes" "CodeConflict \<in> contract_codes"
  "CodeInternal \<in> contract_codes" "CodeValidationFailed \<noteq> CodeRateLimited"
  "CodeUnauthenticated \<noteq> CodeRateLimited" "CodeForbidden \<noteq> CodeRateLimited" "CodeNotFound \<noteq> CodeRateLimited"
  "CodeConflict \<noteq> CodeRateLimited" "CodeInternal \<noteq> CodeRateLimited"
  by (simp_all add: contract_codes_def code_defs)

definition answers_well :: "('c, 'b, 's) handler \<Rightarrow> bool" where
  "answers_well h \<longleftrightarrow> (\<forall>dr r s. well_formed (rq_id r) (fst (h dr r s)))"

lemma answers_wellI: "(\<And>dr r s. well_formed (rq_id r) (fst (h dr r s))) \<Longrightarrow> answers_well h"
  by (simp add: answers_well_def)

lemma answers_wellD: "answers_well h \<Longrightarrow> h dr r s = (a, s') \<Longrightarrow> well_formed (rq_id r) a"
  unfolding answers_well_def by (metis fst_conv)

lemma well_formed_errors [simp]:
  "well_formed (rq_id r) (not_json r)" "well_formed (rq_id r) (invalid_field r m f c)"
  "well_formed (rq_id r) (refuse r)" "well_formed (rq_id r) (password_answer r p)"
  "well_formed (rq_id r) (write_create_error r e)" "well_formed (rq_id r) (write_accept_error r e)"
  "well_formed (rq_id r) (write_request_error r w x)" "well_formed (rq_id r) (write_confirm_error r x)"
  by (simp_all add: not_json_def invalid_field_def refuse_def password_answer_def write_create_error_def
      write_accept_error_def write_request_error_def write_confirm_error_def
      split: password_error.split invitations_error.split resets_error.split)

lemma handlers_answer_well:
  "answers_well (login app)" "answers_well (logout app)" "answers_well me" "answers_well list_own_sessions"
  "answers_well (revoke_session app i)" "answers_well (revoke_other_sessions app)"
  "answers_well (create_invitation_handler app)" "answers_well (accept_invitation_handler app)"
  "answers_well (request_reset_handler app)" "answers_well (confirm_reset_handler app)"
proof -
  show "answers_well (login app)"
    by (rule answers_wellI) (simp add: login_def Let_def split: option.split prod.split sum.split)
  show "answers_well (logout app)"
    by (rule answers_wellI) (simp add: logout_def Let_def split: option.split prod.split)
  show "answers_well me" by (rule answers_wellI) (simp add: me_def split: option.split)
  show "answers_well list_own_sessions"
    by (rule answers_wellI) (simp add: list_own_sessions_def split: option.split prod.split sum.split)
  show "answers_well (revoke_session app i)"
    by (rule answers_wellI) (simp add: revoke_session_def split: option.split prod.split)
  show "answers_well (revoke_other_sessions app)"
    by (rule answers_wellI) (simp add: revoke_other_sessions_def split: option.split prod.split sum.split)
  show "answers_well (create_invitation_handler app)"
    by (rule answers_wellI)
      (simp add: create_invitation_handler_def Let_def split: option.split prod.split sum.split)
  show "answers_well (accept_invitation_handler app)"
    by (rule answers_wellI)
      (simp add: accept_invitation_handler_def Let_def split: option.split prod.split sum.split)
  show "answers_well (request_reset_handler app)"
    by (rule answers_wellI) (simp add: request_reset_handler_def split: option.split prod.split)
  show "answers_well (confirm_reset_handler app)"
    by (rule answers_wellI) (simp add: confirm_reset_handler_def Let_def split: option.split prod.split)
qed

lemma middleware_answers_well:
  "answers_well next \<Longrightarrow> answers_well (rate_limit limiter key on_failure next)"
  "answers_well next' \<Longrightarrow> answers_well (require_session app next')"
  by (rule answers_wellI, auto simp: rate_limit_def require_session_def Let_def answers_well_def
      split: prod.split option.split sum.split; metis (no_types, lifting) request.select_convs(7) request.surjective request.update_convs(8))+

lemma probes_answer_well:
  "answers_well (\<lambda>dr r s. (write_json 200 b, s))" "answers_well (\<lambda>dr r s. (write_json (ready_status c) b, s))"
  by (rule answers_wellI, simp add: ready_status_def)+

lemma serve_route_answers_well: "answers_well (serve_route app answers rt)"
  by (cases rt) (simp_all only: serve_route_def Let_def route.case handlers_answer_well middleware_answers_well
      invite_limit_def accept_limit_def reset_request_limit_def reset_confirm_limit_def
      probes_answer_well)

lemma csrf_answers_well:
  fixes next_h :: "('c, 'b, 's) handler"
  assumes "answers_well next_h"
  shows "answers_well (csrf low next_h)"
proof (rule answers_wellI)
  fix dr and r :: "'c request" and s
  have minted: "well_formed (rq_id r) (add_cookies [] a)" "well_formed (rq_id r) (add_cookies [new_csrf_cookie raw] a)"
    if "well_formed (rq_id r) a" for raw and a :: "'b response"
    using that by (intro well_formed_cookies; simp add: cookies_ok)+
  obtain a s' where next_: "next_h dr r s = (a, s')" by fastforce
  have a: "well_formed (rq_id r) a" by (rule answers_wellD [OF assms next_])
  have refused: "well_formed (rq_id r) (write_error r CodeForbidden m [])" for m by simp
  show "well_formed (rq_id r) (fst (csrf low next_h dr r s))"
    by (auto simp: csrf_def next_ minted a refused split: option.split)
qed

lemma mux_answers_well:
  assumes "unmatched \<in> {301, 404, 405}"
  shows "answers_well (mux app answers unmatched)"
proof (rule answers_wellI)
  fix dr and r :: api_request and s
  have "well_formed (rq_id r) (empty_response unmatched)" using assms by auto
  moreover have "well_formed (rq_id r) (fst (serve_route app answers rt dr r s))" for rt
    using serve_route_answers_well unfolding answers_well_def by blast
  ultimately show "well_formed (rq_id r) (fst (mux app answers unmatched dr r s))"
    by (simp add: mux_def split: option.split)
qed


subsection \<open>What a request can reach\<close>

text \<open>The request was refused before any route, or the route answered it, but for the cookie and the id.\<close>

lemma api_state:
  "snd (api_handler app answers unmatched dr r s) = s \<and>
      rs_status (fst (api_handler app answers unmatched dr r s)) \<in> {403, 500} \<or>
    (let q = mux app answers unmatched dr (r\<lparr>rq_id := hex_encode (dr_id dr)\<rparr>) s in
     snd (api_handler app answers unmatched dr r s) = snd q \<and>
     rs_status (fst (api_handler app answers unmatched dr r s)) = rs_status (fst q))"
proof -
  let ?r = "r\<lparr>rq_id := hex_encode (dr_id dr)\<rparr>"
  obtain a s' where q: "mux app answers unmatched dr ?r s = (a, s')" by fastforce
  have codes: "rs_status (write_error ?r CodeForbidden m []) = 403" "rs_status (write_internal_error ?r) = 500"
    for m by (simp_all add: write_error_def write_internal_error_def empty_response_def status_of_def code_defs)
  have status: "rs_status (add_cookies cs x) = rs_status x" for cs and x :: api_response
    by (simp add: add_cookies_def)
  show ?thesis
    by (auto simp: api_handler_unfold csrf_def q Let_def codes status split: option.split)
qed

lemma mux_route:
  assumes "route_of (rq_method r) (rq_segments r) = Some rt"
  shows "mux app answers unmatched dr (r\<lparr>rq_id := i\<rparr>) s = serve_route app answers rt dr (r\<lparr>rq_id := i\<rparr>) s"
  using assms by (simp add: mux_def)

definition guarded :: "route \<Rightarrow> bool" where
  "guarded rt \<longleftrightarrow> (case rt of
     GetMe \<Rightarrow> True | GetSessions \<Rightarrow> True | DeleteSessions \<Rightarrow> True | DeleteSessionId _ \<Rightarrow> True
   | PostInvitations \<Rightarrow> True | _ \<Rightarrow> False)"

lemma guarded_behind_session:
  "guarded rt \<Longrightarrow> \<exists>h. serve_route app answers rt = require_session app h"
  by (cases rt) (auto simp: guarded_def serve_route_def Let_def)

text \<open>The live session the cookie of a request is for.\<close>

definition session_behind :: "'r app \<Rightarrow> api_request \<Rightarrow> time \<Rightarrow> pg \<Rightarrow> (session_row \<times> user_row) \<Rightarrow> bool" where
  "session_behind app r now d su \<longleftrightarrow>
     (\<exists>v. request_cookie r SessionCookieName = Some v \<and> su \<in> live_sessions d \<and>
       session_token_digest (app_sha app) v = Inr (ss_token_hash (fst su)) \<and> now < ss_expires_at (fst su))"

lemma authenticate_refused:
  assumes "authenticate pg_session_store sha now token d = (Inl e, d')"
  shows "untouched d d'"
proof (cases "session_token_digest sha token")
  case (Inr digest)
  obtain v d1 where get: "get_session_by_token_hash digest d = (v, d1)" by fastforce
  have "untouched d d1"
    using statement_read [OF get [unfolded get_session_by_token_hash_def]] .
  then show ?thesis
    using assms Inr get by (auto simp: authenticate_def Let_def split: sum.splits if_splits prod.splits)
qed (use assms in \<open>simp add: authenticate_def\<close>)

lemma require_session_cases:
  assumes "require_session app h dr r s = (a, s')"
  obtains (refused) "rs_status a \<in> {401, 500}" "untouched (as_pg s) (as_pg s')" "as_redis s' = as_redis s"
      "as_mail s' = as_mail s"
  | (served) who d row user v where "session_behind app r (dr_now dr) (as_pg s) (row, user)"
      "au_user_id who = u_id user" "au_session_id who = ss_id row" "au_role who = u_role user"
      "authenticate pg_session_store (app_sha app) (dr_now dr) v (as_pg s) = (Inr who, d)"
      "h dr (r\<lparr>rq_caller := Some who\<rparr>) (s\<lparr>as_pg := d\<rparr>) = (a, s')"
proof -
  have codes: "rs_status (refuse r) = 401" "rs_status (write_internal_error r) = 500"
    by (simp_all add: refuse_def write_error_def write_internal_error_def empty_response_def status_of_def code_defs)
  show ?thesis
  proof (cases "request_cookie r SessionCookieName")
    case None
    with assms codes show ?thesis by (intro refused) (auto simp: require_session_def)
  next
    case (Some v)
    obtain x d where auth: "authenticate pg_session_store (app_sha app) (dr_now dr) v (as_pg s) = (x, d)" by fastforce
    show ?thesis
    proof (cases x)
      case (Inl e)
      with assms codes Some auth authenticate_refused [OF auth [unfolded Inl]] show ?thesis
        by (intro refused) (auto simp: require_session_def split: if_splits)
    next
      case (Inr who)
      from pg_sessions.authenticate_sound [OF auth [unfolded Inr]] obtain row user where
        "(row, user) \<in> live_sessions (as_pg s)" "session_token_digest (app_sha app) v = Inr (ss_token_hash row)"
        "dr_now dr < ss_expires_at row" "au_session_id who = ss_id row" "au_user_id who = ss_user_id row"
        "au_role who = u_role user" by blast
      with assms Some auth Inr show ?thesis
        by (intro served [of row user who v d]) (auto simp: require_session_def session_behind_def live_sessions_def)
    qed
  qed
qed

text \<open>
  C27: the guarded routes answer nobody without a session.  A request to one of them whose cookie is not
  the token of a live session of a live account is answered with 401, 403 or 500 and changes nothing,
  whatever becomes of the statements: no row, no counter, no message.
\<close>
theorem guarded_routes_need_session:
  assumes "route_of (rq_method r) (rq_segments r) = Some rt" "guarded rt"
    and "\<not> (\<exists>su. session_behind app r (dr_now dr) (as_pg s) su)"
    and "api_handler app answers unmatched dr r s = (a, s')"
  shows "rs_status a \<in> {401, 403, 500} \<and> untouched (as_pg s) (as_pg s') \<and> as_redis s' = as_redis s
    \<and> as_mail s' = as_mail s"
proof -
  let ?r = "r\<lparr>rq_id := hex_encode (dr_id dr)\<rparr>"
  obtain h where h: "serve_route app answers rt = require_session app h"
    using guarded_behind_session [OF assms(2)] by blast
  obtain b t where q: "require_session app h dr ?r s = (b, t)" by fastforce
  have "rs_status b \<in> {401, 500} \<and> untouched (as_pg s) (as_pg t) \<and> as_redis t = as_redis s \<and> as_mail t = as_mail s"
    using q
  proof (cases rule: require_session_cases)
    case (served who d row user v)
    from served(1) have "session_behind app r (dr_now dr) (as_pg s) (row, user)"
      by (simp add: session_behind_def)
    with assms(3) show ?thesis by blast
  qed simp
  moreover have "mux app answers unmatched dr ?r s = (b, t)"
    using q by (simp add: mux_route [OF assms(1)] h)
  ultimately show ?thesis
    using api_state [of app answers unmatched dr r s] by (auto simp: assms(4))
qed

subsection \<open>Where invitations and accounts come from\<close>

lemma only_owner_invites: "parse_role name = (role, None) \<Longrightarrow> can \<lparr>caller_user = u, caller_role = role\<rparr> ActionUserInvite \<Longrightarrow>
    name = ''owner''"
  by (auto simp: parse_role_def can_def rules_def rule_rows_def action_defs decide_def at_least_def role_defs
      word_le_nat_alt split: if_splits)

lemma rate_limit_passes:
  "rate_limit (on_redis limiter) key on_failure h dr r s = (a, s') \<Longrightarrow>
    as_pg s' = as_pg s \<or> (\<exists>t. as_pg t = as_pg s \<and> h dr r t = (a, s'))"
proof -
  obtain ok wait e t where l: "on_redis limiter (key r) s = ((ok, wait, e), t)" by (metis prod.collapse)
  then have "as_pg t = as_pg s" using on_redis_pg [of limiter "key r" s] by simp
  then show "rate_limit (on_redis limiter) key on_failure h dr r s = (a, s') \<Longrightarrow>
    as_pg s' = as_pg s \<or> (\<exists>t. as_pg t = as_pg s \<and> h dr r t = (a, s'))"
    using l by (auto simp: rate_limit_def Let_def split: if_splits option.splits)
qed

lemma api_pg:
  assumes "api_handler app answers unmatched dr r s = (a, s')" "as_pg s' \<noteq> as_pg s"
  obtains rt b where "route_of (rq_method r) (rq_segments r) = Some rt"
    "serve_route app answers rt dr (r\<lparr>rq_id := hex_encode (dr_id dr)\<rparr>) s = (b, s')"
proof -
  have mx: "s' = snd (mux app answers unmatched dr (r\<lparr>rq_id := hex_encode (dr_id dr)\<rparr>) s)"
    using api_state [of app answers unmatched dr r s] assms by (auto simp: Let_def)
  then obtain rt where rt: "route_of (rq_method r) (rq_segments r) = Some rt"
    using assms(2) by (auto simp: mux_def split: option.splits)
  with mx show ?thesis by (intro that [OF rt]) (simp add: mux_def prod_eq_iff)
qed

text \<open>
  C28: only the owner invites.  Whatever the requests and the faults, the list of invitations grows only
  by a request to \<open>POST /api/v1/invitations\<close> whose cookie is the token of a live session of a live account
  with the role of the owner.
\<close>
theorem invitations_only_by_owner:
  assumes "api_handler app answers unmatched dr r s = (a, s')"
    and "invitation_ids (as_pg s') \<noteq> invitation_ids (as_pg s)"
  shows "route_of (rq_method r) (rq_segments r) = Some PostInvitations
    \<and> (\<exists>row user. session_behind app r (dr_now dr) (as_pg s) (row, user) \<and> u_role user = ''owner'')"
proof -
  let ?r = "r\<lparr>rq_id := hex_encode (dr_id dr)\<rparr>"
  have "as_pg s' \<noteq> as_pg s" using assms(2) by auto
  then obtain rt b where rt: "route_of (rq_method r) (rq_segments r) = Some rt"
    and served: "serve_route app answers rt dr ?r s = (b, s')"
    by (rule api_pg [OF assms(1)])
  have "rt = PostInvitations"
  proof (rule ccontr)
    assume "rt \<noteq> PostInvitations"
    then have "handler_keeps (\<lambda>d. invitation_ids d = invitation_ids (as_pg s)) (serve_route app answers rt)"
      using invitation_list.routes_keep invitation_list.login_keeps invitation_list.joining_keeps
      by (cases "rt \<in> {PostLogin, PostAccept}") auto
    from handler_keepsD [OF this, of s dr ?r] served assms(2) show False by simp
  qed
  then have "require_session app (invite_limit app (create_invitation_handler app)) dr ?r s = (b, s')"
    using served by (simp add: serve_route_def Let_def)
  then have "\<exists>row user. session_behind app ?r (dr_now dr) (as_pg s) (row, user) \<and> u_role user = ''owner''"
  proof (cases rule: require_session_cases)
    case refused
    with assms(2) show ?thesis by (auto simp: invitation_ids_def dest: untouched_fields)
  next
    case (served who d row user v)
    have d: "invitation_ids d = invitation_ids (as_pg s)"
      using invitation_list.sessions_keep(1) [OF refl, of "app_sha app" "dr_now dr" v "as_pg s"] served(5) by simp
    let ?q = "?r\<lparr>rq_caller := Some who\<rparr>"
    from rate_limit_passes [OF served(6) [unfolded invite_limit_def]] obtain t where
      t: "as_pg t = d" and h: "create_invitation_handler app dr ?q t = (b, s')"
      using assms(2) d by auto
    obtain role e where role: "parse_role (au_role who) = (role, e)" by fastforce
    have "e = None \<and> can \<lparr>caller_user = au_user_id who, caller_role = role\<rparr> ActionUserInvite"
    proof (rule ccontr)
      assume "\<not> (e = None \<and> can \<lparr>caller_user = au_user_id who, caller_role = role\<rparr> ActionUserInvite)"
      then have "s' = t" using h by (auto simp: create_invitation_handler_def role Let_def)
      with t d assms(2) show False by simp
    qed
    then have "au_role who = ''owner''" using only_owner_invites [of "au_role who" role "au_user_id who"] role by simp
    with served(1,4) show ?thesis by auto
  qed
  with rt \<open>rt = PostInvitations\<close> show ?thesis by (simp add: session_behind_def)
qed

lemma issue_invitations:
  "invitations (snd (issue pg_session_store sha random now uid agent d)) = invitations d"
proof -
  have "invitations (snd (create_session uid h x e d)) = invitations d" for h x e
    unfolding create_session_def by (intro frame_statement frame_cast) (simp_all add: Let_def)
  then show ?thesis
    by (auto simp: service_states split: sum.split prod.split)
qed

text \<open>What the handler that redeems leaves of the list of accounts.\<close>

lemma accept_handler_effect:
  assumes "valid_pg (as_pg s)" "accept_invitation_handler app dr r s = (a, s')"
    and "accounts (as_pg s') \<noteq> accounts (as_pg s)"
  shows "\<exists>f i u. app_json app maxAcceptBody [''token'', ''name'', ''password''] (rq_body r) = Some f
      \<and> i \<in> set (invitations (as_pg s)) \<and> invitation_token_digest (app_sha app) (f ''token'') = Inr (in_token_hash i)
      \<and> in_accepted_at i = None \<and> dr_now dr < in_expires_at i \<and> pg_now (as_pg s) < in_expires_at i
      \<and> u_email u = in_email i \<and> u_role u = in_role i \<and> u_role u \<noteq> ''owner'' \<and> u_deleted_at u = None
      \<and> accounts (as_pg s') = accounts (as_pg s) @ [account_of u]
      \<and> invitations (as_pg s') =
          map (\<lambda>x. if x = i then x\<lparr>in_accepted_at := Some (pg_now (as_pg s))\<rparr> else x) (invitations (as_pg s))"
proof -
  obtain f where f: "app_json app maxAcceptBody [''token'', ''name'', ''password''] (rq_body r) = Some f"
    using assms(2,3) by (auto simp: accept_invitation_handler_def split: option.splits)
  obtain x :: "string invitations_error + user" and d where acc:
    "accept_invited in_tx pg_tx_store (app_sha app) (app_argon2 app) (app_nfkc app) (dr_salt dr) (dr_now dr)
       (f ''token'') (f ''name'') (f ''password'') (as_pg s) = (x, d)" by fastforce
  have s': "accounts (as_pg s') = accounts d" "invitations (as_pg s') = invitations d"
    using account_list.issue_keeps [OF refl, of "app_sha app" "dr_token dr" "dr_later dr" _ _ d]
      issue_invitations [of "app_sha app" "dr_token dr" "dr_later dr" _ _ d] assms(2,3)
    by (auto simp: accept_invitation_handler_def f acc Let_def split: sum.splits if_splits prod.splits)
      (metis snd_conv)+
  have "\<not> untouched (as_pg s) d"
  proof
    assume "untouched (as_pg s) d"
    then have "accounts d = accounts (as_pg s)" by (simp add: untouched_fields accounts_def)
    with assms(3) show False by (simp add: s')
  qed
  with redeeming_effect [OF _ _ acc] assms(1) obtain i u where
    "i \<in> set (invitations (as_pg s))" "invitation_token_digest (app_sha app) (f ''token'') = Inr (in_token_hash i)"
    "in_accepted_at i = None" "dr_now dr < in_expires_at i" "pg_now (as_pg s) < in_expires_at i"
    "u_email u = in_email i" "u_role u = in_role i" "u_role u \<noteq> ''owner''" "u_deleted_at u = None" "users d = users (as_pg s) @ [u]"
    "invitations d = map (\<lambda>x. if x = i then x\<lparr>in_accepted_at := Some (pg_now (as_pg s))\<rparr> else x)
      (invitations (as_pg s))"
    unfolding valid_pg_def by blast
  moreover from this(10) have "accounts d = accounts (as_pg s) @ [account_of u]" by (simp add: accounts_def)
  ultimately show ?thesis using f by (intro exI [of _ f] exI [of _ i] exI [of _ u]) (simp add: s')
qed

text \<open>Only the handler that redeems changes the list of accounts.\<close>

lemma accounts_change:
  assumes "api_handler app answers unmatched dr r s = (a, s')" "accounts (as_pg s') \<noteq> accounts (as_pg s)"
  obtains b t where "route_of (rq_method r) (rq_segments r) = Some PostAccept" "as_pg t = as_pg s"
    "accept_invitation_handler app dr (r\<lparr>rq_id := hex_encode (dr_id dr)\<rparr>) t = (b, s')"
proof -
  let ?r = "r\<lparr>rq_id := hex_encode (dr_id dr)\<rparr>"
  have "as_pg s' \<noteq> as_pg s" using assms(2) by auto
  then obtain rt b where rt: "route_of (rq_method r) (rq_segments r) = Some rt"
    and served: "serve_route app answers rt dr ?r s = (b, s')"
    by (rule api_pg [OF assms(1)])
  have route: "rt = PostAccept"
  proof (rule ccontr)
    assume "rt \<noteq> PostAccept"
    then have "handler_keeps (\<lambda>d. accounts d = accounts (as_pg s)) (serve_route app answers rt)"
      using account_list.routes_keep account_list.login_keeps account_list.inviting_keeps
      by (cases "rt \<in> {PostLogin, PostInvitations}") auto
    from handler_keepsD [OF this, of s dr ?r] served assms(2) show False by simp
  qed
  then have "accept_limit app (accept_invitation_handler app) dr ?r s = (b, s')"
    using served by (simp add: serve_route_def Let_def)
  from rate_limit_passes [OF this [unfolded accept_limit_def]] obtain t where
    t: "as_pg t = as_pg s" "accept_invitation_handler app dr ?r t = (b, s')" using assms(2) by auto
  with rt route show ?thesis by (intro that [of t b]) simp_all
qed

text \<open>
  C29: an account comes only from an invitation.  Whatever the requests and the faults, the list of
  accounts changes only by a request to \<open>POST /api/v1/invitations/accept\<close> with the token of an open
  invitation: one account is added, with the address and the role the invitation names, never an owner,
  and that invitation is spent.
\<close>
theorem accounts_only_by_invitation:
  assumes "valid_pg (as_pg s)" "api_handler app answers unmatched dr r s = (a, s')"
    and "accounts (as_pg s') \<noteq> accounts (as_pg s)"
  shows "route_of (rq_method r) (rq_segments r) = Some PostAccept
    \<and> (\<exists>f i u. app_json app maxAcceptBody [''token'', ''name'', ''password''] (rq_body r) = Some f
      \<and> i \<in> set (invitations (as_pg s)) \<and> invitation_token_digest (app_sha app) (f ''token'') = Inr (in_token_hash i)
      \<and> in_accepted_at i = None \<and> dr_now dr < in_expires_at i \<and> pg_now (as_pg s) < in_expires_at i
      \<and> u_email u = in_email i \<and> u_role u = in_role i \<and> u_role u \<noteq> ''owner'' \<and> u_deleted_at u = None
      \<and> accounts (as_pg s') = accounts (as_pg s) @ [account_of u]
      \<and> invitations (as_pg s') =
          map (\<lambda>x. if x = i then x\<lparr>in_accepted_at := Some (pg_now (as_pg s))\<rparr> else x) (invitations (as_pg s)))"
proof -
  obtain b t where t: "route_of (rq_method r) (rq_segments r) = Some PostAccept" "as_pg t = as_pg s"
    "accept_invitation_handler app dr (r\<lparr>rq_id := hex_encode (dr_id dr)\<rparr>) t = (b, s')"
    by (rule accounts_change [OF assms(2,3)])
  show ?thesis
    using accept_handler_effect [OF _ t(3)] assms(1,3) t(1) unfolding t(2) by simp
qed

end
