(* ===== verification/Api_Logins.thy ===== *)
theory Api_Logins
  imports Api_Properties
begin

text \<open>
  Where sessions come from, when the login refuses, and what holds of the repository after any number
  of requests.
\<close>

subsection \<open>Where sessions come from\<close>

definition session_owners :: "pg \<Rightarrow> (string \<times> string) set" where
  "session_owners d = set (map (\<lambda>s. (ss_id s, ss_user_id s)) (sessions d))"

lemma session_owners_frame [simp]:
  "session_owners (d\<lparr>users := us\<rparr>) = session_owners d" "session_owners (d\<lparr>invitations := is\<rparr>) = session_owners d"
  "session_owners (d\<lparr>resets := rs\<rparr>) = session_owners d" "session_owners (d\<lparr>deliveries := xs\<rparr>) = session_owners d"
  "session_owners (d\<lparr>uuid_count := n\<rparr>) = session_owners d"
  by (simp_all add: session_owners_def)

lemma session_owners_delete: "session_owners (snd (delete_sessions P d)) \<subseteq> session_owners d"
  by (auto simp: session_owners_def delete_sessions_def)

lemma session_owners_touch [simp]:
  "session_owners (d\<lparr>sessions := update_rows P (\<lambda>s. s\<lparr>ss_last_seen_at := t, ss_expires_at := e\<rparr>) (sessions d)\<rparr>)
    = session_owners d"
  by (simp add: session_owners_def del: set_map)

interpretation owner_list: inviting_invariant "\<lambda>d. session_owners d \<subseteq> A" for A
  by unfold_locales
    (auto simp: write_defs create_invitation_def Let_def frame_statement frame_cast dest: subsetD [OF session_owners_delete])

interpretation casts: repository_invariant "\<lambda>d. to_uuid d = f" for f
  by unfold_locales
    (simp_all add: write_defs create_invitation_def create_user_def delete_sessions_def Let_def
      frame_statement frame_cast)

lemma statement_leaves:
  "(\<And>xs. P (snd (f (d\<lparr>deliveries := xs\<rparr>)))) \<Longrightarrow> (\<And>xs. P (d\<lparr>deliveries := xs\<rparr>)) \<Longrightarrow> P (snd (statement f d))"
  by (cases rule: statement_cases [of f d]) auto

lemma issue_owners:
  assumes "to_uuid d uid = Some uid"
  shows "session_owners (snd (issue pg_session_store sha random now uid agent d))
    \<subseteq> insert (next_uuid d, uid) (session_owners d)"
proof -
  have "session_owners (snd (create_session uid h x e d)) \<subseteq> insert (next_uuid d, uid) (session_owners d)" for h x e
    unfolding create_session_def
    by (rule statement_leaves)
      (auto simp: with_uuid_def Let_def next_uuid_def session_owners_def assms)
  from this [of _ "clean_user_agent agent" "new_session_expiry now"] show ?thesis
    by (simp add: service_states subset_insertI split: sum.split prod.split)
qed

lemma issued:
  assumes "issue pg_session_store sha random now uid agent d = (v, d')" "to_uuid d uid = Some uid"
    "session_owners d \<subseteq> A"
  shows "\<exists>sid. session_owners d' \<subseteq> insert (sid, uid) A"
proof -
  have "session_owners d' \<subseteq> insert (next_uuid d, uid) (session_owners d)"
    using issue_owners [OF assms(2), of sha random now agent] assms(1) by simp
  with assms(3) show ?thesis by blast
qed

lemma credentials_accept:
  assumes "check_credentials pg_user_store a cpus nfkc decoy salt email password d = ((Inr who, h), d')"
  obtains u where "u \<in> set (users_live d)" "pg_lower d (u_email u) = pg_lower d email" "user_id who = u_id u"
    "verify_password a cpus nfkc (u_password_hash u) password = None"
proof -
  obtain x d1 where get: "get_user_by_email email d = (x, d1)" by fastforce
  with assms obtain u where u: "x = Inr u" "verify_password a cpus nfkc (u_password_hash u) password = None"
    "user_id who = u_id u"
    by (auto simp: check_credentials_def pg_user_store_def Let_def split: sum.splits option.splits if_splits)
  from get_user_Inr [OF get [unfolded u(1)]] u that show ?thesis by blast
qed

text \<open>What it takes for a login to be answered with a session.\<close>

definition login_proved :: "'r app \<Rightarrow> api_request \<Rightarrow> 'r api_state \<Rightarrow> user_row \<Rightarrow> bool" where
  "login_proved app r s u \<longleftrightarrow>
     (\<exists>f attempt. app_json app maxLoginBody [''email'', ''password''] (rq_body r) = Some f \<and>
        attempt_from app r (f ''email'') = Some attempt \<and>
        snd (fst (guard_check (app_sha app) (app_to_lower app) (new_login_guard (app_redis app) DefaultLoginLimits)
          attempt (as_redis s))) = None \<and>
        u \<in> set (users_live (as_pg s)) \<and> pg_lower (as_pg s) (u_email u) = pg_lower (as_pg s) (f ''email'') \<and>
        verify_password (app_argon2 app) (app_cpus app) (app_nfkc app) (u_password_hash u) (f ''password'') = None)"

lemma login_sessions:
  assumes "valid_pg (as_pg s)" "login app dr r s = (a, s')"
    and "\<not> session_owners (as_pg s') \<subseteq> session_owners (as_pg s)"
  shows "\<exists>sid u. login_proved app r s u \<and>
    session_owners (as_pg s') \<subseteq> insert (sid, u_id u) (session_owners (as_pg s))"
proof -
  let ?guard = "new_login_guard (app_redis app) DefaultLoginLimits"
  obtain f attempt where f: "app_json app maxLoginBody [''email'', ''password''] (rq_body r) = Some f"
    and attempt: "attempt_from app r (f ''email'') = Some attempt"
    using assms(2,3) by (auto simp: login_def Let_def split: option.splits if_splits)
  obtain w e c where guard: "guard_check (app_sha app) (app_to_lower app) ?guard attempt (as_redis s) = ((w, e), c)"
    by (metis prod.collapse)
  have e: "e = None" using assms(2,3) f attempt guard
    by (auto simp: login_def Let_def split: option.splits if_splits)
  obtain x h d where creds: "check_credentials pg_user_store (app_argon2 app) (app_cpus app) (app_nfkc app)
      (app_decoy app) (dr_salt dr) (f ''email'') (f ''password'') (as_pg s) = ((x, h), d)" by (metis prod.collapse)
  have kept: "session_owners d \<subseteq> session_owners (as_pg s)" "to_uuid d = to_uuid (as_pg s)"
    using owner_list.credentials_keep [OF order_refl, of "app_argon2 app" "app_cpus app" "app_nfkc app"
        "app_decoy app" "dr_salt dr" "f ''email''" "f ''password''" "as_pg s"]
      casts.credentials_keep [OF refl, of "app_argon2 app" "app_cpus app" "app_nfkc app"
        "app_decoy app" "dr_salt dr" "f ''email''" "f ''password''" "as_pg s"] creds by simp_all
  note unfolded = login_def f attempt guard e creds Let_def
  obtain who where who: "x = Inr who"
    using assms(2,3) kept(1) by (cases x) (auto simp: unfolded split: if_splits)
  from credentials_accept [OF creds [unfolded who]] obtain u where
    u: "u \<in> set (users_live (as_pg s))" "pg_lower (as_pg s) (u_email u) = pg_lower (as_pg s) (f ''email'')"
      "user_id who = u_id u"
      "verify_password (app_argon2 app) (app_cpus app) (app_nfkc app) (u_password_hash u) (f ''password'') = None" .
  have "to_uuid d (u_id u) = Some (u_id u)"
    using assms(1) u(1) kept(2) by (auto simp: valid_pg_def uuids_ok_def users_live_def)
  moreover obtain v where "issue pg_session_store (app_sha app) (dr_token dr) (dr_now dr) (u_id u) (user_agent r) d
      = (v, as_pg s')"
    using assms(2,3) kept(1) u(3) by (auto simp: unfolded who split: if_splits sum.splits prod.splits)
  ultimately have "\<exists>sid. session_owners (as_pg s') \<subseteq> insert (sid, u_id u) (session_owners (as_pg s))"
    using kept(1) by (intro issued)
  then show ?thesis using f attempt guard e u(1,2,4) by (auto simp: login_proved_def)
qed

lemma accept_sessions:
  assumes "valid_pg (as_pg s)" "accept_invitation_handler app dr r s = (a, s')"
    and "\<not> session_owners (as_pg s') \<subseteq> session_owners (as_pg s)"
  shows "\<exists>sid u. accounts (as_pg s') = accounts (as_pg s) @ [account_of u] \<and>
    session_owners (as_pg s') \<subseteq> insert (sid, u_id u) (session_owners (as_pg s))"
proof -
  obtain f where f: "app_json app maxAcceptBody [''token'', ''name'', ''password''] (rq_body r) = Some f"
    using assms(2,3) by (auto simp: accept_invitation_handler_def split: option.splits)
  obtain x :: "string invitations_error + user" and d where acc:
    "accept_invited in_tx pg_tx_store (app_sha app) (app_argon2 app) (app_nfkc app) (dr_salt dr) (dr_now dr)
       (f ''token'') (f ''name'') (f ''password'') (as_pg s) = (x, d)" by fastforce
  have "as_pg s' \<noteq> as_pg s" using assms(3) by auto
  then have state: "as_pg s' = (case x of Inl _ \<Rightarrow> d | Inr who \<Rightarrow>
      snd (issue pg_session_store (app_sha app) (dr_token dr) (dr_later dr) (user_id who) (user_agent r) d))"
    using assms(2) by (auto simp: accept_invitation_handler_def f acc Let_def split: if_splits sum.splits prod.splits)
  have clean: "session_owners d = session_owners (as_pg s)" if "untouched (as_pg s) d"
    using untouched_fields [OF that] by (simp add: session_owners_def)
  from redeeming_effect [OF _ _ acc] assms(1) consider "untouched (as_pg s) d" "\<exists>e. x = Inl e"
    | u where "users d = users (as_pg s) @ [u]" "sessions d = sessions (as_pg s)" "uuids_ok d"
      "x = Inr (user_of u) \<or> (\<exists>e. x = Inl (CommitTx e))"
    unfolding valid_pg_def by blast
  then show ?thesis
  proof cases
    case 1
    then obtain e where "x = Inl e" by blast
    with assms(3) state clean [OF 1(1)] show ?thesis by simp
  next
    case (2 u)
    have d: "session_owners d = session_owners (as_pg s)" using 2(2) by (simp add: session_owners_def)
    have "\<forall>e. x \<noteq> Inl e" using state assms(3) d by (cases x) auto
    then have "x = Inr (user_of u)" using 2(4) by blast
    then obtain v where v: "issue pg_session_store (app_sha app) (dr_token dr) (dr_later dr) (u_id u) (user_agent r) d
        = (v, as_pg s')"
      using state by (simp add: user_of_def prod_eq_iff)
    have "to_uuid d (u_id u) = Some (u_id u)" using 2(1,3) by (auto simp: uuids_ok_def)
    from issued [OF v this] d obtain sid where
      "session_owners (as_pg s') \<subseteq> insert (sid, u_id u) (session_owners (as_pg s))" by blast
    moreover have "accounts (as_pg s') = accounts d"
      using account_list.issue_keeps [OF refl, of "app_sha app" "dr_token dr" "dr_later dr" "u_id u" "user_agent r" d] v
      by simp
    ultimately show ?thesis using 2(1) by (intro exI [of _ sid] exI [of _ u]) (simp add: accounts_def)
  qed
qed

text \<open>
  C30: a session comes only from a proof.  Whatever the requests and the faults, a row appears among the
  sessions only by a login that the guard let through and whose password is the one of the live account
  of that address, or by the redemption of an invitation that has just made an account; and it belongs
  to that account, one row and no other.
\<close>
theorem sessions_only_by_credentials:
  assumes "valid_pg (as_pg s)" "api_handler app answers unmatched dr r s = (a, s')"
    and "\<not> session_owners (as_pg s') \<subseteq> session_owners (as_pg s)"
  shows "\<exists>sid u. session_owners (as_pg s') \<subseteq> insert (sid, u_id u) (session_owners (as_pg s))
    \<and> (route_of (rq_method r) (rq_segments r) = Some PostLogin \<and> login_proved app r s u
      \<or> route_of (rq_method r) (rq_segments r) = Some PostAccept
        \<and> accounts (as_pg s') = accounts (as_pg s) @ [account_of u])"
proof -
  let ?r = "r\<lparr>rq_id := hex_encode (dr_id dr)\<rparr>"
  have "as_pg s' \<noteq> as_pg s" using assms(3) by auto
  then obtain rt b where rt: "route_of (rq_method r) (rq_segments r) = Some rt"
    and served: "serve_route app answers rt dr ?r s = (b, s')"
    by (rule api_pg [OF assms(2)])
  have "rt = PostLogin \<or> rt = PostAccept"
  proof (rule ccontr)
    assume "\<not> ?thesis"
    then have "handler_keeps (\<lambda>d. session_owners d \<subseteq> session_owners (as_pg s)) (serve_route app answers rt)"
      using owner_list.routes_keep owner_list.inviting_keeps by (cases "rt = PostInvitations") auto
    from handler_keepsD [OF this, of s dr ?r] served assms(3) show False by simp
  qed
  then show ?thesis
  proof
    assume login: "rt = PostLogin"
    with served have "login app dr ?r s = (b, s')" by (simp add: serve_route_def Let_def)
    from login_sessions [OF assms(1) this assms(3)] rt login show ?thesis
      by (auto simp: login_proved_def attempt_from_def header_values_def)
  next
    assume accept: "rt = PostAccept"
    with served have "accept_limit app (accept_invitation_handler app) dr ?r s = (b, s')"
      by (simp add: serve_route_def Let_def)
    from rate_limit_passes [OF this [unfolded accept_limit_def]] obtain t where
      t: "as_pg t = as_pg s" "accept_invitation_handler app dr ?r t = (b, s')" using assms(3) by auto
    from accept_sessions [OF _ t(2)] assms(1,3) rt accept show ?thesis unfolding t(1) by auto
  qed
qed

subsection \<open>Any number of requests\<close>

text \<open>
  Requests one after another; between two of them the clocks go on, Redis becomes whatever it becomes,
  and what will happen to the next statements is decided anew.
\<close>

inductive api_run :: "'r app \<Rightarrow> 'r api_state \<Rightarrow> 'r api_state \<Rightarrow> bool" for app where
  start: "api_run app s s"
| request: "api_run app s t \<Longrightarrow> api_handler app answers unmatched dr r t = (a, t') \<Longrightarrow> api_run app s t'"
| elsewhere: "api_run app s t \<Longrightarrow>
    api_run app s (t\<lparr>as_pg := (as_pg t)\<lparr>pg_now := now, deliveries := ds\<rparr>, as_redis := c\<rparr>)"

lemma valid_elsewhere [simp]: "valid_pg (d\<lparr>pg_now := now, deliveries := ds\<rparr>) = valid_pg d"
  by (simp add: valid_pg_def uuids_ok_def schema_defs users_live_def)

lemma accounts_elsewhere [simp]: "accounts (d\<lparr>pg_now := now\<rparr>) = accounts d"
  by (simp add: accounts_def)

lemma request_adds_members:
  assumes "valid_pg (as_pg s)" "api_handler app answers unmatched dr r s = (a, s')"
  shows "\<exists>us. accounts (as_pg s') = accounts (as_pg s) @ map account_of us \<and>
    (\<forall>u \<in> set us. u_role u \<noteq> ''owner'' \<and> u_deleted_at u = None)"
proof (cases "accounts (as_pg s') = accounts (as_pg s)")
  case True
  then show ?thesis by (intro exI [of _ "[]"]) simp
next
  case False
  obtain b t where t: "as_pg t = as_pg s"
    "accept_invitation_handler app dr (r\<lparr>rq_id := hex_encode (dr_id dr)\<rparr>) t = (b, s')"
    by (rule accounts_change [OF assms(2) False])
  from accept_handler_effect [OF _ t(2)] assms(1) False obtain u where
    "accounts (as_pg s') = accounts (as_pg s) @ [account_of u]" "u_role u \<noteq> ''owner''" "u_deleted_at u = None"
    unfolding t(1) by blast
  then show ?thesis by (intro exI [of _ "[u]"]) simp
qed


subsection \<open>When the login refuses\<close>

text \<open>
  The login fails closed.  When one of the three counters does not answer, a login whose body is in
  order is answered with 429 and half a minute to wait, right password or not: no password is looked at,
  no session is made, and the repository, Redis and the mail server are left as they were.
\<close>
theorem login_fails_closed:
  assumes "redis_documented (app_redis app) view" "as_redis s = (server, ds)" "delivery_of ds b \<noteq> Delivered"
    and "login app dr r s = (a, s')"
  shows "a = (case app_json app maxLoginBody [''email'', ''password''] (rq_body r) of
        None \<Rightarrow> not_json r
      | Some f \<Rightarrow> if field_missing f [''email'', ''password''] \<noteq> []
          then write_error r CodeValidationFailed ''Email dan password wajib diisi.''
            (field_missing f [''email'', ''password''])
          else write_rate_limited r (30 * second))
    \<and> as_pg s' = as_pg s \<and> as_mail s' = as_mail s \<and> fst (as_redis s') = server"
proof -
  have g: "redis_guard (app_redis app) view DefaultLoginLimits"
    by (intro redis_guard.intro redis_guard_axioms.intro redis_server.intro assms(1) default_limits_good)
  have fault: "\<exists>b. delivery_of ds b \<noteq> Delivered" using assms(3) by blast
  show ?thesis
  proof (cases "\<exists>f attempt. app_json app maxLoginBody [''email'', ''password''] (rq_body r) = Some f \<and>
      field_missing f [''email'', ''password''] = [] \<and> attempt_from app r (f ''email'') = Some attempt")
    case True
    then obtain f attempt where f: "app_json app maxLoginBody [''email'', ''password''] (rq_body r) = Some f"
      "field_missing f [''email'', ''password''] = []" "attempt_from app r (f ''email'') = Some attempt" by blast
    obtain answer c where c: "guard_check (app_sha app) (app_to_lower app)
        (new_login_guard (app_redis app) DefaultLoginLimits) attempt (server, ds) = (answer, c)" by (rule prod.exhaust)
    have "answer = (30 * second, Some ErrTooManyAttempts)" "fst c = server"
      using redis_guard.check_faults [OF g, of "app_sha app" "app_to_lower app" attempt server ds] fault
      by (simp_all add: c retryAfterUnavailable_def)
    then show ?thesis using assms(4) by (auto simp: login_def f assms(2) c Let_def)
  next
    case False
    moreover have "fst (as_redis s) = server" by (simp add: assms(2))
    ultimately show ?thesis using assms(4)
      by (auto simp: login_def unkeyableWait_def Let_def split: option.splits if_splits)
  qed
qed

end
