(* ===== verification/Config.thy ===== *)
theory Config
  imports Client_Ip
begin

text \<open>
  Reading the configuration: \<open>backend/internal/config/config.go\<close>.  An environment is a function from
  names to values; the parsers of \<open>net/url\<close>, \<open>net/mail\<close> and \<open>net/netip\<close> and \<open>strings.ToLower\<close> are
  parameters.  A problem keeps what its message names; what the messages say otherwise is left out.
\<close>

subsection \<open>Data\<close>

datatype env = EnvUnset | EnvLocal | EnvProduction

datatype log_level = LevelDebug | LevelInfo | LevelWarn | LevelError

text \<open>The parts of a \<open>url.URL\<close> that are looked at, and the rest.\<close>

record url =
  url_scheme :: string
  url_host :: string
  url_path :: string
  url_rest :: string

type_synonym mail_address = "string \<times> string"

record smtp_config =
  sc_host :: string
  sc_port :: int
  sc_from :: mail_address
  sc_username :: string
  sc_password :: string

record config =
  cf_env :: env
  cf_base_url :: url
  cf_http_addr :: string
  cf_log_level :: log_level
  cf_max_request_bytes :: int
  cf_database_url :: string
  cf_database_max_conns :: int
  cf_redis_url :: string
  cf_trusted_proxies :: trusted_proxies
  cf_smtp :: smtp_config

record parsers =
  ps_url :: "string \<Rightarrow> url option"
  ps_mail :: "string \<Rightarrow> mail_address option"
  ps_prefix :: "string \<Rightarrow> ip_prefix option"
  ps_ip :: "string \<Rightarrow> ip_addr option"
  ps_to_lower :: "string \<Rightarrow> string"

text \<open>
  A variable that is missing; one whose value is reported with what was expected; one whose value is
  kept out of the report; a base URL that does not parse, reported as it is; a user name without a
  password or the other way round; and an entry that is no proxy.
\<close>

datatype problem =
  Missing string
  | Invalid string string string
  | InvalidSecret string string
  | Unparsable string string
  | CredentialsApart
  | NotAProxy string

type_synonym lookup = "string \<Rightarrow> string option"
type_synonym 'a reading = "problem list \<times> 'a"

definition defaultMaxRequestBytes :: nat where "defaultMaxRequestBytes = 1048576"
definition defaultDatabaseMaxConns :: nat where "defaultDatabaseMaxConns = 20"
definition maxDatabaseMaxConns :: int where "maxDatabaseMaxConns = 1000"
definition defaultSMTPPort :: nat where "defaultSMTPPort = 587"

subsection \<open>One variable\<close>

definition value_of :: "lookup \<Rightarrow> string \<Rightarrow> string \<Rightarrow> string" where
  "value_of lookup key fallback =
     (case lookup key of
        None \<Rightarrow> fallback
      | Some v \<Rightarrow> if trim_space v \<noteq> '''' then trim_space v else fallback)"

text \<open>\<open>strconv.ParseInt\<close> in base ten.\<close>

definition parse_int :: "nat \<Rightarrow> string \<Rightarrow> int option" where
  "parse_int bits s =
     (let negative = (s \<noteq> [] \<and> hd s = CHR ''-'');
          ds = (if s \<noteq> [] \<and> (hd s = CHR ''-'' \<or> hd s = CHR ''+'') then tl s else s);
          n = dec_value ds
      in if ds = [] \<or> \<not> list_all is_dec_digit ds then None
         else if negative then (if n \<le> 2 ^ (bits - 1) then Some (- int n) else None)
         else if n < 2 ^ (bits - 1) then Some (int n) else None)"

definition read_env :: "lookup \<Rightarrow> env reading" where
  "read_env lookup =
     (let raw = value_of lookup ''APP_ENV'' '''' in
      if raw = ''local'' then ([], EnvLocal)
      else if raw = ''production'' then ([], EnvProduction)
      else if raw = '''' then ([Missing ''APP_ENV''], EnvUnset)
      else ([Invalid ''APP_ENV'' raw ''expected local or production''], EnvUnset))"

definition parse_base_url :: "parsers \<Rightarrow> string \<Rightarrow> env \<Rightarrow> problem + url" where
  "parse_base_url P raw e =
     (case ps_url P raw of
        None \<Rightarrow> Inl (Unparsable ''APP_BASE_URL'' raw)
      | Some u \<Rightarrow>
        if url_host u = '''' \<or> url_scheme u \<noteq> ''http'' \<and> url_scheme u \<noteq> ''https''
        then Inl (Invalid ''APP_BASE_URL'' raw ''expected an absolute http or https URL'')
        else if url_path u \<noteq> '''' \<and> url_path u \<noteq> ''/''
        then Inl (Invalid ''APP_BASE_URL'' raw ''expected an origin without a path'')
        else if e = EnvProduction \<and> url_scheme u \<noteq> ''https''
        then Inl (Invalid ''APP_BASE_URL'' raw ''expected https when APP_ENV is production'')
        else Inr (u\<lparr>url_path := ''''\<rparr>))"

definition no_url :: url where
  "no_url = \<lparr>url_scheme = '''', url_host = '''', url_path = '''', url_rest = ''''\<rparr>"

definition read_base_url :: "parsers \<Rightarrow> lookup \<Rightarrow> env \<Rightarrow> url reading" where
  "read_base_url P lookup e =
     (let raw = value_of lookup ''APP_BASE_URL'' '''' in
      if raw = '''' then ([Missing ''APP_BASE_URL''], no_url)
      else case parse_base_url P raw e of Inl p \<Rightarrow> ([p], no_url) | Inr u \<Rightarrow> ([], u))"

definition read_log_level :: "parsers \<Rightarrow> lookup \<Rightarrow> log_level reading" where
  "read_log_level P lookup =
     (let raw = ps_to_lower P (value_of lookup ''LOG_LEVEL'' ''info'') in
      if raw = ''debug'' then ([], LevelDebug)
      else if raw = ''info'' then ([], LevelInfo)
      else if raw = ''warn'' then ([], LevelWarn)
      else if raw = ''error'' then ([], LevelError)
      else ([Invalid ''LOG_LEVEL'' raw ''expected debug, info, warn or error''], LevelInfo))"

definition read_max_bytes :: "lookup \<Rightarrow> int reading" where
  "read_max_bytes lookup =
     (let raw = value_of lookup ''MAX_REQUEST_BYTES'' (dec_string defaultMaxRequestBytes);
          bad = ([Invalid ''MAX_REQUEST_BYTES'' raw ''expected a positive integer''], 0)
      in case parse_int 64 raw of None \<Rightarrow> bad | Some n \<Rightarrow> if n \<le> 0 then bad else ([], n))"

definition validate_database_url :: "parsers \<Rightarrow> string \<Rightarrow> problem option" where
  "validate_database_url P raw =
     (case ps_url P raw of
        None \<Rightarrow> Some (InvalidSecret ''DATABASE_URL'' ''expected a postgres:// URL'')
      | Some u \<Rightarrow>
        if url_scheme u \<noteq> ''postgres'' \<and> url_scheme u \<noteq> ''postgresql''
        then Some (InvalidSecret ''DATABASE_URL'' ''expected the postgres:// or postgresql:// scheme'')
        else if url_host u = '''' then Some (InvalidSecret ''DATABASE_URL'' ''expected a host'')
        else None)"

definition validate_redis_url :: "parsers \<Rightarrow> string \<Rightarrow> problem option" where
  "validate_redis_url P raw =
     (case ps_url P raw of
        None \<Rightarrow> Some (InvalidSecret ''REDIS_URL'' ''expected a redis:// URL'')
      | Some u \<Rightarrow>
        if url_scheme u \<noteq> ''redis'' \<and> url_scheme u \<noteq> ''rediss''
        then Some (InvalidSecret ''REDIS_URL'' ''expected the redis:// or rediss:// scheme'')
        else if url_host u = '''' then Some (InvalidSecret ''REDIS_URL'' ''expected a host'')
        else None)"

definition read_secret_url :: "lookup \<Rightarrow> string \<Rightarrow> (string \<Rightarrow> problem option) \<Rightarrow> string reading" where
  "read_secret_url lookup key validate =
     (let raw = value_of lookup key '''' in
      if raw = '''' then ([Missing key], '''')
      else case validate raw of Some p \<Rightarrow> ([p], '''') | None \<Rightarrow> ([], raw))"

definition read_max_conns :: "lookup \<Rightarrow> int reading" where
  "read_max_conns lookup =
     (let raw = value_of lookup ''DATABASE_MAX_CONNS'' (dec_string defaultDatabaseMaxConns);
          bad = ([Invalid ''DATABASE_MAX_CONNS'' raw ''expected an integer between 1 and 1000''], 0)
      in case parse_int 32 raw of
           None \<Rightarrow> bad
         | Some n \<Rightarrow> if n \<le> 0 \<or> n > maxDatabaseMaxConns then bad else ([], n))"

subsection \<open>The mail settings\<close>

definition read_smtp_port :: "lookup \<Rightarrow> int reading" where
  "read_smtp_port lookup =
     (let raw = value_of lookup ''SMTP_PORT'' (dec_string defaultSMTPPort);
          bad = ([Invalid ''SMTP_PORT'' raw ''expected a port between 1 and 65535''], 0)
      in case parse_int 64 raw of None \<Rightarrow> bad | Some n \<Rightarrow> if n \<le> 0 \<or> n > 65535 then bad else ([], n))"

definition read_smtp_from :: "parsers \<Rightarrow> lookup \<Rightarrow> mail_address reading" where
  "read_smtp_from P lookup =
     (let raw = value_of lookup ''SMTP_FROM'' '''' in
      if raw = '''' then ([Missing ''SMTP_FROM''], ('''', ''''))
      else case ps_mail P raw of
          None \<Rightarrow> ([Invalid ''SMTP_FROM'' raw ''expected an e-mail address''], ('''', ''''))
        | Some a \<Rightarrow> ([], a))"

definition credential_problems :: "env \<Rightarrow> string \<Rightarrow> string \<Rightarrow> problem list" where
  "credential_problems e username password =
     (if (username = '''') \<noteq> (password = '''') then [CredentialsApart]
      else if username = '''' \<and> e = EnvProduction then [Missing ''SMTP_USERNAME'', Missing ''SMTP_PASSWORD'']
      else [])"

definition read_smtp :: "parsers \<Rightarrow> lookup \<Rightarrow> env \<Rightarrow> smtp_config reading" where
  "read_smtp P lookup e =
     (let host = value_of lookup ''SMTP_HOST'' '''';
          username = value_of lookup ''SMTP_USERNAME'' '''';
          password = value_of lookup ''SMTP_PASSWORD'' ''''
      in ((if host = '''' then [Missing ''SMTP_HOST''] else []) @ fst (read_smtp_port lookup) @
            fst (read_smtp_from P lookup) @ credential_problems e username password,
          \<lparr>sc_host = host, sc_port = snd (read_smtp_port lookup), sc_from = snd (read_smtp_from P lookup),
           sc_username = username, sc_password = password\<rparr>))"

subsection \<open>The trusted proxies\<close>

definition host_prefix :: "ip_addr \<Rightarrow> ip_prefix" where
  "host_prefix addr = (case addr of V4 a \<Rightarrow> V4Prefix a 32 | V6 a zone \<Rightarrow> V6Prefix a 128)"

fun parse_proxies :: "parsers \<Rightarrow> string list \<Rightarrow> problem + trusted_proxies" where
  "parse_proxies P [] = Inr []"
| "parse_proxies P (raw # rest) =
     (let entry = trim_space raw in
      if entry = '''' then parse_proxies P rest
      else case ps_prefix P entry of
          Some p \<Rightarrow> bind_res (parse_proxies P rest) (\<lambda>out. Inr (p # out))
        | None \<Rightarrow>
          (case ps_ip P entry of
             None \<Rightarrow> Inl (NotAProxy entry)
           | Some addr \<Rightarrow> bind_res (parse_proxies P rest) (\<lambda>out. Inr (host_prefix addr # out))))"

definition parse_trusted_proxies :: "parsers \<Rightarrow> string \<Rightarrow> problem + trusted_proxies" where
  "parse_trusted_proxies P raw =
     (if trim_space raw = '''' then Inr [] else parse_proxies P (split_on CHR '','' raw))"

definition read_proxies :: "parsers \<Rightarrow> lookup \<Rightarrow> trusted_proxies reading" where
  "read_proxies P lookup =
     (case parse_trusted_proxies P (value_of lookup ''TRUSTED_PROXIES'' '''') of
        Inl p \<Rightarrow> ([p], [])
      | Inr ps \<Rightarrow> ([], ps))"

subsection \<open>The whole configuration\<close>

definition load_problems :: "parsers \<Rightarrow> lookup \<Rightarrow> problem list" where
  "load_problems P lookup =
     (let e = snd (read_env lookup) in
      fst (read_env lookup) @ fst (read_base_url P lookup e) @ fst (read_log_level P lookup) @
      fst (read_max_bytes lookup) @ fst (read_secret_url lookup ''DATABASE_URL'' (validate_database_url P)) @
      fst (read_secret_url lookup ''REDIS_URL'' (validate_redis_url P)) @ fst (read_smtp P lookup e) @
      fst (read_proxies P lookup) @ fst (read_max_conns lookup))"

definition load :: "parsers \<Rightarrow> lookup \<Rightarrow> problem list + config" where
  "load P lookup =
     (let e = snd (read_env lookup) in
      if load_problems P lookup \<noteq> [] then Inl (load_problems P lookup)
      else Inr \<lparr>cf_env = e, cf_base_url = snd (read_base_url P lookup e),
        cf_http_addr = value_of lookup ''HTTP_ADDR'' '':8080'', cf_log_level = snd (read_log_level P lookup),
        cf_max_request_bytes = snd (read_max_bytes lookup),
        cf_database_url = snd (read_secret_url lookup ''DATABASE_URL'' (validate_database_url P)),
        cf_database_max_conns = snd (read_max_conns lookup),
        cf_redis_url = snd (read_secret_url lookup ''REDIS_URL'' (validate_redis_url P)),
        cf_trusted_proxies = snd (read_proxies P lookup), cf_smtp = snd (read_smtp P lookup e)\<rparr>)"

subsection \<open>What a loaded configuration promises\<close>

lemma value_of_nonempty: "fallback \<noteq> [] \<Longrightarrow> value_of lookup key fallback \<noteq> []"
  by (simp add: value_of_def split: option.split)

lemma parse_int_bounds: "parse_int bits s = Some n \<Longrightarrow> - (2 ^ (bits - 1)) \<le> n \<and> n < 2 ^ (bits - 1)"
proof -
  assume s: "parse_int bits s = Some n"
  have "int k \<le> 2 ^ m \<longleftrightarrow> k \<le> 2 ^ m" "int k < 2 ^ m \<longleftrightarrow> k < 2 ^ m" for k m :: nat
    using of_nat_le_iff [of k "2 ^ m", where 'a = int] of_nat_less_iff [of k "2 ^ m", where 'a = int] by simp_all
  moreover have "(0::int) < 2 ^ (bits - Suc 0)" by simp
  then have "- int k < 2 ^ (bits - Suc 0)" for k by (rule le_less_trans [rotated]) simp
  ultimately show ?thesis using s
    by (auto simp: parse_int_def Let_def split: if_splits intro: order_trans [of _ 0])
qed

lemma parse_int_dec_string: "parse_int bits (dec_string n) = (if n < 2 ^ (bits - 1) then Some (int n) else None)"
proof -
  obtain c cs where "dec_string n = c # cs" "is_dec_digit c" by (rule dec_string_head)
  then have "hd (dec_string n) \<noteq> CHR ''-''" "hd (dec_string n) \<noteq> CHR ''+''"
    by (auto simp: is_dec_digit_def less_eq_char_def)
  then show ?thesis
    using dec_string_digits [of n] by (simp add: parse_int_def list_all_iff Let_def)
qed

lemma read_base_url_ok:
  assumes "fst (read_base_url P lookup e) = []"
  shows "url_host (snd (read_base_url P lookup e)) \<noteq> [] \<and> url_path (snd (read_base_url P lookup e)) = []
    \<and> url_scheme (snd (read_base_url P lookup e)) \<in> {''http'', ''https''}
    \<and> (e = EnvProduction \<longrightarrow> url_scheme (snd (read_base_url P lookup e)) = ''https'')"
  using assms
  by (auto simp: read_base_url_def parse_base_url_def Let_def split: option.splits if_splits sum.splits)

lemma read_numbers_ok:
  "fst (read_max_bytes lookup) = [] \<Longrightarrow> 0 < snd (read_max_bytes lookup) \<and> snd (read_max_bytes lookup) < 2 ^ 63"
  "fst (read_max_conns lookup) = [] \<Longrightarrow> 1 \<le> snd (read_max_conns lookup) \<and> snd (read_max_conns lookup) \<le> 1000"
  using parse_int_bounds [of 64]
  by (auto simp: read_max_bytes_def read_max_conns_def maxDatabaseMaxConns_def Let_def split: option.splits if_splits)

lemma read_secret_url_ok:
  "fst (read_secret_url lookup key validate) = [] \<Longrightarrow>
    snd (read_secret_url lookup key validate) \<noteq> [] \<and> validate (snd (read_secret_url lookup key validate)) = None"
  by (auto simp: read_secret_url_def Let_def split: option.splits if_splits)

lemma read_smtp_ok:
  assumes "fst (read_smtp P lookup e) = []"
  shows "let s = snd (read_smtp P lookup e) in sc_host s \<noteq> [] \<and> 1 \<le> sc_port s \<and> sc_port s \<le> 65535
    \<and> (sc_username s = [] \<longleftrightarrow> sc_password s = []) \<and> (e = EnvProduction \<longrightarrow> sc_username s \<noteq> [])
    \<and> ps_mail P (value_of lookup ''SMTP_FROM'' []) = Some (sc_from s)"
  using assms by (auto simp: read_smtp_def read_smtp_port_def read_smtp_from_def credential_problems_def Let_def
      split: option.splits if_splits)

lemma loaded_sound:
  assumes "load P lookup = Inr c"
  shows "cf_env c \<in> {EnvLocal, EnvProduction} \<and> cf_http_addr c \<noteq> []
    \<and> url_host (cf_base_url c) \<noteq> [] \<and> url_path (cf_base_url c) = []
    \<and> url_scheme (cf_base_url c) \<in> {''http'', ''https''}
    \<and> (cf_env c = EnvProduction \<longrightarrow> url_scheme (cf_base_url c) = ''https'' \<and> sc_username (cf_smtp c) \<noteq> [])
    \<and> validate_database_url P (cf_database_url c) = None \<and> validate_redis_url P (cf_redis_url c) = None
    \<and> 0 < cf_max_request_bytes c \<and> cf_max_request_bytes c < 2 ^ 63
    \<and> 1 \<le> cf_database_max_conns c \<and> cf_database_max_conns c \<le> 1000
    \<and> sc_host (cf_smtp c) \<noteq> [] \<and> 1 \<le> sc_port (cf_smtp c) \<and> sc_port (cf_smtp c) \<le> 65535
    \<and> (sc_username (cf_smtp c) = [] \<longleftrightarrow> sc_password (cf_smtp c) = [])"
proof -
  let ?e = "snd (read_env lookup)"
  have none: "load_problems P lookup = []" using assms by (auto simp: load_def Let_def split: if_splits)
  then have c: "c = \<lparr>cf_env = ?e, cf_base_url = snd (read_base_url P lookup ?e),
      cf_http_addr = value_of lookup ''HTTP_ADDR'' '':8080'', cf_log_level = snd (read_log_level P lookup),
      cf_max_request_bytes = snd (read_max_bytes lookup),
      cf_database_url = snd (read_secret_url lookup ''DATABASE_URL'' (validate_database_url P)),
      cf_database_max_conns = snd (read_max_conns lookup),
      cf_redis_url = snd (read_secret_url lookup ''REDIS_URL'' (validate_redis_url P)),
      cf_trusted_proxies = snd (read_proxies P lookup), cf_smtp = snd (read_smtp P lookup ?e)\<rparr>"
    using assms by (simp add: load_def Let_def)
  have "fst (read_env lookup) = []" "fst (read_base_url P lookup ?e) = []" "fst (read_max_bytes lookup) = []"
    "fst (read_secret_url lookup ''DATABASE_URL'' (validate_database_url P)) = []"
    "fst (read_secret_url lookup ''REDIS_URL'' (validate_redis_url P)) = []"
    "fst (read_smtp P lookup ?e) = []" "fst (read_max_conns lookup) = []"
    using none by (simp_all add: load_problems_def Let_def)
  note parts = this(1) read_base_url_ok [OF this(2)] read_numbers_ok(1) [OF this(3)] read_secret_url_ok [OF this(4)]
    read_secret_url_ok [OF this(5)] read_smtp_ok [OF this(6), unfolded Let_def] read_numbers_ok(2) [OF this(7)]
  have "?e \<in> {EnvLocal, EnvProduction}" using parts(1) by (auto simp: read_env_def Let_def split: if_splits)
  with parts(2-7) show ?thesis by (simp add: c value_of_nonempty)
qed

text \<open>
  C32: what is loaded can be run.  A configuration that \<open>Load\<close> returns names its environment; its base
  URL is an origin, over \<open>https\<close> in production; the database and the Redis URL are there and have the
  right scheme and a host; numbers are in range; and user name and password for mail come together, in
  production always.
\<close>
theorem loaded_config_sound:
  assumes "load P lookup = Inr c"
  shows "cf_env c \<in> {EnvLocal, EnvProduction} \<and> cf_http_addr c \<noteq> []
    \<and> url_host (cf_base_url c) \<noteq> [] \<and> url_path (cf_base_url c) = []
    \<and> url_scheme (cf_base_url c) \<in> {''http'', ''https''}
    \<and> (cf_env c = EnvProduction \<longrightarrow> url_scheme (cf_base_url c) = ''https'' \<and> sc_username (cf_smtp c) \<noteq> [])
    \<and> validate_database_url P (cf_database_url c) = None \<and> validate_redis_url P (cf_redis_url c) = None
    \<and> 0 < cf_max_request_bytes c \<and> cf_max_request_bytes c < 2 ^ 63
    \<and> 1 \<le> cf_database_max_conns c \<and> cf_database_max_conns c \<le> 1000
    \<and> sc_host (cf_smtp c) \<noteq> [] \<and> 1 \<le> sc_port (cf_smtp c) \<and> sc_port (cf_smtp c) \<le> 65535
    \<and> (sc_username (cf_smtp c) = [] \<longleftrightarrow> sc_password (cf_smtp c) = [])"
  using assms by (rule loaded_sound)

subsection \<open>How problems are reported\<close>

text \<open>The setting a problem is about; the user name and the password for mail are one setting.\<close>

definition setting :: "string \<Rightarrow> string" where
  "setting key = (if key = ''SMTP_PASSWORD'' then ''SMTP_USERNAME'' else key)"

fun setting_of :: "problem \<Rightarrow> string" where
  "setting_of (Missing key) = setting key"
| "setting_of (Invalid key got want) = setting key"
| "setting_of (InvalidSecret key want) = setting key"
| "setting_of (Unparsable key raw) = setting key"
| "setting_of CredentialsApart = ''SMTP_USERNAME''"
| "setting_of (NotAProxy entry) = ''TRUSTED_PROXIES''"

definition others :: "string \<Rightarrow> problem list \<Rightarrow> problem list" where
  "others k ps = filter (\<lambda>p. setting_of p \<noteq> k) ps"

lemma others_append [simp]: "others k (xs @ ys) = others k xs @ others k ys"
  by (simp add: others_def)

lemma others_piece:
  "list_all (\<lambda>p. setting_of p = g) xs \<Longrightarrow> list_all (\<lambda>p. setting_of p = g) ys \<Longrightarrow> (g \<noteq> k \<Longrightarrow> xs = ys) \<Longrightarrow>
    others k xs = others k ys"
  unfolding others_def by (cases "g = k") (auto simp: list_all_iff filter_empty_conv)

lemma setting_pieces:
  "list_all (\<lambda>p. setting_of p = ''APP_ENV'') (fst (read_env lookup))"
  "list_all (\<lambda>p. setting_of p = ''APP_BASE_URL'') (fst (read_base_url P lookup e))"
  "list_all (\<lambda>p. setting_of p = ''LOG_LEVEL'') (fst (read_log_level P lookup))"
  "list_all (\<lambda>p. setting_of p = ''MAX_REQUEST_BYTES'') (fst (read_max_bytes lookup))"
  "list_all (\<lambda>p. setting_of p = ''DATABASE_URL'')
    (fst (read_secret_url lookup ''DATABASE_URL'' (validate_database_url P)))"
  "list_all (\<lambda>p. setting_of p = ''REDIS_URL'') (fst (read_secret_url lookup ''REDIS_URL'' (validate_redis_url P)))"
  "list_all (\<lambda>p. setting_of p = ''TRUSTED_PROXIES'') (fst (read_proxies P lookup))"
  "list_all (\<lambda>p. setting_of p = ''SMTP_PORT'') (fst (read_smtp_port lookup))"
  "list_all (\<lambda>p. setting_of p = ''SMTP_FROM'') (fst (read_smtp_from P lookup))"
  "list_all (\<lambda>p. setting_of p = ''SMTP_USERNAME'') (credential_problems e username password)"
  "list_all (\<lambda>p. setting_of p = ''DATABASE_MAX_CONNS'') (fst (read_max_conns lookup))"
proof -
  have "parse_proxies P entries = Inl p \<Longrightarrow> setting_of p = ''TRUSTED_PROXIES''" for entries p
    by (induction entries) (auto simp: Let_def bind_res_eq_Inl split: if_splits option.splits)
  then show "list_all (\<lambda>p. setting_of p = ''TRUSTED_PROXIES'') (fst (read_proxies P lookup))"
    by (auto simp: read_proxies_def parse_trusted_proxies_def split: sum.split)
qed (auto simp: read_env_def read_base_url_def parse_base_url_def read_log_level_def read_max_bytes_def
    read_secret_url_def validate_database_url_def validate_redis_url_def read_max_conns_def
    read_smtp_port_def read_smtp_from_def credential_problems_def setting_def Let_def
    split: option.split sum.split)

lemma value_of_cong: "lookup' key = lookup key \<Longrightarrow> value_of lookup' key fallback = value_of lookup key fallback"
  by (simp add: value_of_def)

text \<open>
  Every mistake is reported at once.  Whatever the operator does to one setting other than
  \<open>APP_ENV\<close>, the problems reported about all the other settings stay exactly as they were: correcting
  one of them never brings out another that had been kept back, and never hides one.
\<close>
theorem mistakes_reported_at_once:
  assumes "k \<noteq> ''APP_ENV''" "\<And>key. setting key \<noteq> k \<Longrightarrow> lookup' key = lookup key"
  shows "others k (load_problems P lookup') = others k (load_problems P lookup)"
proof -
  have same: "setting key \<noteq> k \<Longrightarrow> value_of lookup' key fallback = value_of lookup key fallback" for key fallback
    by (rule value_of_cong) (rule assms(2))
  note keep = same [unfolded setting_def, simplified]
  have env: "read_env lookup' = read_env lookup"
    using keep [of "''APP_ENV''"] assms(1) by (simp add: read_env_def)
  let ?e = "snd (read_env lookup)"
  have pieces:
    "others k (fst (read_base_url P lookup' ?e)) = others k (fst (read_base_url P lookup ?e))"
    "others k (fst (read_log_level P lookup')) = others k (fst (read_log_level P lookup))"
    "others k (fst (read_max_bytes lookup')) = others k (fst (read_max_bytes lookup))"
    "others k (fst (read_secret_url lookup' ''DATABASE_URL'' (validate_database_url P)))
      = others k (fst (read_secret_url lookup ''DATABASE_URL'' (validate_database_url P)))"
    "others k (fst (read_secret_url lookup' ''REDIS_URL'' (validate_redis_url P)))
      = others k (fst (read_secret_url lookup ''REDIS_URL'' (validate_redis_url P)))"
    "others k (fst (read_proxies P lookup')) = others k (fst (read_proxies P lookup))"
    "others k (fst (read_max_conns lookup')) = others k (fst (read_max_conns lookup))"
    "others k (fst (read_smtp_port lookup')) = others k (fst (read_smtp_port lookup))"
    "others k (fst (read_smtp_from P lookup')) = others k (fst (read_smtp_from P lookup))"
    by (rule others_piece, rule setting_pieces, rule setting_pieces,
        simp add: read_base_url_def read_log_level_def read_max_bytes_def read_secret_url_def read_proxies_def
          read_max_conns_def read_smtp_port_def read_smtp_from_def keep)+
  have "others k (if value_of lookup' ''SMTP_HOST'' [] = [] then [Missing ''SMTP_HOST''] else [])
      = others k (if value_of lookup ''SMTP_HOST'' [] = [] then [Missing ''SMTP_HOST''] else [])"
    by (rule others_piece [where g = "''SMTP_HOST''"]) (auto simp: setting_def keep)
  moreover have "others k (credential_problems ?e (value_of lookup' ''SMTP_USERNAME'' []) (value_of lookup' ''SMTP_PASSWORD'' []))
      = others k (credential_problems ?e (value_of lookup ''SMTP_USERNAME'' []) (value_of lookup ''SMTP_PASSWORD'' []))"
    by (rule others_piece, rule setting_pieces, rule setting_pieces) (simp add: keep)
  ultimately show ?thesis
    by (simp add: load_problems_def env pieces read_smtp_def Let_def)
qed

text \<open>All that a problem can say about a setting that holds a secret.\<close>

definition secret_problems :: "problem list" where
  "secret_problems =
     [Missing ''DATABASE_URL'', InvalidSecret ''DATABASE_URL'' ''expected a postgres:// URL'',
      InvalidSecret ''DATABASE_URL'' ''expected the postgres:// or postgresql:// scheme'',
      InvalidSecret ''DATABASE_URL'' ''expected a host'', Missing ''REDIS_URL'',
      InvalidSecret ''REDIS_URL'' ''expected a redis:// URL'',
      InvalidSecret ''REDIS_URL'' ''expected the redis:// or rediss:// scheme'',
      InvalidSecret ''REDIS_URL'' ''expected a host'', CredentialsApart, Missing ''SMTP_USERNAME'',
      Missing ''SMTP_PASSWORD'']"

text \<open>
  Secrets stay out of the report.  Two environments that differ only in the database URL, the Redis
  URL and the credentials for mail are reported alike, but for problems from a fixed list of texts that
  say nothing of the values.
\<close>
theorem secrets_never_reported:
  assumes "\<And>key. setting key \<notin> {''DATABASE_URL'', ''REDIS_URL'', ''SMTP_USERNAME''} \<Longrightarrow> lookup' key = lookup key"
  shows "set (load_problems P lookup') - set (load_problems P lookup) \<subseteq> set secret_problems"
proof -
  have keep: "setting key \<notin> {''DATABASE_URL'', ''REDIS_URL'', ''SMTP_USERNAME''} \<Longrightarrow>
      value_of lookup' key fallback = value_of lookup key fallback" for key fallback
    by (rule value_of_cong) (rule assms)
  note keep = keep [unfolded setting_def, simplified]
  have same: "read_env lookup' = read_env lookup" "read_base_url P lookup' = read_base_url P lookup"
    "read_log_level P lookup' = read_log_level P lookup" "read_max_bytes lookup' = read_max_bytes lookup"
    "read_proxies P lookup' = read_proxies P lookup" "read_max_conns lookup' = read_max_conns lookup"
    "read_smtp_port lookup' = read_smtp_port lookup" "read_smtp_from P lookup' = read_smtp_from P lookup"
    "value_of lookup' ''SMTP_HOST'' [] = value_of lookup ''SMTP_HOST'' []"
    by (simp_all add: fun_eq_iff read_env_def read_base_url_def read_log_level_def read_max_bytes_def read_proxies_def
        read_max_conns_def read_smtp_port_def read_smtp_from_def keep)
  have "set (fst (read_secret_url lookup' ''DATABASE_URL'' (validate_database_url P))) \<subseteq> set secret_problems"
    "set (fst (read_secret_url lookup' ''REDIS_URL'' (validate_redis_url P))) \<subseteq> set secret_problems"
    "set (credential_problems e u p) \<subseteq> set secret_problems" for e u p
    by (auto simp: read_secret_url_def validate_database_url_def validate_redis_url_def credential_problems_def
        secret_problems_def Let_def split: option.split)
  then show ?thesis
    unfolding load_problems_def read_smtp_def same Let_def fst_conv set_append by blast
qed

text \<open>
  C33: a proxy written in its mapped form is never believed.  An entry that parses as an IPv4-mapped IPv6
  address is accepted, as the range of that one address; but every address a request can come from has
  been unmapped first, so that no request is ever taken to come from that proxy.
\<close>
theorem mapped_proxy_never_trusted:
  assumes "trim_space entry = entry" "entry \<noteq> []" "CHR '','' \<notin> set entry"
    and "ps_prefix P entry = None" "ps_ip P entry = Some (V6 a zone)" "is4in6 (V6 a zone)"
  shows "parse_trusted_proxies P entry = Inr [V6Prefix a 128]
    \<and> (\<forall>raw addr. parse_addr parse_ip raw = Some addr \<longrightarrow> \<not> trusted_contains [V6Prefix a 128] addr)"
proof -
  have "parse_trusted_proxies P entry = Inr [V6Prefix a 128]"
    using assms(1,2,4,5) split_on_free [OF assms(3)] by (simp add: parse_trusted_proxies_def host_prefix_def Let_def)
  moreover have "\<not> trusted_contains [V6Prefix a 128] addr" if addr: "parse_addr parse_ip raw = Some addr" for raw addr
  proof -
    obtain x where x: "addr = without_zone (unmap x)"
      using addr by (auto simp: parse_addr_def Let_def split: option.splits)
    have "\<not> is4in6 addr" unfolding x by (cases x) auto
    then show ?thesis using assms(6) by (cases addr) (auto simp: trusted_contains_def top_bits_def)
  qed
  ultimately show ?thesis by blast
qed

subsection \<open>An environment in which the properties are used\<close>

definition sample_parsers :: parsers where
  "sample_parsers = \<lparr>ps_url = (\<lambda>s. if s = ''https://pm'' then Some \<lparr>url_scheme = ''https'', url_host = ''pm'', url_path = '''', url_rest = ''''\<rparr>
       else if s = ''postgres://db'' then Some \<lparr>url_scheme = ''postgres'', url_host = ''db'', url_path = '''', url_rest = ''''\<rparr>
       else if s = ''redis://r'' then Some \<lparr>url_scheme = ''redis'', url_host = ''r'', url_path = '''', url_rest = ''''\<rparr> else None),
     ps_mail = (\<lambda>s. Some ('''', s)), ps_prefix = (\<lambda>_. None), ps_ip = (\<lambda>_. Some (V6 0xFFFF0A000005 '''')), ps_to_lower = id\<rparr>"

definition sample_environment :: lookup where
  "sample_environment = map_of [(''APP_ENV'', ''production''), (''APP_BASE_URL'', ''https://pm''),
     (''DATABASE_URL'', '' postgres://db ''), (''REDIS_URL'', ''redis://r''), (''SMTP_HOST'', ''mail''),
     (''SMTP_FROM'', ''pm@pm''), (''SMTP_USERNAME'', ''pm''), (''SMTP_PASSWORD'', ''hunter2'')]"

lemma sample_loads:
  "case load sample_parsers sample_environment of Inl _ \<Rightarrow> False
    | Inr c \<Rightarrow> cf_env c = EnvProduction \<and> cf_smtp c = \<lparr>sc_host = ''mail'', sc_port = 587, sc_from = ([], ''pm@pm''),
        sc_username = ''pm'', sc_password = ''hunter2''\<rparr>"
proof -
  have "trim_space ''production'' = ''production''" "trim_space ''https://pm'' = ''https://pm''"
    "trim_space '' postgres://db '' = ''postgres://db''" "trim_space ''redis://r'' = ''redis://r''"
    "trim_space ''mail'' = ''mail''" "trim_space ''pm@pm'' = ''pm@pm''" "trim_space ''pm'' = ''pm''"
    "trim_space ''hunter2'' = ''hunter2''" "trim_space [] = []"
    by code_simp+
  moreover have "parse_int 64 (dec_string defaultMaxRequestBytes) = Some 1048576"
    "parse_int 32 (dec_string defaultDatabaseMaxConns) = Some 20" "parse_int 64 (dec_string defaultSMTPPort) = Some 587"
    by (simp_all add: parse_int_dec_string defaultMaxRequestBytes_def defaultDatabaseMaxConns_def defaultSMTPPort_def)
  ultimately show ?thesis
    by (simp add: load_def load_problems_def read_env_def read_base_url_def parse_base_url_def read_log_level_def
        read_max_bytes_def read_secret_url_def validate_database_url_def validate_redis_url_def read_max_conns_def
        read_smtp_def read_smtp_port_def read_smtp_from_def credential_problems_def read_proxies_def
        parse_trusted_proxies_def value_of_def sample_environment_def sample_parsers_def maxDatabaseMaxConns_def Let_def)
qed

lemma loaded_config_sound_witness:
  "\<exists>c. load sample_parsers sample_environment = Inr c \<and> url_scheme (cf_base_url c) = ''https''"
proof -
  obtain c where c: "load sample_parsers sample_environment = Inr c" "cf_env c = EnvProduction"
    using sample_loads by (cases "load sample_parsers sample_environment") simp_all
  from loaded_config_sound [OF c(1)] c show ?thesis by blast
qed

lemma mistakes_reported_at_once_witness:
  "others ''SMTP_PORT'' (load_problems sample_parsers ((\<lambda>_. None)(''SMTP_PORT'' := Some ''70000'')))
    = others ''SMTP_PORT'' (load_problems sample_parsers (\<lambda>_. None))"
  by (rule mistakes_reported_at_once) (auto simp: setting_def)

lemma secrets_never_reported_witness:
  "set (load_problems sample_parsers (sample_environment(''DATABASE_URL'' := Some ''hunter2'')))
    - set (load_problems sample_parsers sample_environment) \<subseteq> set secret_problems"
  by (rule secrets_never_reported) (auto simp: setting_def)

lemma mapped_proxy_never_trusted_witness:
  "parse_trusted_proxies sample_parsers ''::ffff:10.0.0.5'' = Inr [V6Prefix 0xFFFF0A000005 128]"
proof -
  have trimmed: "trim_space ''::ffff:10.0.0.5'' = ''::ffff:10.0.0.5''" by code_simp
  have "is4in6 (V6 0xFFFF0A000005 [])" by code_simp
  with mapped_proxy_never_trusted [OF trimmed, of sample_parsers "0xFFFF0A000005" "[]" "\<lambda>_. None"] show ?thesis
    by (simp add: sample_parsers_def)
qed

end
