(* ===== verification/Middleware.thy ===== *)
theory Middleware
  imports Http Config
begin

text \<open>
  What every request passes through on its way to the handlers, down to the writer:
  \<open>backend/internal/httpx/middleware.go\<close> and \<open>apiHandler\<close> of \<open>backend/cmd/api/main.go\<close>.

  A handler is what it does to its \<open>http.ResponseWriter\<close>, in order, up to the panic if there is one.
  \<open>recorder\<close> wraps a writer and is a writer again, as in the code; \<open>net_http\<close> is the writer of
  \<open>net/http\<close>.  A log line keeps everything but the duration and the stack.
\<close>

subsection \<open>Writers and what is done to them\<close>

datatype panic = ErrAbortHandler | PanicValue string

datatype action = Set_Header string string | Add_Header string string | Write_Header nat | Write string | Panic panic

text \<open>
  \<open>rw_write_header\<close> may panic; \<open>rw_write\<close> says how many bytes were taken (an error of \<open>Write\<close> is
  dropped by every caller in the code).
\<close>

record 'w response_writer =
  rw_set_header :: "string \<Rightarrow> string \<Rightarrow> 'w \<Rightarrow> 'w"
  rw_add_header :: "string \<Rightarrow> string \<Rightarrow> 'w \<Rightarrow> 'w"
  rw_write_header :: "nat \<Rightarrow> 'w \<Rightarrow> panic option \<times> 'w"
  rw_write :: "string \<Rightarrow> 'w \<Rightarrow> nat \<times> 'w"

fun perform :: "'w response_writer \<Rightarrow> action list \<Rightarrow> 'w \<Rightarrow> panic option \<times> 'w" where
  "perform rw [] w = (None, w)"
| "perform rw (Set_Header n v # acts) w = perform rw acts (rw_set_header rw n v w)"
| "perform rw (Add_Header n v # acts) w = perform rw acts (rw_add_header rw n v w)"
| "perform rw (Write_Header c # acts) w =
     (case rw_write_header rw c w of (Some p, w') \<Rightarrow> (Some p, w') | (None, w') \<Rightarrow> perform rw acts w')"
| "perform rw (Write b # acts) w = perform rw acts (snd (rw_write rw b w))"
| "perform rw (Panic p # acts) w = (Some p, w)"

subsection \<open>The recorder\<close>

record 'w recorder =
  rec_writer :: 'w
  rec_status :: nat
  rec_bytes :: nat

definition new_recorder :: "'w \<Rightarrow> 'w recorder" where
  "new_recorder w = \<lparr>rec_writer = w, rec_status = 0, rec_bytes = 0\<rparr>"

definition recorder_write_header ::
  "'w response_writer \<Rightarrow> nat \<Rightarrow> 'w recorder \<Rightarrow> panic option \<times> 'w recorder" where
  "recorder_write_header rw status rec =
     (case rw_write_header rw status (rec_writer rec) of
        (p, w) \<Rightarrow> (p, rec\<lparr>rec_writer := w, rec_status := status\<rparr>))"

definition recorder_write :: "'w response_writer \<Rightarrow> string \<Rightarrow> 'w recorder \<Rightarrow> nat \<times> 'w recorder" where
  "recorder_write rw b rec =
     (case rw_write rw b (rec_writer rec) of
        (n, w) \<Rightarrow> (n, \<lparr>rec_writer = w, rec_status = (if rec_status rec = 0 then 200 else rec_status rec),
                      rec_bytes = rec_bytes rec + n\<rparr>))"

definition recording :: "'w response_writer \<Rightarrow> 'w recorder response_writer" where
  "recording rw =
     \<lparr>rw_set_header = (\<lambda>n v rec. rec\<lparr>rec_writer := rw_set_header rw n v (rec_writer rec)\<rparr>),
      rw_add_header = (\<lambda>n v rec. rec\<lparr>rec_writer := rw_add_header rw n v (rec_writer rec)\<rparr>),
      rw_write_header = recorder_write_header rw, rw_write = recorder_write rw\<rparr>"

subsection \<open>The middleware\<close>

datatype log_line =
    Request_Line log_level string string "string list" nat nat
  | Panic_Line string string "string list" panic

type_synonym ('c, 'w) serving =
  "'w response_writer \<Rightarrow> 'c request \<Rightarrow> 'w \<Rightarrow> panic option \<times> 'w \<times> log_line list"

definition script :: "('c request \<Rightarrow> action list) \<Rightarrow> ('c, 'w) serving" where
  "script h rw r w = (case perform rw (h r) w of (p, w') \<Rightarrow> (p, w', []))"

definition log_requests :: "('c, 'w recorder) serving \<Rightarrow> ('c, 'w) serving" where
  "log_requests next rw r w =
     (case next (recording rw) r (new_recorder w) of
        (Some p, rec, log) \<Rightarrow> (Some p, rec_writer rec, log)
      | (None, rec, log) \<Rightarrow>
        let status = (if rec_status rec = 0 then 200 else rec_status rec);
            level = (if status \<ge> 500 then LevelError else LevelInfo)
        in (None, rec_writer rec,
            log @ [Request_Line level (rq_id r) (rq_method r) (rq_segments r) status (rec_bytes rec)]))"

text \<open>\<open>envelope\<close> is the JSON text of an error body.\<close>

definition write_error_script :: "(error_body \<Rightarrow> string) \<Rightarrow> 'c request \<Rightarrow> error_code \<Rightarrow> string \<Rightarrow> action list" where
  "write_error_script envelope r code message =
     [Set_Header ''Content-Type'' ''application/json'', Write_Header (status_of code),
      Write (envelope \<lparr>eb_code = code, eb_message = message, eb_details = [], eb_request_id = rq_id r\<rparr>)]"

definition recover_panic ::
  "(error_body \<Rightarrow> string) \<Rightarrow> 'w response_writer \<Rightarrow> 'c request \<Rightarrow> panic option \<times> 'w recorder \<times> log_line list
    \<Rightarrow> panic option \<times> 'w recorder \<times> log_line list" where
  "recover_panic envelope rw r result =
     (case result of
        (None, rec, log) \<Rightarrow> (None, rec, log)
      | (Some p, rec, log) \<Rightarrow>
        if p = ErrAbortHandler then (Some p, rec, log)
        else let log' = log @ [Panic_Line (rq_id r) (rq_method r) (rq_segments r) p] in
          if rec_status rec \<noteq> 0 then (None, rec, log')
          else (case perform (recording rw) (write_error_script envelope r CodeInternal
                   ''Terjadi kesalahan di server. Sertakan request_id kalau melaporkannya.'') rec of
                  (q, rec') \<Rightarrow> (q, rec', log')))"

definition recover :: "(error_body \<Rightarrow> string) \<Rightarrow> ('c, 'w recorder) serving \<Rightarrow> ('c, 'w) serving" where
  "recover envelope next rw r w =
     (case recover_panic envelope rw r (next (recording rw) r (new_recorder w)) of
        (p, rec, log) \<Rightarrow> (p, rec_writer rec, log))"

definition with_request_id :: "string \<Rightarrow> ('c, 'w) serving \<Rightarrow> ('c, 'w) serving" where
  "with_request_id i next rw r w = next rw (r\<lparr>rq_id := i\<rparr>) (rw_set_header rw ''X-Request-Id'' i w)"

text \<open>
  \<open>apiHandler\<close>: \<open>h\<close> is the router behind the CSRF check; \<open>i\<close> the identifier \<open>newRequestID\<close> drew.
\<close>

definition api_chain ::
  "(error_body \<Rightarrow> string) \<Rightarrow> string \<Rightarrow> ('c request \<Rightarrow> action list) \<Rightarrow> ('c, 'w) serving" where
  "api_chain envelope i h = with_request_id i (log_requests (recover envelope (script h)))"

subsection \<open>The writer of \<open>net/http\<close>\<close>

text \<open>
  The first final status goes out with the headers as they are then, and later ones are ignored; an
  informational one goes out at once and commits nothing; a code that is no status panics.  \<open>Write\<close>
  sends 200 first when nothing was sent, and takes no bytes where the status allows no body.
\<close>

record exchange =
  ex_headers :: "(string \<times> string) list"
  ex_sent :: "(nat \<times> (string \<times> string) list) option"
  ex_body :: string

definition new_exchange :: exchange where
  "new_exchange = \<lparr>ex_headers = [], ex_sent = None, ex_body = []\<rparr>"

definition put_header :: "string \<Rightarrow> string \<Rightarrow> (string \<times> string) list \<Rightarrow> (string \<times> string) list" where
  "put_header n v hs = filter (\<lambda>h. fst h \<noteq> n) hs @ [(n, v)]"

definition final_status :: "nat \<Rightarrow> bool" where
  "final_status c \<longleftrightarrow> c = 101 \<or> 200 \<le> c \<and> c \<le> 999"

definition net_write_header :: "nat \<Rightarrow> exchange \<Rightarrow> panic option \<times> exchange" where
  "net_write_header c x =
     (if ex_sent x \<noteq> None then (None, x)
      else if c < 100 \<or> c > 999 then (Some (PanicValue ''invalid WriteHeader code''), x)
      else if final_status c then (None, x\<lparr>ex_sent := Some (c, ex_headers x)\<rparr>)
      else (None, x))"

definition body_allowed :: "nat \<Rightarrow> bool" where
  "body_allowed c \<longleftrightarrow> c \<noteq> 101 \<and> c \<noteq> 204 \<and> c \<noteq> 304"

definition net_write :: "string \<Rightarrow> exchange \<Rightarrow> nat \<times> exchange" where
  "net_write b x =
     (let x1 = snd (net_write_header 200 x) in
      case ex_sent x1 of
        Some (c, hs) \<Rightarrow> if body_allowed c then (length b, x1\<lparr>ex_body := ex_body x1 @ b\<rparr>) else (0, x1)
      | None \<Rightarrow> (0, x1))"

definition net_http :: "exchange response_writer" where
  "net_http =
     \<lparr>rw_set_header = (\<lambda>n v x. x\<lparr>ex_headers := put_header n v (ex_headers x)\<rparr>),
      rw_add_header = (\<lambda>n v x. x\<lparr>ex_headers := ex_headers x @ [(n, v)]\<rparr>),
      rw_write_header = net_write_header, rw_write = net_write\<rparr>"

text \<open>What the client sees once the handler has returned.\<close>

definition wire_answer :: "exchange \<Rightarrow> nat \<times> (string \<times> string) list \<times> string" where
  "wire_answer x = (case ex_sent x of Some (c, hs) \<Rightarrow> (c, hs, ex_body x) | None \<Rightarrow> (200, ex_headers x, []))"

subsection \<open>The contract of a writer\<close>

text \<open>
  What the recorder relies on, of whatever writer it wraps: \<open>sent\<close> is the final status that went out
  and \<open>taken\<close> how many bytes of body were taken.
\<close>

locale answering_writer =
  fixes rw :: "'w response_writer"
    and sent :: "'w \<Rightarrow> nat option"
    and taken :: "'w \<Rightarrow> nat"
  assumes sent_set_header: "sent (rw_set_header rw n v w) = sent w"
    and sent_add_header: "sent (rw_add_header rw n v w) = sent w"
    and sent_write_header: "final_status c \<Longrightarrow>
      fst (rw_write_header rw c w) = None \<and>
      sent (snd (rw_write_header rw c w)) = Some (case sent w of None \<Rightarrow> c | Some s \<Rightarrow> s)"
    and sent_write: "sent (snd (rw_write rw b w)) = Some (case sent w of None \<Rightarrow> 200 | Some s \<Rightarrow> s)"
    and taken_set_header: "taken (rw_set_header rw n v w) = taken w"
    and taken_add_header: "taken (rw_add_header rw n v w) = taken w"
    and taken_write_header: "taken (snd (rw_write_header rw c w)) = taken w"
    and taken_write: "taken (snd (rw_write rw b w)) = taken w + fst (rw_write rw b w)"

text \<open>
  A script is tidy when it names a status at most once, a final one, and before any of the body;
  \<open>sends\<close> tells whether it commits the answer, \<open>before_panic\<close> what it does up to its panic.
\<close>

fun tidy :: "bool \<Rightarrow> action list \<Rightarrow> bool" where
  "tidy committed [] \<longleftrightarrow> True"
| "tidy committed (Set_Header n v # acts) \<longleftrightarrow> tidy committed acts"
| "tidy committed (Add_Header n v # acts) \<longleftrightarrow> tidy committed acts"
| "tidy committed (Write_Header c # acts) \<longleftrightarrow> \<not> committed \<and> final_status c \<and> tidy True acts"
| "tidy committed (Write b # acts) \<longleftrightarrow> tidy True acts"
| "tidy committed (Panic p # acts) \<longleftrightarrow> True"

fun first_panic :: "action list \<Rightarrow> panic option" where
  "first_panic [] = None"
| "first_panic (Panic p # acts) = Some p"
| "first_panic (a # acts) = first_panic acts"

fun before_panic :: "action list \<Rightarrow> action list" where
  "before_panic [] = []"
| "before_panic (Panic p # acts) = []"
| "before_panic (a # acts) = a # before_panic acts"

fun sends :: "action list \<Rightarrow> bool" where
  "sends [] \<longleftrightarrow> False"
| "sends (Write_Header c # acts) \<longleftrightarrow> True"
| "sends (Write b # acts) \<longleftrightarrow> True"
| "sends (a # acts) \<longleftrightarrow> sends acts"

lemmas script_induct = first_panic.induct [case_names none panic set add status body]

lemma before_panic_whole: "first_panic acts = None \<Longrightarrow> before_panic acts = acts"
  by (induction acts rule: first_panic.induct) auto

lemma no_panic_before: "first_panic (before_panic acts) = None"
  by (induction acts rule: before_panic.induct) auto

lemma tidy_before_panic: "tidy c acts \<Longrightarrow> tidy c (before_panic acts)"
  by (induction c acts rule: tidy.induct) auto

lemma tidy_append: "tidy c acts \<Longrightarrow> first_panic acts = None \<Longrightarrow>
    tidy c (acts @ rest) \<longleftrightarrow> tidy (c \<or> sends acts) rest"
  by (induction c acts rule: tidy.induct) auto

lemma perform_append:
  "perform rw (acts @ rest) w =
     (case perform rw acts w of (Some p, w') \<Rightarrow> (Some p, w') | (None, w') \<Rightarrow> perform rw rest w')"
  by (induction rw acts w rule: perform.induct) (auto split: prod.splits option.splits)

lemma recording_simps [simp]:
  "rw_set_header (recording rw) n v rec = rec\<lparr>rec_writer := rw_set_header rw n v (rec_writer rec)\<rparr>"
  "rw_add_header (recording rw) n v rec = rec\<lparr>rec_writer := rw_add_header rw n v (rec_writer rec)\<rparr>"
  "rw_write_header (recording rw) c rec = recorder_write_header rw c rec"
  "rw_write (recording rw) b rec = recorder_write rw b rec"
  by (simp_all add: recording_def)

text \<open>A recorder does to the writer it wraps exactly what is done to it.\<close>

lemma recorder_writer:
  "rec_writer (snd (recorder_write_header rw c rec)) = snd (rw_write_header rw c (rec_writer rec))"
  "fst (recorder_write_header rw c rec) = fst (rw_write_header rw c (rec_writer rec))"
  "rec_writer (snd (recorder_write rw b rec)) = snd (rw_write rw b (rec_writer rec))"
  "fst (recorder_write rw b rec) = fst (rw_write rw b (rec_writer rec))"
  by (simp_all add: recorder_write_header_def recorder_write_def split: prod.splits)

lemma recording_transparent:
  "fst (perform (recording rw) acts rec) = fst (perform rw acts (rec_writer rec))"
  "rec_writer (snd (perform (recording rw) acts rec)) = snd (perform rw acts (rec_writer rec))"
  by (induction rw acts "rec_writer rec" arbitrary: rec rule: perform.induct)
    (auto simp: recorder_writer recorder_write_header_def split: prod.splits option.splits)

text \<open>
  What \<open>Recover\<close> makes of a script: the same script up to its panic, then the answer of
  \<open>WriteError\<close> when nothing was sent; only \<open>ErrAbortHandler\<close> travels on.
\<close>

definition recovered :: "(error_body \<Rightarrow> string) \<Rightarrow> 'c request \<Rightarrow> action list \<Rightarrow> action list" where
  "recovered envelope r acts =
     (case first_panic acts of
        None \<Rightarrow> acts
      | Some p \<Rightarrow> before_panic acts @
          (if p = ErrAbortHandler then [Panic ErrAbortHandler]
           else if sends (before_panic acts) then []
           else write_error_script envelope r CodeInternal
             ''Terjadi kesalahan di server. Sertakan request_id kalau melaporkannya.''))"

definition panic_lines :: "'c request \<Rightarrow> action list \<Rightarrow> log_line list" where
  "panic_lines r acts =
     (case first_panic acts of
        None \<Rightarrow> []
      | Some p \<Rightarrow> if p = ErrAbortHandler then [] else [Panic_Line (rq_id r) (rq_method r) (rq_segments r) p])"

lemma status_of_internal: "status_of CodeInternal = 500"
  by (simp add: status_of_def code_defs)

lemma tidy_recovered: "tidy False acts \<Longrightarrow> tidy False (recovered envelope r acts)"
  by (auto simp: recovered_def tidy_append no_panic_before tidy_before_panic write_error_script_def
      status_of_internal final_status_def split: option.splits)

lemma first_panic_append: "first_panic (acts @ rest) = (case first_panic acts of None \<Rightarrow> first_panic rest | Some p \<Rightarrow> Some p)"
  by (induction acts rule: first_panic.induct) auto

lemma first_panic_recovered:
  "first_panic (recovered envelope r acts) = (if first_panic acts = Some ErrAbortHandler then Some ErrAbortHandler else None)"
  by (auto simp: recovered_def first_panic_append no_panic_before write_error_script_def split: option.splits)

context answering_writer
begin

lemmas contract = sent_set_header sent_add_header sent_write_header sent_write taken_set_header
  taken_add_header taken_write_header taken_write

text \<open>A tidy script panics where it says so and nowhere else.\<close>

lemma perform_panic:
  "tidy c acts \<Longrightarrow> perform rw acts w = (first_panic acts, snd (perform rw (before_panic acts) w))"
proof (induction acts arbitrary: c w rule: script_induct)
  case (status n acts)
  then have "fst (rw_write_header rw n w) = None" by (auto simp: sent_write_header)
  with status show ?case by (auto split: prod.splits option.splits)
qed auto

lemma sent_perform:
  "tidy c acts \<Longrightarrow> first_panic acts = None \<Longrightarrow>
     (sent (snd (perform rw acts w)) \<noteq> None) = (sent w \<noteq> None \<or> sends acts)"
proof (induction acts arbitrary: c w rule: script_induct)
  case (status n acts)
  then have "fst (rw_write_header rw n w) = None" "sent (snd (rw_write_header rw n w)) \<noteq> None"
    by (auto simp: sent_write_header)
  with status show ?case by (auto split: prod.splits option.splits)
qed (auto simp: contract)

text \<open>
  A recorder that has been there from the start knows the status and the bytes.
\<close>

definition tracks :: "nat \<Rightarrow> 'w recorder \<Rightarrow> bool" where
  "tracks n rec \<longleftrightarrow>
     rec_status rec = (case sent (rec_writer rec) of None \<Rightarrow> 0 | Some s \<Rightarrow> s) \<and>
     n + rec_bytes rec = taken (rec_writer rec) \<and> sent (rec_writer rec) \<noteq> Some 0"

lemma tracks_new: "sent w = None \<Longrightarrow> tracks (taken w) (new_recorder w)"
  by (simp add: tracks_def new_recorder_def)

lemma tracks_perform:
  "tidy (sent (rec_writer rec) \<noteq> None) acts \<Longrightarrow> tracks n rec \<Longrightarrow> tracks n (snd (perform (recording rw) acts rec))"
proof (induction acts arbitrary: rec rule: script_induct)
  case (set name v acts)
  then show ?case by (auto simp: tracks_def contract)
next
  case (add name v acts)
  then show ?case by (auto simp: tracks_def contract)
next
  case (status c acts)
  obtain p w' where step: "rw_write_header rw c (rec_writer rec) = (p, w')" by fastforce
  with status.prems sent_write_header [of c "rec_writer rec"] taken_write_header [of c "rec_writer rec"]
  have "p = None" "sent w' = Some c" "taken w' = taken (rec_writer rec)" "c \<noteq> 0"
    by (auto simp: final_status_def)
  with status step show ?case by (auto simp: recorder_write_header_def tracks_def)
next
  case (body b acts)
  obtain k w' where step: "rw_write rw b (rec_writer rec) = (k, w')" by fastforce
  with sent_write [of b "rec_writer rec"] taken_write [of b "rec_writer rec"]
  have "sent w' = Some (case sent (rec_writer rec) of None \<Rightarrow> 200 | Some s \<Rightarrow> s)" "taken w' = taken (rec_writer rec) + k"
    by auto
  with body step show ?case by (auto simp: recorder_write_def tracks_def split: option.splits)
qed auto

text \<open>A recorder around an answering writer is one.\<close>

lemma recording_answers:
  "answering_writer (recording rw) (\<lambda>rec. sent (rec_writer rec)) (\<lambda>rec. taken (rec_writer rec))"
  by unfold_locales (simp_all add: contract recorder_writer)

lemma recover_as_script:
  assumes "sent w = None" and "tidy False (h r)"
  shows "recover envelope (script h) rw r w =
     (case perform rw (recovered envelope r (h r)) w of (p, w') \<Rightarrow> (p, w', panic_lines r (h r)))"
proof -
  let ?acts = "h r" and ?rec = "new_recorder w"
  let ?done = "perform (recording rw) (before_panic ?acts) ?rec"
  have writer: "rec_writer ?rec = w" by (simp add: new_recorder_def)
  have committed: "rec_status (snd ?done) \<noteq> 0 \<longleftrightarrow> sends (before_panic ?acts)"
  proof -
    from assms writer tracks_new [OF assms(1)] have "tracks (taken w) (snd ?done)"
      by (intro tracks_perform) (auto intro: tidy_before_panic)
    then have "rec_status (snd ?done) \<noteq> 0 \<longleftrightarrow> sent (rec_writer (snd ?done)) \<noteq> None"
      by (auto simp: tracks_def split: option.splits)
    with sent_perform [OF tidy_before_panic [OF assms(2)] no_panic_before, of w] assms(1)
    show ?thesis by (simp add: recording_transparent writer)
  qed
  define rec where "rec = snd ?done"
  have whole: "perform (recording rw) ?acts ?rec = (first_panic ?acts, rec)"
    unfolding rec_def by (rule answering_writer.perform_panic [OF recording_answers assms(2)])
  have reached: "perform rw (before_panic ?acts) w = (None, rec_writer rec)"
    using perform_panic [OF tidy_before_panic [OF assms(2)], of w] no_panic_before [of ?acts]
      before_panic_whole [OF no_panic_before [of ?acts]]
    by (simp add: recording_transparent writer rec_def)
  show ?thesis
  proof (cases "first_panic ?acts")
    case None
    with whole reached show ?thesis
      by (simp add: recover_def recover_panic_def script_def recovered_def panic_lines_def before_panic_whole)
  next
    case (Some p)
    let ?line = "Panic_Line (rq_id r) (rq_method r) (rq_segments r) p"
    let ?answer = "write_error_script envelope r CodeInternal
      ''Terjadi kesalahan di server. Sertakan request_id kalau melaporkannya.''"
    from Some whole have recover: "recover envelope (script h) rw r w =
       (if p = ErrAbortHandler then (Some p, rec_writer rec, [])
        else if sends (before_panic ?acts) then (None, rec_writer rec, [?line])
        else (fst (perform (recording rw) ?answer rec), rec_writer (snd (perform (recording rw) ?answer rec)), [?line]))"
      using committed by (simp add: rec_def recover_def recover_panic_def script_def split: prod.splits)
    show ?thesis
      unfolding recover using reached Some
      by (auto simp: recovered_def panic_lines_def perform_append recording_transparent split: prod.splits)
  qed
qed

text \<open>
  The whole chain on a writer that has sent nothing: the recovered script, run on the writer, and one
  line that says what it answered.
\<close>

lemma chain_answer:
  assumes "sent w = None" and tidy: "tidy False (h (r\<lparr>rq_id := i\<rparr>))"
    and "perform rw (recovered envelope (r\<lparr>rq_id := i\<rparr>) (h (r\<lparr>rq_id := i\<rparr>)))
           (rw_set_header rw ''X-Request-Id'' i w) = (p, w')"
  defines "status \<equiv> (case sent w' of None \<Rightarrow> 200 | Some s \<Rightarrow> s)"
  shows "api_chain envelope i h rw r w =
     (p, w', panic_lines (r\<lparr>rq_id := i\<rparr>) (h (r\<lparr>rq_id := i\<rparr>)) @
        (if p = None
         then [Request_Line (if status \<ge> 500 then LevelError else LevelInfo) i (rq_method r) (rq_segments r)
                 status (taken w' - taken w)]
         else []))"
proof -
  let ?r = "r\<lparr>rq_id := i\<rparr>" and ?w = "rw_set_header rw ''X-Request-Id'' i w"
  let ?acts = "recovered envelope ?r (h ?r)"
  obtain rec where ran: "perform (recording rw) ?acts (new_recorder ?w) = (p, rec)" "rec_writer rec = w'"
    using assms(3) recording_transparent [of rw ?acts "new_recorder ?w"]
    by (cases "perform (recording rw) ?acts (new_recorder ?w)") (simp add: new_recorder_def)
  have start: "sent ?w = None" "taken ?w = taken w" using assms(1) by (simp_all add: contract)
  have "tracks (taken w) rec"
    using tracks_perform [of "new_recorder ?w" ?acts "taken w"] tracks_new [OF start(1)] start
      tidy_recovered [OF tidy, of envelope ?r] ran(1)
    by (simp add: new_recorder_def)
  then have "(if rec_status rec = 0 then 200 else rec_status rec) = status" "rec_bytes rec = taken w' - taken w"
    using ran(2) by (auto simp: tracks_def status_def split: option.splits)
  moreover have "recover envelope (script h) (recording rw) ?r (new_recorder ?w) = (p, rec, panic_lines ?r (h ?r))"
    using answering_writer.recover_as_script [where h = h and envelope = envelope, OF recording_answers _ tidy] ran(1) start
    by (simp add: new_recorder_def)
  ultimately show ?thesis
    using ran(2) by (auto simp: api_chain_def with_request_id_def log_requests_def Let_def split: option.splits)
qed

end

interpretation net: answering_writer net_http "\<lambda>x. map_option fst (ex_sent x)" "\<lambda>x. length (ex_body x)"
  by unfold_locales
    (auto simp: net_http_def net_write_header_def net_write_def final_status_def Let_def split: option.splits)

subsection \<open>What the client gets and what the log says\<close>

lemma wire_sent: "map_option fst (ex_sent x) = Some s \<Longrightarrow> fst (wire_answer x) = s"
  by (auto simp: wire_answer_def)

lemma wire_status: "fst (wire_answer x) = (case map_option fst (ex_sent x) of None \<Rightarrow> 200 | Some s \<Rightarrow> s)"
  by (auto simp: wire_answer_def split: option.splits)

lemma new_exchange_simps [simp]: "ex_sent new_exchange = None" "ex_body new_exchange = []" "ex_headers new_exchange = []"
  by (simp_all add: new_exchange_def)

lemma panic_lines_are_panics: "set (panic_lines r acts) \<subseteq> {Panic_Line (rq_id r) (rq_method r) (rq_segments r) p |p. True}"
  by (auto simp: panic_lines_def split: option.splits)

text \<open>
  For a handler that names a status at most once, a final one, and before any body, and that may
  panic at any point with anything but \<open>http.ErrAbortHandler\<close>: the chain returns normally and leaves
  exactly one request line, after the lines of the panic; it has the request's identifier, the status
  and the number of bytes the client really gets, and is an error exactly when that status is 500 or
  more.
\<close>

theorem log_tells_the_answer:
  assumes "tidy False (h (r\<lparr>rq_id := i\<rparr>))" and "first_panic (h (r\<lparr>rq_id := i\<rparr>)) \<noteq> Some ErrAbortHandler"
  shows "\<exists>x panics. api_chain envelope i h net_http r new_exchange =
      (None, x, panics @ [Request_Line (if fst (wire_answer x) \<ge> 500 then LevelError else LevelInfo) i
         (rq_method r) (rq_segments r) (fst (wire_answer x)) (length (ex_body x))]) \<and>
      length panics = (if first_panic (h (r\<lparr>rq_id := i\<rparr>)) = None then 0 else 1)"
proof -
  let ?r = "r\<lparr>rq_id := i\<rparr>" and ?start = "rw_set_header net_http ''X-Request-Id'' i new_exchange"
  let ?acts = "recovered envelope ?r (h ?r)"
  obtain p x where ran: "perform net_http ?acts ?start = (p, x)" by fastforce
  with net.perform_panic [OF tidy_recovered [OF assms(1)], of envelope ?r ?start] assms(2)
  have "p = None" by (auto simp: first_panic_recovered split: if_splits)
  with net.chain_answer [where w = new_exchange and h = h and r = r and i = i and envelope = envelope and p = p and w' = x] assms(1) ran
  have "api_chain envelope i h net_http r new_exchange =
      (None, x, panic_lines ?r (h ?r) @ [Request_Line (if fst (wire_answer x) \<ge> 500 then LevelError else LevelInfo) i
         (rq_method r) (rq_segments r) (fst (wire_answer x)) (length (ex_body x))])"
    by (simp add: wire_status)
  moreover have "length (panic_lines ?r (h ?r)) = (if first_panic (h ?r) = None then 0 else 1)"
    using assms(2) by (auto simp: panic_lines_def)
  ultimately show ?thesis by blast
qed

text \<open>A script that sends nothing, and the answer of \<open>WriteError\<close> after it.\<close>

lemma quiet_script:
  "\<not> sends acts \<Longrightarrow> ex_sent (snd (perform net_http acts x)) = ex_sent x \<and> ex_body (snd (perform net_http acts x)) = ex_body x"
  by (induction acts arbitrary: x rule: sends.induct) (auto simp: net_http_def)

lemma answer_internal:
  assumes "ex_sent x = None" and "ex_body x = []"
  shows "wire_answer (snd (perform net_http (write_error_script envelope r CodeInternal message) x)) =
     (500, put_header ''Content-Type'' ''application/json'' (ex_headers x),
      envelope \<lparr>eb_code = CodeInternal, eb_message = message, eb_details = [], eb_request_id = rq_id r\<rparr>)"
  using assms by (simp add: write_error_script_def status_of_internal net_http_def net_write_header_def final_status_def
      net_write_def body_allowed_def wire_answer_def)

lemma put_header_in: "(n, v) \<in> set (put_header n v hs)"
  by (simp add: put_header_def)


subsection \<open>Where the log and the answer part\<close>

text \<open>
  Outside tidy scripts the recorder keeps the last status it was told, not the one that went out: a
  second \<open>WriteHeader\<close>, or an informational one before the body, is logged in place of the answer;
  and a code that is no status makes \<open>net/http\<close> panic after the recorder has noted it, so that
  \<open>Recover\<close> takes the response for committed and the client gets an empty 200.
\<close>

definition plain_request :: "unit request" where
  "plain_request = \<lparr>rq_method = ''GET'', rq_segments = [''api''], rq_headers = [], rq_cookies = [],
     rq_remote_addr = '''', rq_body = '''', rq_id = '''', rq_caller = None\<rparr>"

lemmas chain_eval = api_chain_def with_request_id_def log_requests_def recover_def recover_panic_def script_def
  recorder_write_header_def recorder_write_def new_recorder_def net_http_def net_write_header_def net_write_def
  final_status_def body_allowed_def wire_answer_def put_header_def write_error_script_def status_of_internal

definition logged_and_sent :: "action list \<Rightarrow> log_line list \<times> nat \<times> string" where
  "logged_and_sent acts =
     (case api_chain (\<lambda>e. eb_code e) ''id'' (\<lambda>r. acts) net_http plain_request new_exchange of
        (p, x, log) \<Rightarrow> (log, fst (wire_answer x), snd (snd (wire_answer x))))"

lemma status_told_twice:
  "logged_and_sent [Write_Header 200, Write ''ok'', Write_Header 500] =
     ([Request_Line LevelError ''id'' ''GET'' [''api''] 500 2], 200, ''ok'')"
  by (simp add: logged_and_sent_def chain_eval plain_request_def)

lemma informational_status_logged:
  "logged_and_sent [Write_Header 103, Write ''ok''] =
     ([Request_Line LevelInfo ''id'' ''GET'' [''api''] 103 2], 200, ''ok'')"
  by (simp add: logged_and_sent_def chain_eval plain_request_def)

lemma no_status_swallowed:
  "logged_and_sent [Write_Header 42] =
     ([Panic_Line ''id'' ''GET'' [''api''] (PanicValue ''invalid WriteHeader code''),
       Request_Line LevelInfo ''id'' ''GET'' [''api''] 42 0], 200, '''')"
  by (simp add: logged_and_sent_def chain_eval plain_request_def)

subsection \<open>Witnesses\<close>

text \<open>A handler that panics with nothing sent, and one that panics in the middle of its body.\<close>

lemma log_tells_the_answer_witness:
  "\<exists>x panics. api_chain (\<lambda>e. eb_code e) ''id'' (\<lambda>r. [Write_Header 201, Write ''half'', Panic (PanicValue ''nil'')])
        net_http plain_request new_exchange =
      (None, x, panics @ [Request_Line (if fst (wire_answer x) \<ge> 500 then LevelError else LevelInfo) ''id''
         ''GET'' [''api''] (fst (wire_answer x)) (length (ex_body x))]) \<and> length panics = 1"
  using log_tells_the_answer [where h = "\<lambda>r. [Write_Header 201, Write ''half'', Panic (PanicValue ''nil'')]"
      and r = plain_request and i = "''id''" and envelope = "\<lambda>e. eb_code e"]
  by (simp add: final_status_def plain_request_def)


end
