(* ===== verification/Api_Wire.thy ===== *)
theory Api_Wire
  imports Api_Properties Middleware
begin

text \<open>
  The answers of the application on the wire: the modelled handlers behind the whole chain of
  \<open>apiHandler\<close>, with the request log and the recovery, on the writer of \<open>net/http\<close>.

  \<open>render\<close> is the text of a cookie, \<open>encode\<close> that of a body.  The text \<open>net/http\<close> sends with a path
  that matches no route is left out, as in the model of the answer.
\<close>

subsection \<open>An answer as a script\<close>

definition response_script :: "(set_cookie \<Rightarrow> string) \<Rightarrow> ('b body \<Rightarrow> string) \<Rightarrow> 'b response \<Rightarrow> action list" where
  "response_script render encode a =
     map (\<lambda>c. Add_Header ''Set-Cookie'' (render c)) (rs_cookies a) @
     (case rs_retry_after a of None \<Rightarrow> [] | Some w \<Rightarrow> [Set_Header ''Retry-After'' (int_string w)]) @
     (if rs_body a = NoBody then [Write_Header (rs_status a)]
      else [Set_Header ''Content-Type'' ''application/json'', Write_Header (rs_status a), Write (encode (rs_body a))])"

lemma net_http_simps [simp]:
  "rw_set_header net_http n v x = x\<lparr>ex_headers := put_header n v (ex_headers x)\<rparr>"
  "rw_add_header net_http n v x = x\<lparr>ex_headers := ex_headers x @ [(n, v)]\<rparr>"
  "rw_write_header net_http c x = net_write_header c x"
  "rw_write net_http b x = net_write b x"
  by (simp_all add: net_http_def)

lemma cookie_script:
  "tidy c (map (\<lambda>k. Add_Header n (f k)) ks @ acts) = tidy c acts"
  "first_panic (map (\<lambda>k. Add_Header n (f k)) ks @ acts) = first_panic acts"
  "perform net_http (map (\<lambda>k. Add_Header n (f k)) ks @ acts) x =
     perform net_http acts (x\<lparr>ex_headers := ex_headers x @ map (\<lambda>k. (n, f k)) ks\<rparr>)"
  by (induction ks arbitrary: x) simp_all

definition answer_headers :: "(set_cookie \<Rightarrow> string) \<Rightarrow> 'b response \<Rightarrow> (string \<times> string) list" where
  "answer_headers render a =
     (''X-Request-Id'', rs_request_id a) # map (\<lambda>c. (''Set-Cookie'', render c)) (rs_cookies a) @
     (case rs_retry_after a of None \<Rightarrow> [] | Some w \<Rightarrow> [(''Retry-After'', int_string w)]) @
     (if rs_body a = NoBody then [] else [(''Content-Type'', ''application/json'')])"

definition answer_body :: "('b body \<Rightarrow> string) \<Rightarrow> 'b response \<Rightarrow> string" where
  "answer_body encode a = (if rs_body a = NoBody then [] else encode (rs_body a))"

lemma well_formed_status:
  "well_formed i a \<Longrightarrow> final_status (rs_status a) \<and> (rs_body a \<noteq> NoBody \<longrightarrow> body_allowed (rs_status a))"
  by (auto simp: well_formed_def final_status_def body_allowed_def contract_codes_def status_of_def code_defs
      split: body.splits)

lemma response_script_tidy:
  "well_formed i a \<Longrightarrow> tidy False (response_script render encode a) \<and> first_panic (response_script render encode a) = None"
  using well_formed_status [of i a] by (auto simp: response_script_def cookie_script split: option.split)

lemma response_script_wire:
  fixes render :: "set_cookie \<Rightarrow> string" and encode :: "'b body \<Rightarrow> string"
  assumes "well_formed i a"
  defines "x \<equiv> snd (perform net_http (response_script render encode a)
    (rw_set_header net_http ''X-Request-Id'' (rs_request_id a) new_exchange))"
  shows "wire_answer x = (rs_status a, answer_headers render a, answer_body encode a)"
    and "length (ex_body x) = length (answer_body encode a)"
proof -
  have cookies: "filter (\<lambda>h. fst h \<noteq> n) (map (\<lambda>c. (''Set-Cookie'', render c)) ks) = map (\<lambda>c. (''Set-Cookie'', render c)) ks"
    if "n \<noteq> ''Set-Cookie''" for n and ks :: "set_cookie list"
    using that by (induction ks) auto
  have range: "\<not> rs_status a < 100" "\<not> 999 < rs_status a"
    using well_formed_status [OF assms(1)] by (auto simp: final_status_def)
  show "wire_answer x = (rs_status a, answer_headers render a, answer_body encode a)"
    and "length (ex_body x) = length (answer_body encode a)"
    using well_formed_status [OF assms(1)] range
    by (auto simp: x_def response_script_def cookie_script answer_headers_def answer_body_def
        net_write_header_def net_write_def wire_answer_def put_header_def cookies split: option.splits)
qed

subsection \<open>The whole application\<close>

text \<open>The router behind the CSRF check, as what it does to its writer.\<close>

definition wire_handler ::
  "(set_cookie \<Rightarrow> string) \<Rightarrow> (api_body body \<Rightarrow> string) \<Rightarrow> 'r app \<Rightarrow> bool \<Rightarrow> nat \<Rightarrow> draws \<Rightarrow> 'r api_state
    \<Rightarrow> api_request \<Rightarrow> action list" where
  "wire_handler render encode app answers unmatched dr s r =
     response_script render encode (fst (csrf (app_to_lower app) (mux app answers unmatched) dr r s))"


end
