(* ===== verification/Api_Samples.thy ===== *)
theory Api_Samples
  imports Api_Logins Api_Wire
begin

text \<open>
  A small application and requests to it, on which the properties of the interface are used.
\<close>

definition sample_app :: "(string \<Rightarrow> string) \<Rightarrow> db app" where
  "sample_app f = \<lparr>app_redis = db_redis, app_sha = id, app_argon2 = sample_argon2, app_cpus = 4, app_nfkc = id,
     app_decoy = ''decoy'', app_to_lower = id, app_parse_address = Some, app_join_path = (\<lambda>x y. x @ y),
     app_deliver = (\<lambda>_. None), app_scan_uuid = (\<lambda>_. True), app_trusted = [],
     app_parse_ip = (\<lambda>_. Some (V4 1)), app_ip_text = (\<lambda>_. ''0.0.0.1''), app_json = (\<lambda>_ _ _. Some f)\<rparr>"

definition sample_request :: "string \<Rightarrow> string list \<Rightarrow> (string \<times> string) list \<Rightarrow> (string \<times> string) list \<Rightarrow> api_request" where
  "sample_request method path headers cookies = \<lparr>rq_method = method, rq_segments = path, rq_headers = headers,
     rq_cookies = cookies, rq_remote_addr = ''0.0.0.1:5000'', rq_body = '''', rq_id = '''', rq_caller = None\<rparr>"

definition sample_draws :: draws where
  "sample_draws = \<lparr>dr_csrf = Some (replicate 32 3), dr_token = Some (replicate 32 9), dr_salt = Some (replicate 16 1),
     dr_id = replicate 16 5, dr_now = 5, dr_later = 6\<rparr>"

definition sample_state :: "pg \<Rightarrow> string delivery list \<Rightarrow> db api_state" where
  "sample_state d ds = \<lparr>as_pg = d, as_redis = (sample_db, ds), as_mail = []\<rparr>"

definition sample_pair :: string where
  "sample_pair = base64_encode url_alphabet (replicate 32 3)"

definition sample_post :: "string list \<Rightarrow> (string \<times> string) list \<Rightarrow> api_request" where
  "sample_post path cookies =
     sample_request ''POST'' path [(CSRFHeaderName, sample_pair)] ((CSRFCookieName, sample_pair) # cookies)"

lemma sample_paired: "csrf_cookie_token (sample_post path cookies) = Some sample_pair"
proof -
  have "base64_decode url_alphabet sample_pair = Some (replicate 32 3)"
    unfolding sample_pair_def by (simp add: base64_roundtrip)
  then show ?thesis
    by (simp add: csrf_token_decodes request_cookie_def csrfTokenBytes_def sample_post_def sample_request_def)
qed

lemma sample_passes:
  "snd (api_handler app answers unmatched dr (sample_post path cookies) s) =
    snd (mux app answers unmatched dr ((sample_post path cookies)\<lparr>rq_id := hex_encode (dr_id dr)\<rparr>) s)"
proof -
  have "presents_pair (sample_post path cookies)"
    using sample_paired [of path cookies]
    by (auto simp: csrf_token_decodes presents_pair_def header_get_def sample_post_def sample_request_def)
  with csrf_pair [OF sample_paired] show ?thesis
    by (simp add: api_handler_unfold csrf_def sample_paired Let_def split: prod.split)
qed

lemma sample_fields [simp]:
  "rq_method (sample_post path cookies) = ''POST''" "rq_segments (sample_post path cookies) = path"
  "rq_body (sample_post path cookies) = []" "rq_caller (sample_post path cookies) = None"
  "request_cookie (sample_post path cookies) SessionCookieName = first_value SessionCookieName cookies"
  by (simp_all add: sample_post_def sample_request_def request_cookie_def CSRFCookieName_def SessionCookieName_def)

subsection \<open>Refusals\<close>




lemma guarded_routes_need_session_witness:
  "rs_status (fst (api_handler (sample_app id) True 404 sample_draws
      (sample_request ''GET'' [''api'', ''v1'', ''me''] [] []) (sample_state sample_signed_in []))) \<in> {401, 403, 500}"
proof -
  let ?r = "sample_request ''GET'' [''api'', ''v1'', ''me''] [] []"
  have "route_of (rq_method ?r) (rq_segments ?r) = Some GetMe" "guarded GetMe"
    "\<not> (\<exists>su. session_behind (sample_app id) ?r (dr_now sample_draws) (as_pg (sample_state sample_signed_in [])) su)"
    by (simp_all add: sample_request_def route_of_def guarded_def session_behind_def request_cookie_def)
  from guarded_routes_need_session [OF this prod.collapse [symmetric]] show ?thesis by blast
qed

lemma login_fails_closed_witness:
  "fst (login (sample_app (\<lambda>n. ''correct horse'')) sample_draws (sample_post [''api'', ''v1'', ''auth'', ''login''] [])
      (sample_state sample_signed_in [Delivered, NotRun ''down'']))
    = write_rate_limited (sample_post [''api'', ''v1'', ''auth'', ''login''] []) (30 * second)"
proof -
  let ?app = "sample_app (\<lambda>n. ''correct horse'')"
  have "redis_documented (app_redis ?app) (\<lambda>d. d)"
    "as_redis (sample_state sample_signed_in [Delivered, NotRun ''down'']) = (sample_db, [Delivered, NotRun ''down''])"
    "delivery_of [Delivered, NotRun ''down''] Address \<noteq> Delivered"
    using db_redis_documented by (simp_all add: sample_app_def sample_state_def delivery_of_def next_delivery_def)
  from login_fails_closed [OF this prod.collapse [symmetric]] show ?thesis
    by (simp add: sample_app_def field_missing_def)
qed

subsection \<open>A redeemed invitation\<close>

lemma sample_allows:
  assumes "good_tiers tiers" "\<forall>t \<in> set tiers. 0 < tier_limit t"
  shows "fst (allow db_redis tiers (Delivered :: string delivery) key sample_db) = (True, 0, None)"
proof -
  have "limiter_run db_redis (\<lambda>d. d) tiers [] sample_db" by (rule limiter_run.fresh) (simp add: sample_db_def)
  moreover have "\<not> 0 < log_wait (db_now sample_db) (\<lambda>w. hit_times [] key) tiers 0"
    using log_wait_pos [of tiers "db_now sample_db" "\<lambda>w. hit_times [] key"] assms
    by (auto simp: good_tiers_def tier_full_def hit_times_def recent_def)
  ultimately show ?thesis using db_server.run_allow [of tiers "[]" sample_db key] assms(1) by simp
qed

lemma sample_limit_passes:
  assumes "good_tiers tiers" "\<forall>t \<in> set tiers. 0 < tier_limit t" "key r \<noteq> []" "as_redis s = (sample_db, [])"
  shows "\<exists>c. rate_limit (on_redis (redis_limiter db_redis tiers)) key on_failure h dr r s = h dr r (s\<lparr>as_redis := c\<rparr>)"
proof -
  obtain db where "allow db_redis tiers (Delivered :: string delivery) (key r) sample_db = ((True, 0, None), db)"
    using sample_allows [OF assms(1,2)] by (metis prod.collapse)
  then have "rate_limit (on_redis (redis_limiter db_redis tiers)) key on_failure h dr r s
      = h dr r (s\<lparr>as_redis := (db, [])\<rparr>)"
    using assms by (simp add: rate_limit_def on_redis_def redis_limiter_def Let_def)
  then show ?thesis by blast
qed

definition sample_accept :: "string \<Rightarrow> string" where
  "sample_accept n = (if n = ''token'' then sample_link else if n = ''name'' then '' Budi '' else ''correct horse'')"

abbreviation accept_path :: "string list" where
  "accept_path \<equiv> [''api'', ''v1'', ''invitations'', ''accept'']"

definition sample_joined :: "db api_state" where
  "sample_joined = snd (api_handler (sample_app sample_accept) True 404 sample_draws (sample_post accept_path [])
     (sample_state sample_invited []))"

lemma sample_joined_accounts:
  "accounts (as_pg sample_joined) \<noteq> accounts sample_invited"
  "\<not> session_owners (as_pg sample_joined) \<subseteq> session_owners sample_invited"
proof -
  let ?app = "sample_app sample_accept" and ?s = "sample_state sample_invited []"
  let ?r = "(sample_post accept_path [])\<lparr>rq_id := hex_encode (dr_id sample_draws)\<rparr>"
  let ?tiers = "[\<lparr>tier_limit = 10, tier_window = 10 * minute\<rparr>, \<lparr>tier_limit = 50, tier_window = hour\<rparr>]"
  have "good_tiers ?tiers" "\<forall>t \<in> set ?tiers. 0 < tier_limit t" "address_key ?app ''accept'' ?r \<noteq> []"
    "as_redis ?s = (sample_db, [])"
    by (simp_all add: good_tiers_def window_ms_def milliseconds_def duration_defs address_key_def sample_state_def
        split: option.split)
  from sample_limit_passes [where key = "address_key ?app ''accept''", OF this, of FailClosed
      "accept_invitation_handler ?app" sample_draws]
  obtain c where c: "mux ?app True 404 sample_draws ?r ?s
      = accept_invitation_handler ?app sample_draws ?r (?s\<lparr>as_redis := c\<rparr>)"
    by (auto simp: mux_def route_of_def serve_route_def accept_limit_def sample_app_def)
  obtain who d where acc: "accept_invited in_tx pg_tx_store id sample_argon2 id (Some (replicate 16 1)) 5 sample_link
      '' Budi '' ''correct horse'' sample_invited = (Inr who :: string invitations_error + user, d)" "deliveries d = []"
    using sample_redeemed by blast
  from redeeming_effect [OF sample_invited_ok acc(1)] obtain u where
    d: "users d = users sample_invited @ [u]" "who = user_of u" "sessions d = sessions sample_invited" "u_deleted_at u = None"
      "schema_ok d" "uuids_ok d" by auto
  have sessions: "sessions d = []" by (simp add: d(3) sample_invited_def sample_accounts_def)
  have "pg_sound d" "u \<in> set (users_live d)" using acc(2) d by (simp_all add: pg_sound_def users_live_def)
  from issue_row [OF this, of "replicate 32 9" id 6 "user_agent ?r"] sessions obtain token row d' where
    i: "issue pg_session_store id (Some (replicate 32 9)) 6 (u_id u) (user_agent ?r) d = (Inr (token, session_of row), d')"
      "sessions d' = [row]"
    by (simp add: opaque_token_bytes_def) blast
  have "length sample_link = 43" by (simp add: sample_link_def length_base64_encode)
  then have "sample_link \<noteq> []" by auto
  then have "as_pg sample_joined = d'"
    using acc(1) i(1) unfolding sample_joined_def sample_passes c
    by (simp add: accept_invitation_handler_def sample_app_def sample_accept_def sample_draws_def sample_state_def
        field_missing_def Let_def d(2) user_of_def)
  moreover have "accounts d' = accounts d"
    using account_list.issue_keeps [OF refl, of id "Some (replicate 32 9)" 6 "u_id u" "user_agent ?r" d] i(1) by simp
  ultimately show "accounts (as_pg sample_joined) \<noteq> accounts sample_invited"
    "\<not> session_owners (as_pg sample_joined) \<subseteq> session_owners sample_invited"
    using i(2) d(3) sessions by (simp_all add: accounts_def d(1) session_owners_def)
qed

lemma sample_invited_valid: "valid_pg (as_pg (sample_state sample_invited []))"
  using sample_invited_ok by (simp add: valid_pg_def sample_state_def)

lemma accounts_only_by_invitation_witness:
  "\<exists>u. u_email u = ''budi@example.com'' \<and> u_role u = ''contributor''
    \<and> accounts (as_pg sample_joined) = accounts sample_invited @ [account_of u]"
proof -
  have "accounts (as_pg sample_joined) \<noteq> accounts (as_pg (sample_state sample_invited []))"
    using sample_joined_accounts(1) by (simp add: sample_state_def)
  from accounts_only_by_invitation [OF sample_invited_valid prod.collapse [symmetric] this [unfolded sample_joined_def]]
  show ?thesis
    by (auto simp: sample_joined_def sample_state_def sample_invited_def sample_invitation_def)
qed

lemma sessions_only_by_credentials_witness:
  "\<exists>sid u. session_owners (as_pg sample_joined) \<subseteq> {(sid, u_id u)}
    \<and> accounts (as_pg sample_joined) = accounts sample_invited @ [account_of u]"
proof -
  have "\<not> session_owners (as_pg sample_joined) \<subseteq> session_owners (as_pg (sample_state sample_invited []))"
    using sample_joined_accounts(2) by (simp add: sample_state_def)
  from sessions_only_by_credentials [OF sample_invited_valid prod.collapse [symmetric] this [unfolded sample_joined_def]]
  show ?thesis
    by (auto simp: sample_joined_def sample_state_def route_of_def sample_invited_def sample_accounts_def
        session_owners_def)
qed


subsection \<open>An invitation by the owner\<close>

definition sample_owned :: pg where
  "sample_owned = sample_signed_in\<lparr>users := [sample_user\<lparr>u_role := ''owner''\<rparr>]\<rparr>"

definition sample_cookie :: string where
  "sample_cookie = base64_encode url_alphabet (replicate 32 7)"

definition sample_invite :: "string \<Rightarrow> string" where
  "sample_invite n = (if n = ''email'' then ''budi@example.com'' else ''contributor'')"

abbreviation invite_path :: "string list" where
  "invite_path \<equiv> [''api'', ''v1'', ''invitations'']"

lemma sample_owner_authenticates:
  "authenticate pg_session_store id 5 sample_cookie sample_owned =
    (Inr \<lparr>au_session_id = ''s1'', au_user_id = u_id sample_user, au_email = u_email sample_user,
       au_name = u_name sample_user, au_timezone = u_timezone sample_user, au_role = ''owner''\<rparr>, sample_owned)"
proof -
  have "get_session_by_token_hash (replicate 32 7) sample_owned
      = (Inr (sample_session, sample_user\<lparr>u_role := ''owner''\<rparr>), sample_owned)"
    by (simp add: get_session_by_token_hash_def sample_owned_def sample_signed_in_def sample_pg_def sample_session_def
        sample_user_def users_live_def find_row_def)
  moreover have "\<not> session_is_expired (session_of sample_session) 5" "\<not> needs_renewal (session_of sample_session) 5"
    by code_simp+
  moreover have "s_id (session_of sample_session) = ''s1''" "s_user_id (session_of sample_session) = u_id sample_user"
    by (simp_all add: session_of_def sample_session_def sample_user_def)
  ultimately show ?thesis
    using sample_token by (simp add: authenticate_def sample_cookie_def renew_def Let_def)
qed

lemma owner_role: "parse_role ''owner'' = (RoleOwner, None)"
  by code_simp

lemma owner_may_invite: "can \<lparr>caller_user = i, caller_role = RoleOwner\<rparr> ActionUserInvite"
  by (simp add: can_def rules_def rule_rows_def action_defs decide_def at_least_def role_defs)

lemma sample_invitations:
  "invitation_ids (as_pg (snd (api_handler (sample_app sample_invite) True 404 sample_draws
      (sample_post invite_path [(SessionCookieName, sample_cookie)]) (sample_state sample_owned []))))
    \<noteq> invitation_ids sample_owned"
proof -
  let ?app = "sample_app sample_invite" and ?s = "sample_state sample_owned []"
  let ?r = "(sample_post invite_path [(SessionCookieName, sample_cookie)])\<lparr>rq_id := hex_encode (dr_id sample_draws)\<rparr>"
  let ?who = "\<lparr>au_session_id = ''s1'', au_user_id = u_id sample_user, au_email = u_email sample_user,
    au_name = u_name sample_user, au_timezone = u_timezone sample_user, au_role = ''owner''\<rparr>"
  let ?q = "?r\<lparr>rq_caller := Some ?who\<rparr>"
  let ?tiers = "[\<lparr>tier_limit = 20, tier_window = hour\<rparr>, \<lparr>tier_limit = 100, tier_window = 24 * hour\<rparr>]"
  let ?key = "\<lambda>r. case rq_caller r of None \<Rightarrow> '''' | Some who \<Rightarrow> ''invite:'' @ au_user_id who"
  have guard: "good_tiers ?tiers" "\<forall>t \<in> set ?tiers. 0 < tier_limit t" "?key ?q \<noteq> []" "as_redis ?s = (sample_db, [])"
    by (simp_all add: good_tiers_def window_ms_def milliseconds_def duration_defs sample_state_def)
  from sample_limit_passes [where key = ?key, OF this, of FailOpen "create_invitation_handler ?app" sample_draws]
  obtain c where c: "mux ?app True 404 sample_draws ?r ?s
      = create_invitation_handler ?app sample_draws ?q (?s\<lparr>as_redis := c\<rparr>)"
    using sample_owner_authenticates
    by (auto simp: mux_def route_of_def serve_route_def invite_limit_def require_session_def sample_state_def
        sample_draws_def) (simp_all add: sample_app_def)
  have state: "deliveries sample_owned = []" "normalize_email Some ''budi@example.com'' = Inr ''budi@example.com''"
    "check_invitable ''contributor'' = None"
    "\<forall>u \<in> set (users_live sample_owned). pg_lower sample_owned (u_email u) \<noteq> pg_lower sample_owned ''budi@example.com''"
    "to_uuid sample_owned (u_id sample_user) = Some (u_id sample_user)" "u_id sample_user \<in> u_id ` set (users sample_owned)"
    "length (id (replicate 32 9 :: byte list)) = 32" "id (replicate 32 9) \<notin> in_token_hash ` set (invitations sample_owned)"
    "next_uuid sample_owned \<notin> in_id ` set (invitations sample_owned)"
    by (simp_all add: sample_texts sample_owned_def sample_signed_in_def sample_pg_def sample_user_def next_uuid_def
        users_live_def)
  obtain invited message d old i where
    "create_invited in_tx pg_tx_store id Some (\<lambda>x y. x @ y) (\<lambda>_. None :: string option) (Some (replicate 32 9)) 6
      (u_id sample_user) ''budi@example.com'' ''contributor'' sample_owned = ((Inr invited, message), d)"
    "invitations d = old @ [i]"
    by (rule create_invited_ok [where deliver = "\<lambda>_. None :: string option" and join_path = "\<lambda>x y. x @ y" and now = 6
        and sha = id and raw = "replicate 32 9" and parse_address = Some and email = "''budi@example.com''"
        and d = sample_owned and by_id = "u_id sample_user" and role = "''contributor''", OF state refl]) (rule that, assumption, simp)
  then have "invitations (as_pg (snd (create_invitation_handler ?app sample_draws ?q (?s\<lparr>as_redis := c\<rparr>)))) = old @ [i]"
    by (simp add: create_invitation_handler_def sample_app_def sample_invite_def sample_draws_def sample_state_def
        field_missing_def owner_role owner_may_invite Let_def)
  then show ?thesis
    unfolding sample_passes c by (simp add: invitation_ids_def sample_owned_def sample_signed_in_def sample_pg_def)
qed

lemma sample_owner_session:
  "session_behind (sample_app f) (sample_post path [(SessionCookieName, sample_cookie)]) 5 sample_owned
    (sample_session, sample_user\<lparr>u_role := ''owner''\<rparr>)"
  using sample_token
  by (simp add: session_behind_def sample_app_def sample_cookie_def live_sessions_def users_live_def sample_owned_def
      sample_signed_in_def sample_pg_def sample_session_def sample_user_def SessionIdleWindow_def duration_defs)

lemma invitations_only_by_owner_witness:
  "\<exists>row user. session_behind (sample_app sample_invite) (sample_post invite_path [(SessionCookieName, sample_cookie)])
      5 sample_owned (row, user) \<and> u_role user = ''owner''"
proof -
  have "invitation_ids (as_pg (snd (api_handler (sample_app sample_invite) True 404 sample_draws
      (sample_post invite_path [(SessionCookieName, sample_cookie)]) (sample_state sample_owned []))))
    \<noteq> invitation_ids (as_pg (sample_state sample_owned []))"
    using sample_invitations by (simp add: sample_state_def)
  from invitations_only_by_owner [OF prod.collapse [symmetric] this] show ?thesis
    by (simp add: sample_state_def sample_draws_def)
qed

end
