(* ===== verification/Mail.thy ===== *)
theory Mail
  imports Config Invitations
begin

text \<open>
  Messages: \<open>backend/internal/mail/mail.go\<close> and \<open>capture.go\<close>.  The parser and the printer of
  \<open>net/mail\<close> addresses and the quoted-printable writer are parameters; \<open>mime.QEncoding\<close> is written
  out.  \<open>date\<close> is the text of the present time and \<open>random\<close> the bytes \<open>crypto/rand\<close> gives.
\<close>

subsection \<open>Data\<close>

record mail_lib =
  ml_parse :: "string \<Rightarrow> mail_address option"
  ml_string :: "mail_address \<Rightarrow> string"
  ml_quoted_printable :: "string \<Rightarrow> string"

datatype render_error =
  ControlCharacter string nat
  | SenderNotAddress
  | SenderNoDomain
  | NoRecipient
  | RecipientNotAddress
  | EmptySubject
  | LongSubject
  | EmptyBody
  | NoRandom

definition maxSubjectBytes :: nat where "maxSubjectBytes = 200"

subsection \<open>Checks\<close>

definition is_control :: "char \<Rightarrow> bool" where
  "is_control c \<longleftrightarrow> (of_char c :: nat) < 0x20 \<or> c = CHR 0x7F"

text \<open>A control character is one byte in UTF-8, so the runes need not be decoded.\<close>

fun first_control :: "string \<Rightarrow> nat option" where
  "first_control [] = None"
| "first_control (c # cs) = (if is_control c then Some 0 else map_option Suc (first_control cs))"

definition no_control :: "string \<Rightarrow> string \<Rightarrow> render_error option" where
  "no_control field v = map_option (ControlCharacter field) (first_control v)"

definition split_address :: "string \<Rightarrow> (string \<times> string) option" where
  "split_address address =
     (case last_index_of CHR ''@'' address of
        None \<Rightarrow> None
      | Some i \<Rightarrow> if i = 0 \<or> i = length address - 1 then None else Some (take i address, drop (i + 1) address))"

definition sender_address :: "mail_lib \<Rightarrow> mail_address \<Rightarrow> render_error + mail_address" where
  "sender_address lib a =
     (case no_control ''sender name'' (fst a) of
        Some e \<Rightarrow> Inl e
      | None \<Rightarrow>
        (case no_control ''sender address'' (snd a) of
           Some e \<Rightarrow> Inl e
         | None \<Rightarrow>
           (case ml_parse lib (ml_string lib a) of
              None \<Rightarrow> Inl SenderNotAddress
            | Some parsed \<Rightarrow> if split_address (snd parsed) = None then Inl SenderNoDomain else Inr parsed)))"

definition recipient :: "mail_lib \<Rightarrow> string \<Rightarrow> render_error + mail_address" where
  "recipient lib raw =
     (if trim_space raw = '''' then Inl NoRecipient
      else case no_control ''recipient'' raw of
          Some e \<Rightarrow> Inl e
        | None \<Rightarrow> (case ml_parse lib raw of None \<Rightarrow> Inl RecipientNotAddress | Some parsed \<Rightarrow> Inr parsed))"

subsection \<open>The subject\<close>

definition printable :: "char \<Rightarrow> bool" where
  "printable c \<longleftrightarrow> CHR '' '' \<le> c \<and> c \<le> CHR ''~''"

definition needs_encoding :: "string \<Rightarrow> bool" where
  "needs_encoding s \<longleftrightarrow> list_ex (\<lambda>c. \<not> printable c \<and> c \<noteq> CHR 0x09) s"

definition q_special :: "char \<Rightarrow> bool" where
  "q_special c \<longleftrightarrow> c = CHR ''='' \<or> c = CHR ''?'' \<or> c = CHR ''_''"

definition upper_hex :: "nat \<Rightarrow> char" where
  "upper_hex n = ''0123456789ABCDEF'' ! n"

definition q_char :: "char \<Rightarrow> string" where
  "q_char c =
     (if c = CHR '' '' then ''_''
      else if printable c \<and> \<not> q_special c then [c]
      else [CHR ''='', upper_hex (of_char c div 16), upper_hex (of_char c mod 16)])"

definition open_word :: string where "open_word = ''=?utf-8?q?''"
definition close_word :: string where "close_word = ''?=''"
definition maxContentLen :: nat where "maxContentLen = 63"

text \<open>How many bytes are written together, and how long they get.\<close>

definition q_step :: "string \<Rightarrow> nat \<times> nat" where
  "q_step s =
     (if printable (hd s) \<and> \<not> q_special (hd s) then (1, 1) else (rune_width s, 3 * rune_width s))"

function q_words :: "nat \<Rightarrow> string \<Rightarrow> string" where
  "q_words current s =
     (if s = [] then []
      else let (n, len) = q_step s;
               full = current + len > maxContentLen
           in (if full then close_word @ '' '' @ open_word else []) @ concat (map q_char (take n s)) @
              q_words (if full then len else current + len) (drop n s))"
  by pat_completeness auto
termination by (relation "measure (\<lambda>(current, s). length s)") (auto simp: q_step_def split: if_splits)

declare q_words.simps [simp del]

definition q_encode :: "string \<Rightarrow> string" where
  "q_encode s = (if \<not> needs_encoding s then s else open_word @ q_words 0 s @ close_word)"

definition subject_header :: "string \<Rightarrow> render_error + string" where
  "subject_header subject =
     (if trim_space subject = '''' then Inl EmptySubject
      else if length subject > maxSubjectBytes then Inl LongSubject
      else case no_control ''subject'' subject of Some e \<Rightarrow> Inl e | None \<Rightarrow> Inr (q_encode subject))"

subsection \<open>The message\<close>

definition message_id :: "byte list option \<Rightarrow> string \<Rightarrow> render_error + string" where
  "message_id random sender =
     (case split_address sender of
        None \<Rightarrow> Inl SenderNoDomain
      | Some (_, domain) \<Rightarrow>
        (case random of
           None \<Rightarrow> Inl NoRandom
         | Some bs \<Rightarrow> Inr (''<'' @ hex_encode bs @ ''@'' @ domain @ ''>'')))"

definition crlf :: string where "crlf = [CHR 0x0D, CHR 0x0A]"

definition header :: "string \<Rightarrow> string \<Rightarrow> string" where
  "header name v = name @ '': '' @ v @ crlf"

definition render ::
  "mail_lib \<Rightarrow> byte list option \<Rightarrow> string \<Rightarrow> mail_address \<Rightarrow> mail_message \<Rightarrow> render_error + string" where
  "render lib random date from_addr m =
     (case sender_address lib from_addr of
        Inl e \<Rightarrow> Inl e
      | Inr sender \<Rightarrow>
        (case recipient lib (m_to m) of
           Inl e \<Rightarrow> Inl e
         | Inr rcpt \<Rightarrow>
           (case subject_header (m_subject m) of
              Inl e \<Rightarrow> Inl e
            | Inr subject \<Rightarrow>
              if m_text m = '''' then Inl EmptyBody
              else case message_id random (snd sender) of
                  Inl e \<Rightarrow> Inl e
                | Inr i \<Rightarrow> Inr (
                    header ''Date'' date @
                    header ''From'' (ml_string lib sender) @
                    header ''To'' (ml_string lib rcpt) @
                    header ''Subject'' subject @
                    header ''Message-ID'' i @
                    header ''MIME-Version'' ''1.0'' @
                    header ''Content-Type'' ''text/plain; charset=\"utf-8\"'' @
                    header ''Content-Transfer-Encoding'' ''quoted-printable'' @
                    header ''Auto-Submitted'' ''auto-generated'' @
                    crlf @ ml_quoted_printable lib (m_text m)))))"

subsection \<open>The capture of the tests (\<open>capture.go\<close>)\<close>

record 'e capture =
  cp_from :: mail_address
  cp_sent :: "(mail_message \<times> string) list"
  cp_err :: "'e option"

datatype 'e capture_error = Cancelled 'e | Refused 'e | NotRendered render_error

definition new_capture :: "mail_address \<Rightarrow> 'e capture" where
  "new_capture from_addr = \<lparr>cp_from = from_addr, cp_sent = [], cp_err = None\<rparr>"

definition capture_send ::
  "mail_lib \<Rightarrow> byte list option \<Rightarrow> string \<Rightarrow> 'e option \<Rightarrow> mail_message \<Rightarrow> 'e capture
    \<Rightarrow> 'e capture_error option \<times> 'e capture" where
  "capture_send lib random date ctx_err m c =
     (case ctx_err of
        Some e \<Rightarrow> (Some (Cancelled e), c)
      | None \<Rightarrow>
        (case cp_err c of
           Some e \<Rightarrow> (Some (Refused e), c)
         | None \<Rightarrow>
           (case render lib random date (cp_from c) m of
              Inl e \<Rightarrow> (Some (NotRendered e), c)
            | Inr raw \<Rightarrow> (None, c\<lparr>cp_sent := cp_sent c @ [(m, raw)]\<rparr>))))"

definition capture_fail :: "'e option \<Rightarrow> 'e capture \<Rightarrow> 'e capture" where
  "capture_fail e c = c\<lparr>cp_err := e\<rparr>"

definition capture_sent :: "'e capture \<Rightarrow> (mail_message \<times> string) list" where
  "capture_sent c = cp_sent c"

definition capture_last :: "'e capture \<Rightarrow> (mail_message \<times> string) option" where
  "capture_last c = (if cp_sent c = [] then None else Some (last (cp_sent c)))"

end
