(* ===== verification/Mail_Properties.thy ===== *)
theory Mail_Properties
  imports Mail
begin

text \<open>
  What a rendered message looks like to whoever reads it off the wire, and how long its subject gets.
\<close>

subsection \<open>Values that stay on one line\<close>

definition one_line :: "string \<Rightarrow> bool" where
  "one_line v \<longleftrightarrow> CHR 0x0D \<notin> set v \<and> CHR 0x0A \<notin> set v"

lemma one_line_append [simp]: "one_line (u @ v) \<longleftrightarrow> one_line u \<and> one_line v"
  by (auto simp: one_line_def)

lemma one_line_Nil [simp]: "one_line []"
  by (simp add: one_line_def)

lemma one_line_Cons [simp]: "one_line (c # v) \<longleftrightarrow> c \<noteq> CHR 0x0D \<and> c \<noteq> CHR 0x0A \<and> one_line v"
  by (auto simp: one_line_def)

lemma one_line_subset: "set u \<subseteq> set v \<Longrightarrow> one_line v \<Longrightarrow> one_line u"
  by (auto simp: one_line_def)

lemma no_control_None: "no_control field v = None \<longleftrightarrow> list_all (\<lambda>c. \<not> is_control c) v"
  by (induction v) (auto simp: no_control_def)

lemma no_control_one_line: "list_all (\<lambda>c. \<not> is_control c) v \<Longrightarrow> one_line v"
  by (induction v) (auto simp: is_control_def)

lemma hex_one_line: "one_line (hex_encode bs)"
proof -
  have "\<forall>n < 16. one_line [hex_digit n]" by code_simp
  moreover have "unat b div 16 < 16" for b :: "8 word" using byte_bound [of b] by auto
  ultimately show ?thesis by (induction bs) (simp_all add: hex_encode_def del: one_line_Cons, simp)
qed

text \<open>An encoded subject consists of printable characters.\<close>

lemma upper_hex_printable: "n < 16 \<Longrightarrow> printable (upper_hex n) \<and> upper_hex n \<noteq> CHR '' ''"
proof -
  have "\<forall>n < 16. printable (upper_hex n) \<and> upper_hex n \<noteq> CHR '' ''" by code_simp
  then show "n < 16 \<Longrightarrow> ?thesis" by blast
qed

lemma char_halves: "(of_char c :: nat) div 16 < 16" "(of_char c :: nat) mod 16 < 16"
proof -
  show "(of_char c :: nat) div 16 < 16" by (rule less_mult_imp_div_less) simp
qed simp

lemma q_char_printable: "list_all (\<lambda>c. printable c \<and> c \<noteq> CHR '' '') (q_char c)"
  using upper_hex_printable [OF char_halves(1)] upper_hex_printable [OF char_halves(2)]
  by (auto simp: q_char_def q_special_def printable_def less_eq_char_def)

lemma q_words_Nil [simp]: "q_words current [] = []"
  by (simp add: q_words.simps)

lemma q_words_printable: "list_all printable (q_words current s)"
proof (induction current s rule: q_words.induct)
  case (1 current s)
  have mark: "list_all printable (close_word @ '' '' @ open_word)" by code_simp
  have "list_all printable (concat (map q_char xs))" for xs
    using q_char_printable by (induction xs) (auto simp: list_all_iff)
  with 1 mark show ?case
    by (cases "s = []") (simp_all add: q_words.simps [of current s] Let_def split: prod.split)
qed

lemma printable_one_line: "list_all printable v \<Longrightarrow> one_line v"
  by (induction v) (auto simp: printable_def less_eq_char_def)

lemma q_encode_one_line:
  assumes "list_all (\<lambda>c. \<not> is_control c) s"
  shows "one_line (q_encode s)"
  using no_control_one_line [OF assms] printable_one_line [OF q_words_printable [of 0 s]]
  by (simp add: q_encode_def open_word_def close_word_def)

subsection \<open>Reading the message\<close>

text \<open>The lines up to the empty one, and what comes after it.\<close>

fun take_line :: "string \<Rightarrow> (string \<times> string) option" where
  "take_line (c # d # rest) =
     (if c = CHR 0x0D \<and> d = CHR 0x0A then Some ([], rest)
      else map_option (\<lambda>(l, r). (c # l, r)) (take_line (d # rest)))"
| "take_line _ = None"

lemma take_line_shorter: "take_line s = Some (l, r) \<Longrightarrow> length r < length s"
  by (induction s arbitrary: l r rule: take_line.induct) (auto split: if_splits)

function read_headers :: "string \<Rightarrow> string list \<times> string" where
  "read_headers raw =
     (case take_line raw of
        None \<Rightarrow> ([], raw)
      | Some (l, rest) \<Rightarrow> if l = [] then ([], rest) else (let (ls, body) = read_headers rest in (l # ls, body)))"
  by pat_completeness auto
termination by (relation "measure length") (auto dest: take_line_shorter)

declare read_headers.simps [simp del]

lemma take_line_crlf: "one_line l \<Longrightarrow> take_line (l @ crlf @ rest) = Some (l, rest)"
proof (induction l)
  case Nil
  then show ?case by (simp add: crlf_def)
next
  case (Cons c l)
  then have "take_line (l @ crlf @ rest) = Some (l, rest)" "c \<noteq> CHR 0x0D" by simp_all
  then show ?case by (cases "l @ crlf @ rest") (auto simp: crlf_def)
qed

lemma read_header:
  assumes "one_line v" "one_line name"
  shows "read_headers (header name v @ rest) =
    (let (ls, body) = read_headers rest in ((name @ '': '' @ v) # ls, body))"
  using take_line_crlf [of "name @ '': '' @ v" rest] assms
  by (simp add: read_headers.simps [of "name @ CHR '':'' # CHR '' '' # v @ crlf @ rest"] header_def)

lemma read_body: "read_headers (crlf @ body) = ([], body)"
  using take_line_crlf [of "[]" body] by (simp add: read_headers.simps [of "crlf @ body"])

subsection \<open>No header but the nine\<close>

text \<open>
  What \<open>net/mail\<close> documents: an address that was parsed is one addr-spec, and printing it gives a value
  of a header, names encoded where need be.
\<close>

definition mail_lib_documented :: "mail_lib \<Rightarrow> bool" where
  "mail_lib_documented lib \<longleftrightarrow>
     (\<forall>raw a. ml_parse lib raw = Some a \<longrightarrow> one_line (snd a) \<and> one_line (ml_string lib a))"

lemma split_address_parts:
  "split_address address = Some (l, d) \<Longrightarrow> set d \<subseteq> set address"
  by (auto simp: split_address_def split: option.splits if_splits dest: in_set_dropD)

lemma message_id_one_line:
  assumes "message_id random sender = Inr i" "one_line sender"
  shows "one_line i"
  using assms one_line_subset [OF split_address_parts] hex_one_line
  by (auto simp: message_id_def split: option.splits)

lemma render_Inr:
  assumes "render lib random date from_addr m = Inr raw"
  obtains sender rcpt i where "ml_parse lib (ml_string lib from_addr) = Some sender" "ml_parse lib (m_to m) = Some rcpt"
    "message_id random (snd sender) = Inr i" "list_all (\<lambda>c. \<not> is_control c) (m_to m)"
    "list_all (\<lambda>c. \<not> is_control c) (m_subject m)" "length (m_subject m) \<le> maxSubjectBytes"
    "subject_header (m_subject m) = Inr (q_encode (m_subject m))"
    "raw = header ''Date'' date @ header ''From'' (ml_string lib sender) @ header ''To'' (ml_string lib rcpt) @
      header ''Subject'' (q_encode (m_subject m)) @ header ''Message-ID'' i @ header ''MIME-Version'' ''1.0'' @
      header ''Content-Type'' ''text/plain; charset=\"utf-8\"'' @
      header ''Content-Transfer-Encoding'' ''quoted-printable'' @ header ''Auto-Submitted'' ''auto-generated'' @
      crlf @ ml_quoted_printable lib (m_text m)"
  using assms
  by (auto simp: render_def sender_address_def recipient_def subject_header_def no_control_None
      split: sum.splits option.splits if_splits)

text \<open>
  C34: nothing gets into the headers.  Whatever the sender, the recipient and the subject, the address of
  the recipient and the subject of a message that is rendered hold no control character, and whoever
  reads the rendered message up to its first empty line finds the nine headers \<open>Render\<close> writes, each
  once, with the values it was given, and after it the encoded text: no value can add a line, be it a
  second recipient or another sender.
\<close>
theorem nothing_injected:
  assumes "mail_lib_documented lib" "one_line date" "render lib random date from_addr m = Inr raw"
  shows "list_all (\<lambda>c. \<not> is_control c) (m_to m) \<and> list_all (\<lambda>c. \<not> is_control c) (m_subject m)
    \<and> (\<exists>sender rcpt i. ml_parse lib (ml_string lib from_addr) = Some sender \<and> ml_parse lib (m_to m) = Some rcpt
      \<and> message_id random (snd sender) = Inr i
      \<and> read_headers raw =
          ([''Date: '' @ date, ''From: '' @ ml_string lib sender, ''To: '' @ ml_string lib rcpt,
            ''Subject: '' @ q_encode (m_subject m), ''Message-ID: '' @ i, ''MIME-Version: 1.0'',
            ''Content-Type: text/plain; charset=\"utf-8\"'', ''Content-Transfer-Encoding: quoted-printable'',
            ''Auto-Submitted: auto-generated''],
           ml_quoted_printable lib (m_text m)))"
proof -
  obtain sender rcpt i where r: "ml_parse lib (ml_string lib from_addr) = Some sender" "ml_parse lib (m_to m) = Some rcpt"
    "message_id random (snd sender) = Inr i" "list_all (\<lambda>c. \<not> is_control c) (m_to m)"
    "list_all (\<lambda>c. \<not> is_control c) (m_subject m)"
    and raw: "raw = header ''Date'' date @ header ''From'' (ml_string lib sender) @ header ''To'' (ml_string lib rcpt) @
      header ''Subject'' (q_encode (m_subject m)) @ header ''Message-ID'' i @ header ''MIME-Version'' ''1.0'' @
      header ''Content-Type'' ''text/plain; charset=\"utf-8\"'' @
      header ''Content-Transfer-Encoding'' ''quoted-printable'' @ header ''Auto-Submitted'' ''auto-generated'' @
      crlf @ ml_quoted_printable lib (m_text m)"
    by (rule render_Inr [OF assms(3)])
  have lines: "one_line (snd sender)" "one_line (ml_string lib sender)" "one_line (ml_string lib rcpt)"
    using assms(1) r(1,2) unfolding mail_lib_documented_def by blast+
  have "read_headers raw =
      ([''Date: '' @ date, ''From: '' @ ml_string lib sender, ''To: '' @ ml_string lib rcpt,
        ''Subject: '' @ q_encode (m_subject m), ''Message-ID: '' @ i, ''MIME-Version: 1.0'',
        ''Content-Type: text/plain; charset=\"utf-8\"'', ''Content-Transfer-Encoding: quoted-printable'',
        ''Auto-Submitted: auto-generated''],
       ml_quoted_printable lib (m_text m))"
    unfolding raw
    by (simp add: read_header read_body assms(2) lines q_encode_one_line [OF r(5)] message_id_one_line [OF r(3) lines(1)])
  with r show ?thesis by blast
qed

subsection \<open>The length of the subject\<close>

lemma rune_width_bounds: "rune_width s \<le> 4" "s \<noteq> [] \<Longrightarrow> rune_width s \<le> length s"
  by (induction s rule: rune_width.induct) auto

lemma length_q_char: "length (q_char c) \<le> 3" "printable c \<Longrightarrow> \<not> q_special c \<Longrightarrow> length (q_char c) = 1"
  by (simp_all add: q_char_def)

lemma length_q_chars: "length (concat (map q_char xs)) \<le> 3 * length xs"
proof (induction xs)
  case (Cons c xs)
  then show ?case using length_q_char(1) [of c] by simp
qed simp

text \<open>What is written together is as long as was counted.\<close>

lemma q_step_length:
  assumes "s \<noteq> []" "q_step s = (n, len)"
  shows "0 < n" "n \<le> length s" "len \<le> 3 * n" "len \<le> 12" "length (concat (map q_char (take n s))) \<le> len"
proof -
  obtain c cs where s: "s = c # cs" using assms(1) by (cases s) auto
  show "0 < n" "n \<le> length s" "len \<le> 3 * n" "len \<le> 12"
    using assms rune_width_bounds [of s] by (auto simp: q_step_def Suc_le_eq split: if_splits)
  show "length (concat (map q_char (take n s))) \<le> len"
  proof (cases "printable c \<and> \<not> q_special c")
    case True
    then have "n = 1" "len = 1" using assms(2) by (simp_all add: q_step_def s)
    then show ?thesis using length_q_char(2) [of c] True by (simp add: s)
  next
    case False
    then have "n = rune_width s" "len = 3 * rune_width s" using assms(2) by (auto simp: q_step_def s)
    then show ?thesis using length_q_chars [of "take n s"] by (auto intro: order_trans)
  qed
qed

text \<open>A word is closed only when it holds more than 51 characters, which pays for closing it.\<close>

lemma length_q_words: "52 * length (q_words current s) \<le> 195 * length s + 13 * current"
proof (induction current s rule: q_words.induct)
  case (1 current s)
  show ?case
  proof (cases "s = []")
    case False
    obtain n len where step: "q_step s = (n, len)" by fastforce
    note q = q_step_length [OF False step]
    have mark: "length (close_word @ '' '' @ open_word) = 13" by code_simp
    show ?thesis
      using 1 [OF False step [symmetric] refl refl] q mark False step
      by (subst q_words.simps) (auto simp: Let_def maxContentLen_def algebra_simps)
  qed (simp add: q_words.simps)
qed

text \<open>
  The subject fits its line.  Whatever the subject, in whatever alphabet, the line of the header it is
  rendered to stays below the 998 bytes RFC 5322 allows, the end of the line included.
\<close>
theorem subject_line_bounded:
  assumes "subject_header subject = Inr v"
  shows "length (header ''Subject'' v) \<le> 998"
proof -
  have v: "v = q_encode subject" "length subject \<le> 200"
    using assms by (auto simp: subject_header_def maxSubjectBytes_def split: option.splits if_splits)
  have "length (q_encode subject) \<le> 762"
    using length_q_words [of 0 subject] v(2)
    by (auto simp: q_encode_def open_word_def close_word_def)
  then show ?thesis by (simp add: v(1) header_def crlf_def)
qed

text \<open>A library that takes any one line for an address, and a message.\<close>

definition sample_mail_lib :: mail_lib where
  "sample_mail_lib = \<lparr>ml_parse = (\<lambda>s. if one_line s then Some ([], s) else None), ml_string = snd,
     ml_quoted_printable = id\<rparr>"

definition sample_message :: mail_message where
  "sample_message = \<lparr>m_to = ''budi@example.com'', m_subject = ''Reset=sandi?'' @ [CHR 0xC3, CHR 0xA9], m_text = ''Halo''\<rparr>"

lemma sample_mail_lib_documented: "mail_lib_documented sample_mail_lib"
  by (auto simp: mail_lib_documented_def sample_mail_lib_def split: if_splits)

lemma sample_subject: "subject_header (m_subject sample_message) = Inr (q_encode (m_subject sample_message))"
  by code_simp

lemma sample_rendered:
  "\<exists>raw. render sample_mail_lib (Some [1]) ''now'' ('''', ''pm@example.com'') sample_message = Inr raw"
proof -
  have "sender_address sample_mail_lib ('''', ''pm@example.com'') = Inr ('''', ''pm@example.com'')"
    "recipient sample_mail_lib (m_to sample_message) = Inr ('''', ''budi@example.com'')"
    "split_address ''pm@example.com'' = Some (''pm'', ''example.com'')"
    by code_simp+
  then show ?thesis by (simp add: render_def sample_subject message_id_def) (simp add: sample_message_def)
qed

lemma nothing_injected_witness:
  "\<exists>raw. render sample_mail_lib (Some [1]) ''now'' ('''', ''pm@example.com'') sample_message = Inr raw
    \<and> length (fst (read_headers raw)) = 9"
proof -
  obtain raw where raw: "render sample_mail_lib (Some [1]) ''now'' ('''', ''pm@example.com'') sample_message = Inr raw"
    using sample_rendered by blast
  have "one_line ''now''" by simp
  from nothing_injected [OF sample_mail_lib_documented this raw] have "length (fst (read_headers raw)) = 9" by auto
  with raw show ?thesis by blast
qed

lemma subject_line_bounded_witness: "length (header ''Subject'' (q_encode (m_subject sample_message))) \<le> 998"
  by (rule subject_line_bounded [OF sample_subject])

end
