(* ===== verification/Smtp.thy ===== *)
theory Smtp
  imports Mail_Properties
begin

text \<open>
  Delivering a message: \<open>backend/internal/mail/smtp.go\<close>, and the options \<open>cmd/api/main.go\<close> makes from
  the configuration.  The server is a function from the commands it has been sent to the error it
  answers the last of them with, if any; it decides at will, also on what went before.
\<close>

subsection \<open>The sender\<close>

record smtp_options =
  op_host :: string
  op_port :: int
  op_from :: mail_address
  op_username :: string
  op_password :: string
  op_allow_unencrypted :: bool

record smtp_sender =
  sd_host :: string
  sd_port :: int
  sd_from :: mail_address
  sd_auth :: "(string \<times> string) option"
  sd_allow_unencrypted :: bool

datatype options_error =
  NoHost
  | NotAPort int
  | BadSender render_error
  | PairApart
  | CredentialsInTheClear

definition new_smtp :: "mail_lib \<Rightarrow> smtp_options \<Rightarrow> options_error + smtp_sender" where
  "new_smtp lib opts =
     (if op_host opts = '''' then Inl NoHost
      else if op_port opts \<le> 0 \<or> op_port opts > 65535 then Inl (NotAPort (op_port opts))
      else case sender_address lib (op_from opts) of
          Inl e \<Rightarrow> Inl (BadSender e)
        | Inr _ \<Rightarrow>
          if (op_username opts = '''') \<noteq> (op_password opts = '''') then Inl PairApart
          else if op_username opts \<noteq> '''' \<and> op_allow_unencrypted opts then Inl CredentialsInTheClear
          else Inr \<lparr>sd_host = op_host opts, sd_port = op_port opts, sd_from = op_from opts,
            sd_auth = (if op_username opts \<noteq> '''' then Some (op_username opts, op_password opts) else None),
            sd_allow_unencrypted = op_allow_unencrypted opts\<rparr>)"

definition smtp_options_of :: "config \<Rightarrow> smtp_options" where
  "smtp_options_of c =
     \<lparr>op_host = sc_host (cf_smtp c), op_port = sc_port (cf_smtp c), op_from = sc_from (cf_smtp c),
      op_username = sc_username (cf_smtp c), op_password = sc_password (cf_smtp c),
      op_allow_unencrypted = (cf_env c = EnvLocal)\<rparr>"

subsection \<open>The conversation\<close>

datatype smtp_command =
  Greet string
  | StartTLS string
  | Auth string string
  | MailFrom string
  | RcptTo string
  | Data
  | Body string
  | Finish
  | Quit

datatype 'e undelivered =
  Dial 'e
  | GreetFailed 'e
  | NoStartTLS
  | StartTLSFailed 'e
  | NotAuthenticated
  | SenderRefused 'e
  | RecipientRefused 'e
  | StartBody 'e
  | WriteBody 'e
  | FinishBody 'e
  | QuitFailed 'e
  | Ended 'e

type_synonym 'e server = "smtp_command list \<Rightarrow> 'e option"
type_synonym 'e step = "smtp_command list \<Rightarrow> 'e undelivered option \<times> smtp_command list"

text \<open>One command: the conversation ends with an error, or goes on.\<close>

definition ask :: "'e server \<Rightarrow> smtp_command \<Rightarrow> ('e \<Rightarrow> 'e undelivered) \<Rightarrow> 'e step \<Rightarrow> 'e step" where
  "ask server cmd failed continue sent =
     (case server (sent @ [cmd]) of
        Some e \<Rightarrow> (Some (failed e), sent @ [cmd])
      | None \<Rightarrow> continue (sent @ [cmd]))"

definition secure :: "'e server \<Rightarrow> bool \<Rightarrow> smtp_sender \<Rightarrow> 'e step \<Rightarrow> 'e step" where
  "secure server offers s continue sent =
     (if \<not> offers then (if sd_allow_unencrypted s then continue sent else (Some NoStartTLS, sent))
      else ask server (StartTLS (sd_host s)) StartTLSFailed continue sent)"

definition deliver ::
  "'e server \<Rightarrow> bool \<Rightarrow> smtp_sender \<Rightarrow> string \<Rightarrow> string \<Rightarrow> string \<Rightarrow> 'e step" where
  "deliver server offers s from_addr to_addr raw =
     ask server (Greet (sd_host s)) GreetFailed
       (secure server offers s
         ((case sd_auth s of
             None \<Rightarrow> (\<lambda>continue. continue)
           | Some (username, password) \<Rightarrow> ask server (Auth username password) (\<lambda>_. NotAuthenticated))
           (ask server (MailFrom from_addr) SenderRefused
             (ask server (RcptTo to_addr) RecipientRefused
               (ask server Data StartBody
                 (ask server (Body raw) WriteBody
                   (ask server Finish FinishBody
                     (ask server Quit QuitFailed (\<lambda>sent. (None, sent))))))))))"

datatype 'e send_error = NotSendable render_error | Undelivered "'e undelivered"

text \<open>\<open>dialed\<close> is the error of connecting, \<open>ended\<close> that of a context that is over by the time an error is reported.\<close>

definition send_mail ::
  "mail_lib \<Rightarrow> byte list option \<Rightarrow> string \<Rightarrow> 'e option \<Rightarrow> 'e option \<Rightarrow> 'e server \<Rightarrow> bool \<Rightarrow> smtp_sender \<Rightarrow> mail_message
    \<Rightarrow> 'e send_error option \<times> smtp_command list" where
  "send_mail lib random date dialed ended server offers s m =
     (case render lib random date (sd_from s) m of
        Inl e \<Rightarrow> (Some (NotSendable e), [])
      | Inr raw \<Rightarrow>
        (case recipient lib (m_to m) of
           Inl e \<Rightarrow> (Some (NotSendable e), [])
         | Inr rcpt \<Rightarrow>
           (case sender_address lib (sd_from s) of
              Inl e \<Rightarrow> (Some (NotSendable e), [])
            | Inr sender \<Rightarrow>
              (case dialed of
                 Some e \<Rightarrow> (Some (Undelivered (Dial e)), [])
               | None \<Rightarrow>
                 (case deliver server offers s (snd sender) (snd rcpt) raw [] of
                    (None, sent) \<Rightarrow> (None, sent)
                  | (Some e, sent) \<Rightarrow>
                    (Some (Undelivered (case ended of Some x \<Rightarrow> Ended x | None \<Rightarrow> e)), sent))))))"

subsection \<open>What the server has taken\<close>

text \<open>The message is the server's once it has accepted the end of the body.\<close>

definition taken :: "'e server \<Rightarrow> smtp_command list \<Rightarrow> bool" where
  "taken server sent \<longleftrightarrow> (\<exists>before after. sent = before @ Finish # after \<and> server (before @ [Finish]) = None)"

text \<open>What went over the wire before the connection was encrypted.\<close>

definition in_clear :: "smtp_command list \<Rightarrow> smtp_command list" where
  "in_clear sent = takeWhile (\<lambda>c. \<forall>host. c \<noteq> StartTLS host) sent"

subsection \<open>A conversation is a prefix of its script\<close>

type_synonym 'e script = "(smtp_command \<times> ('e \<Rightarrow> 'e undelivered)) list"

fun converse :: "'e server \<Rightarrow> 'e script \<Rightarrow> 'e step" where
  "converse server [] = (\<lambda>sent. (None, sent))"
| "converse server ((c, failed) # rest) = ask server c failed (converse server rest)"

definition script :: "bool \<Rightarrow> smtp_sender \<Rightarrow> string \<Rightarrow> string \<Rightarrow> string \<Rightarrow> 'e script" where
  "script offers s from_addr to_addr raw =
     (Greet (sd_host s), GreetFailed) # (if offers then [(StartTLS (sd_host s), StartTLSFailed)] else []) @
     (case sd_auth s of None \<Rightarrow> [] | Some (u, p) \<Rightarrow> [(Auth u p, \<lambda>_. NotAuthenticated)]) @
     [(MailFrom from_addr, SenderRefused), (RcptTo to_addr, RecipientRefused), (Data, StartBody), (Body raw, WriteBody),
      (Finish, FinishBody), (Quit, QuitFailed)]"

lemma secure_step:
  "secure server True s continue = ask server (StartTLS (sd_host s)) StartTLSFailed continue"
  "sd_allow_unencrypted s \<Longrightarrow> secure server False s continue = continue"
  by (rule ext, simp add: secure_def)+

lemma deliver_script:
  "offers \<or> sd_allow_unencrypted s \<Longrightarrow>
    deliver server offers s from_addr to_addr raw = converse server (script offers s from_addr to_addr raw)"
  by (cases offers) (simp_all add: deliver_def secure_step script_def split: option.split)

lemma deliver_refused:
  "\<not> offers \<Longrightarrow> \<not> sd_allow_unencrypted s \<Longrightarrow> deliver server offers s from_addr to_addr raw [] =
    (Some (case server [Greet (sd_host s)] of Some e \<Rightarrow> GreetFailed e | None \<Rightarrow> NoStartTLS), [Greet (sd_host s)])"
  by (simp add: deliver_def secure_def ask_def split: option.split)

lemma converse_cases:
  assumes "converse server cs sent = (r, sent')"
  obtains (all) "r = None" "sent' = sent @ map fst cs"
      "\<And>before x after. cs = before @ x # after \<Longrightarrow> server (sent @ map fst before @ [fst x]) = None"
  | (stopped) said c failed rest e where "cs = said @ (c, failed) # rest" "r = Some (failed e)"
      "sent' = sent @ map fst said @ [c]" "server sent' = Some e"
  using assms
proof (induction server cs arbitrary: sent thesis rule: converse.induct)
  case (1 server)
  then show ?case by simp
next
  case (2 server c failed rest)
  show ?case
  proof (cases "server (sent @ [c])")
    case (Some e)
    with 2(4) show ?thesis by (intro 2(3) [of "[]" c failed rest e]) (simp_all add: ask_def)
  next
    case None
    then have rest: "converse server rest (sent @ [c]) = (r, sent')" using 2(4) by (simp add: ask_def)
    show ?thesis
    proof (rule 2(1) [OF _ _ rest])
      assume r: "r = None" "sent' = (sent @ [c]) @ map fst rest"
        and ok: "\<And>before x after. rest = before @ x # after \<Longrightarrow> server ((sent @ [c]) @ map fst before @ [fst x]) = None"
      show ?thesis
      proof (rule 2(2))
        fix before x after assume "(c, failed) # rest = before @ x # after"
        then show "server (sent @ map fst before @ [fst x]) = None"
          using ok None by (cases before) auto
      qed (use r in simp_all)
    next
      fix said d f rest' e assume "rest = said @ (d, f) # rest'" "r = Some (f e)" "sent' = (sent @ [c]) @ map fst said @ [d]"
        "server sent' = Some e"
      then show ?thesis by (intro 2(3) [of "(c, failed) # said" d f rest' e]) simp_all
    qed
  qed
qed

lemma converse_sent:
  assumes "converse server cs [] = (r, sent)"
  shows "\<exists>n. sent = take n (map fst cs)"
  using assms
proof (cases rule: converse_cases)
  case all
  then show ?thesis by (intro exI [of _ "length cs"]) simp
next
  case (stopped said c failed rest e)
  then show ?thesis by (intro exI [of _ "Suc (length said)"]) simp
qed

text \<open>How a conversation ends that says \<open>Finish\<close> and \<open>Quit\<close> last.\<close>

lemma converse_taken:
  assumes "converse server (talk @ [(Finish, f), (Quit, q)]) [] = (x, sent)" "Finish \<notin> fst ` set talk"
  shows "(x = None \<longrightarrow> taken server sent) \<and>
    (taken server sent \<longrightarrow> x = None \<or> (\<exists>e. last sent = Quit \<and> server sent = Some e \<and> x = Some (q e)))"
  using assms(1)
proof (cases rule: converse_cases)
  case all
  then have "server (map fst talk @ [Finish]) = None" using all(3) [of talk "(Finish, f)"] by simp
  then have "taken server sent"
    unfolding taken_def using all(2) by (intro exI [of _ "map fst talk"] exI [of _ "[Quit]"]) simp
  with all(1) show ?thesis by simp
next
  case (stopped said c failed rest e)
  consider "(c, failed) \<in> set talk" "set said \<subseteq> set talk" | "said = talk" "c = Finish"
    | "said = talk @ [(Finish, f)]" "c = Quit" "failed = q"
    using stopped(1) by (auto simp: append_eq_append_conv2 append_eq_Cons_conv Cons_eq_append_conv) blast
  then show ?thesis
  proof cases
    case 1
    then have "Finish \<notin> set sent" using stopped(3) assms(2) by (auto simp: image_iff)
    then have "\<not> taken server sent" by (auto simp: taken_def)
    then show ?thesis using stopped(2) by simp
  next
    case 2
    have "\<not> taken server sent"
    proof
      assume "taken server sent"
      then obtain before after where t: "map fst talk @ [Finish] = before @ Finish # after" "server (before @ [Finish]) = None"
        using stopped(3) 2 by (auto simp: taken_def)
      have "before = map fst talk" using t(1) assms(2) append_Cons_eq_iff [of Finish "map fst talk" "[]" before after] by simp
      with t(2) stopped(3,4) 2 show False by simp
    qed
    then show ?thesis using stopped(2) by simp
  next
    case 3
    then show ?thesis using stopped by simp
  qed
qed

lemma send_mail_cases:
  assumes "send_mail lib random date dialed ended server offers s m = (r, sent)"
  obtains (unsent) "sent = []" "r \<noteq> None"
  | (conversed) from_addr to_addr raw x where "deliver server offers s from_addr to_addr raw [] = (x, sent)"
      "r = map_option (\<lambda>e. Undelivered (case ended of Some c \<Rightarrow> Ended c | None \<Rightarrow> e)) x"
  using assms by (auto simp: send_mail_def split: sum.splits option.splits prod.splits)

subsection \<open>Properties\<close>

lemma in_clear_secured: "in_clear (Greet h # StartTLS h' # cs) = [Greet h]"
  by (simp add: in_clear_def)

lemma in_clear_take:
  "in_clear (take n (Greet h # StartTLS h' # cs)) \<in> {[], [Greet h]}"
  by (cases n; cases "n - 1") (auto simp: in_clear_def take_Cons')

text \<open>
  C35: nothing but the greeting is ever in the clear.  With the sender the application builds from a
  configuration it loaded for production, whatever the server answers and wherever the conversation
  stops, neither credentials nor addresses nor a message are sent before the connection is encrypted;
  and in no environment are credentials.
\<close>
theorem nothing_in_the_clear:
  assumes "load P lookup = Inr c" "new_smtp lib (smtp_options_of c) = Inr s"
    and "send_mail lib random date dialed ended server offers s m = (r, sent)"
  shows "(cf_env c = EnvProduction \<longrightarrow> set (in_clear sent) \<subseteq> {Greet (sd_host s)})
    \<and> (\<forall>username password. Auth username password \<notin> set (in_clear sent))"
proof -
  have s: "sd_allow_unencrypted s = (cf_env c = EnvLocal)" "sd_allow_unencrypted s \<Longrightarrow> sd_auth s = None"
    using assms(2) by (auto simp: new_smtp_def smtp_options_of_def split: if_splits sum.splits)
  show ?thesis
    using assms(3)
  proof (cases rule: send_mail_cases)
    case unsent
    then show ?thesis by (simp add: in_clear_def)
  next
    case (conversed from_addr to_addr raw x)
    show ?thesis
    proof (cases "offers \<or> sd_allow_unencrypted s")
      case True
      have "converse server (script offers s from_addr to_addr raw) [] = (x, sent)"
        using conversed(1) by (simp add: deliver_script [OF True])
      from converse_sent [OF this] obtain n where
        n: "sent = take n (map fst (script offers s from_addr to_addr raw :: 'a script))" by blast
      show ?thesis
      proof (cases offers)
        case True
        then obtain cs where "sent = take n (Greet (sd_host s) # StartTLS (sd_host s) # cs)"
          by (simp add: n script_def)
        then have "in_clear sent = [] \<or> in_clear sent = [Greet (sd_host s)]" using in_clear_take by auto
        then show ?thesis by auto
      next
        case False
        with \<open>offers \<or> sd_allow_unencrypted s\<close> have local: "cf_env c = EnvLocal" "sd_auth s = None" using s by auto
        have "set (in_clear sent) \<subseteq> set sent" by (auto simp: in_clear_def dest: set_takeWhileD)
        also have "set sent \<subseteq> set (map fst (script False s from_addr to_addr raw :: 'a script))"
          unfolding n using False by (simp add: set_take_subset del: set_map)
        finally have "set (in_clear sent) \<subseteq> set (map fst (script False s from_addr to_addr raw :: 'a script))" .
        with local show ?thesis by (auto simp: script_def)
      qed
    next
      case False
      then have "sent = [Greet (sd_host s)]" using deliver_refused [of offers s server] conversed(1) by simp
      then show ?thesis by (simp add: in_clear_def)
    qed
  qed
qed


subsection \<open>A delivery in which the properties are used\<close>

text \<open>A server that takes the message and then hangs up.\<close>

definition sample_server :: "string server" where
  "sample_server sent = (if last sent = Quit then Some ''closed'' else None)"

definition sample_sender :: smtp_sender where
  "sample_sender = \<lparr>sd_host = ''mail'', sd_port = 587, sd_from = ([], ''pm@pm''), sd_auth = Some (''pm'', ''hunter2''),
     sd_allow_unencrypted = False\<rparr>"

lemma sample_sent:
  "\<exists>raw. send_mail sample_mail_lib (Some [1]) ''now'' None None sample_server True sample_sender sample_message =
    (Some (Undelivered (QuitFailed ''closed'')),
     [Greet ''mail'', StartTLS ''mail'', Auth ''pm'' ''hunter2'', MailFrom ''pm@pm'', RcptTo ''budi@example.com'', Data,
      Body raw, Finish, Quit])"
proof -
  have ok: "sender_address sample_mail_lib ([], ''pm@pm'') = Inr ([], ''pm@pm'')"
    "recipient sample_mail_lib (m_to sample_message) = Inr ([], ''budi@example.com'')"
    "split_address ''pm@pm'' = Some (''pm'', ''pm'')"
    by code_simp+
  have "message_id (Some [1]) ''pm@pm'' = Inr (''<'' @ hex_encode [1] @ ''@pm>'')" "m_text sample_message = ''Halo''"
    by (simp_all add: message_id_def ok(3) sample_message_def)
  with ok obtain raw where "render sample_mail_lib (Some [1]) ''now'' ([], ''pm@pm'') sample_message = Inr raw"
    by (simp add: render_def sample_subject)
  then show ?thesis
    by (simp add: send_mail_def sample_sender_def ok deliver_script script_def ask_def sample_server_def)
qed

lemma nothing_in_the_clear_witness:
  "\<exists>r sent. send_mail sample_mail_lib (Some [1]) ''now'' None None sample_server True sample_sender sample_message
      = (r, sent) \<and> set (in_clear sent) \<subseteq> {Greet ''mail''}"
proof -
  obtain c where c: "load sample_parsers sample_environment = Inr c" "cf_env c = EnvProduction"
    "cf_smtp c = \<lparr>sc_host = ''mail'', sc_port = 587, sc_from = ([], ''pm@pm''), sc_username = ''pm'', sc_password = ''hunter2''\<rparr>"
    using sample_loads by (cases "load sample_parsers sample_environment") simp_all
  have "sender_address sample_mail_lib ([], ''pm@pm'') = Inr ([], ''pm@pm'')" by code_simp
  then have "new_smtp sample_mail_lib (smtp_options_of c) = Inr sample_sender"
    by (simp add: new_smtp_def smtp_options_of_def c sample_sender_def)
  from nothing_in_the_clear [OF c(1) this prod.collapse [symmetric]] c(2) show ?thesis
    by (metis prod.collapse sample_sender_def smtp_sender.select_convs(1))
qed


end
