(* ===== verification/Server.thy ===== *)
theory Server
  imports GoTime
begin

text \<open>
  Starting, draining and stopping the HTTP server: \<open>backend/internal/httpx/server.go\<close>.

  \<open>Serve\<close> is two threads: the goroutine that sits in \<open>srv.Serve\<close> and reports how that ended through a
  channel, and the caller, which waits for the report or for the cancellation, then shuts the server
  down.  The rest of the world cancels, and starts and finishes requests.  Of \<open>net/http.Server\<close>: after
  \<open>Shutdown\<close> no request starts and \<open>Serve\<close> ends with \<open>ErrServerClosed\<close>; \<open>Shutdown\<close> reports no error only
  once no request is in flight, and an error when its time is up; \<open>Serve\<close> may fail at any time before.
\<close>

subsection \<open>The server\<close>

record timeouts =
  to_read :: duration
  to_write :: duration
  to_idle :: duration

record http_server =
  hs_read_header_timeout :: duration
  hs_read_timeout :: duration
  hs_write_timeout :: duration
  hs_idle_timeout :: duration

definition new_server :: "timeouts \<Rightarrow> http_server" where
  "new_server t =
     \<lparr>hs_read_header_timeout = to_read t, hs_read_timeout = to_read t, hs_write_timeout = to_write t,
      hs_idle_timeout = to_idle t\<rparr>"

subsection \<open>The steps of \<open>Serve\<close>\<close>

datatype 'e serve_error = ServeFailed 'e | ShutdownFailed 'e

text \<open>
  The goroutine: inside \<open>srv.Serve\<close>, at the send of its report, and gone.  The caller: at the
  \<open>select\<close>, inside \<open>srv.Shutdown\<close>, at the last receive, and back with its result.
\<close>

datatype 'e goroutine = Serving | Sending "'e serve_error option" | Gone "'e serve_error option"

datatype 'e serve_pc = Selecting | ShuttingDown | Receiving | Back "'e serve_error option"

record 'e serve_state =
  sv_goroutine :: "'e goroutine"
  sv_channel :: "'e serve_error option list"
  sv_caller :: "'e serve_pc"
  sv_cancelled :: bool
  sv_closed :: bool
  sv_in_flight :: nat

definition serve_channel_size :: nat where "serve_channel_size = 1"

inductive serve_step :: "'e serve_state \<Rightarrow> 'e serve_state \<Rightarrow> bool" where
  serve_fails: "sv_goroutine s = Serving \<Longrightarrow> \<not> sv_closed s \<Longrightarrow>
    serve_step s (s\<lparr>sv_goroutine := Sending (Some (ServeFailed e))\<rparr>)"
| serve_closed: "sv_goroutine s = Serving \<Longrightarrow> sv_closed s \<Longrightarrow> serve_step s (s\<lparr>sv_goroutine := Sending None\<rparr>)"
| sends_report: "sv_goroutine s = Sending r \<Longrightarrow> length (sv_channel s) < serve_channel_size \<Longrightarrow>
    serve_step s (s\<lparr>sv_goroutine := Gone r, sv_channel := sv_channel s @ [r]\<rparr>)"
| told: "sv_caller s = Selecting \<Longrightarrow> sv_channel s = r # rs \<Longrightarrow>
    serve_step s (s\<lparr>sv_caller := Back r, sv_channel := rs\<rparr>)"
| asked: "sv_caller s = Selecting \<Longrightarrow> sv_cancelled s \<Longrightarrow>
    serve_step s (s\<lparr>sv_caller := ShuttingDown, sv_closed := True\<rparr>)"
| drained: "sv_caller s = ShuttingDown \<Longrightarrow> sv_in_flight s = 0 \<Longrightarrow> serve_step s (s\<lparr>sv_caller := Receiving\<rparr>)"
| out_of_time: "sv_caller s = ShuttingDown \<Longrightarrow> serve_step s (s\<lparr>sv_caller := Back (Some (ShutdownFailed e))\<rparr>)"
| receives: "sv_caller s = Receiving \<Longrightarrow> sv_channel s = r # rs \<Longrightarrow>
    serve_step s (s\<lparr>sv_caller := Back r, sv_channel := rs\<rparr>)"

inductive world_step :: "'e serve_state \<Rightarrow> 'e serve_state \<Rightarrow> bool" where
  cancels: "world_step s (s\<lparr>sv_cancelled := True\<rparr>)"
| request_starts: "sv_goroutine s = Serving \<Longrightarrow> \<not> sv_closed s \<Longrightarrow>
    world_step s (s\<lparr>sv_in_flight := Suc (sv_in_flight s)\<rparr>)"
| request_ends: "sv_in_flight s = Suc n \<Longrightarrow> world_step s (s\<lparr>sv_in_flight := n\<rparr>)"

definition serve_start :: "'e serve_state" where
  "serve_start = \<lparr>sv_goroutine = Serving, sv_channel = [], sv_caller = Selecting, sv_cancelled = False,
     sv_closed = False, sv_in_flight = 0\<rparr>"

inductive serve_reaches :: "'e serve_state \<Rightarrow> bool" where
  starts: "serve_reaches serve_start"
| program: "serve_reaches s \<Longrightarrow> serve_step s t \<Longrightarrow> serve_reaches t"
| world: "serve_reaches s \<Longrightarrow> world_step s t \<Longrightarrow> serve_reaches t"

subsection \<open>What always holds\<close>

text \<open>
  The report of the goroutine and where it is: not made, about to be sent, in the channel, or received.
  A report without an error and the end of the shutdown both come after the server was closed.
\<close>

fun report :: "'e goroutine \<Rightarrow> 'e serve_error option option" where
  "report Serving = None" | "report (Sending r) = Some r" | "report (Gone r) = Some r"

definition serve_inv :: "'e serve_state \<Rightarrow> bool" where
  "serve_inv s \<longleftrightarrow>
     (sv_caller s = Selecting \<longrightarrow> \<not> sv_closed s) \<and>
     (sv_caller s = ShuttingDown \<longrightarrow> sv_closed s) \<and>
     (sv_closed s \<longrightarrow> sv_cancelled s) \<and>
     (report (sv_goroutine s) = Some None \<longrightarrow> sv_closed s) \<and>
     (\<forall>e. report (sv_goroutine s) \<noteq> Some (Some (ShutdownFailed e))) \<and>
     (case sv_goroutine s of
        Gone r \<Rightarrow> (case sv_caller s of
            Back r' \<Rightarrow> r' = r \<and> sv_channel s = [] \<or> (\<exists>e. r' = Some (ShutdownFailed e)) \<and> sv_channel s = [r]
          | _ \<Rightarrow> sv_channel s = [r])
      | _ \<Rightarrow> sv_channel s = [] \<and> (\<forall>r. sv_caller s = Back r \<longrightarrow> (\<exists>e. r = Some (ShutdownFailed e)))) \<and>
     (sv_caller s = Receiving \<or> sv_caller s = Back None \<longrightarrow> sv_closed s \<and> sv_in_flight s = 0)"

lemma serve_inv_step: "serve_step s t \<Longrightarrow> serve_inv s \<Longrightarrow> serve_inv t"
  by (induction rule: serve_step.induct)
    (auto simp: serve_inv_def serve_channel_size_def split: goroutine.splits serve_pc.splits)

lemma serve_inv_world: "world_step s t \<Longrightarrow> serve_inv s \<Longrightarrow> serve_inv t"
  by (induction rule: world_step.induct) (auto simp: serve_inv_def split: goroutine.splits serve_pc.splits)

lemma serve_inv: "serve_reaches s \<Longrightarrow> serve_inv s"
proof (induction rule: serve_reaches.induct)
  case starts
  show ?case by (simp add: serve_inv_def serve_start_def)
qed (blast intro: serve_inv_step serve_inv_world)+


text \<open>
  How much each of the two has left to do.
\<close>

fun goroutine_left :: "'e goroutine \<Rightarrow> nat" where
  "goroutine_left Serving = 2" | "goroutine_left (Sending r) = 1" | "goroutine_left (Gone r) = 0"

fun caller_left :: "'e serve_pc \<Rightarrow> nat" where
  "caller_left Selecting = 3" | "caller_left ShuttingDown = 2" | "caller_left Receiving = 1" | "caller_left (Back r) = 0"

definition steps_left :: "'e serve_state \<Rightarrow> nat" where
  "steps_left s = goroutine_left (sv_goroutine s) + caller_left (sv_caller s)"

lemma steps_left_program: "serve_step s t \<Longrightarrow> steps_left t < steps_left s"
  by (induction rule: serve_step.induct) (simp_all add: steps_left_def)

lemma steps_left_world: "world_step s t \<Longrightarrow> steps_left t = steps_left s \<and> (sv_cancelled s \<longrightarrow> sv_cancelled t)"
  by (induction rule: world_step.induct) (simp_all add: steps_left_def)

lemma steps_left_bound: "steps_left s \<le> 5"
  by (cases "sv_goroutine s"; cases "sv_caller s") (simp_all add: steps_left_def)

lemma serve_goes_on:
  assumes inv: "serve_inv s" and "sv_cancelled s" and "\<And>r. sv_caller s \<noteq> Back r"
  shows "\<exists>t. serve_step s t"
proof (cases "sv_caller s")
  case Selecting
  then show ?thesis using assms(2) by (blast intro: serve_step.asked)
next
  case ShuttingDown
  then show ?thesis by (blast intro: serve_step.out_of_time)
next
  case Receiving
  with inv have closed: "sv_closed s" by (simp add: serve_inv_def)
  show ?thesis
  proof (cases "sv_goroutine s")
    case Serving
    then show ?thesis using closed by (blast intro: serve_step.serve_closed)
  next
    case (Sending r)
    then have "length (sv_channel s) < serve_channel_size" using inv by (simp add: serve_inv_def serve_channel_size_def)
    then show ?thesis using Sending by (blast intro: serve_step.sends_report)
  next
    case (Gone r)
    then have "sv_channel s = [r]" using inv Receiving by (simp add: serve_inv_def)
    then show ?thesis using Receiving by (blast intro: serve_step.receives)
  qed
next
  case (Back r)
  then show ?thesis using assms(3) by blast
qed

text \<open>
  C23: Asked to stop, \<open>Serve\<close> returns.  From the cancellation on one of its two threads can take a step
  until the result is there, at most five steps are left whatever the rest of the world does in between,
  and the goroutine is never left hanging at its send, even when the caller has returned already.
\<close>

theorem serve_stops:
  assumes "serve_reaches s" and "sv_cancelled s"
  shows "((\<forall>r. sv_caller s \<noteq> Back r) \<longrightarrow> (\<exists>t. serve_step s t)) \<and> steps_left s \<le> 5 \<and>
    (\<forall>t. serve_step s t \<longrightarrow> steps_left t < steps_left s) \<and>
    (\<forall>t. world_step s t \<longrightarrow> steps_left t = steps_left s \<and> sv_cancelled t) \<and>
    (\<forall>r. sv_goroutine s = Sending r \<longrightarrow> (\<exists>t. serve_step s t \<and> sv_goroutine t = Gone r))"
proof (intro conjI allI impI)
  note inv = serve_inv [OF assms(1)]
  show "\<exists>t. serve_step s t" if "\<forall>r. sv_caller s \<noteq> Back r"
    using serve_goes_on [OF inv assms(2)] that by blast
  show "\<exists>t. serve_step s t \<and> sv_goroutine t = Gone r" if "sv_goroutine s = Sending r" for r
  proof -
    have "length (sv_channel s) < serve_channel_size"
      using inv that by (simp add: serve_inv_def serve_channel_size_def)
    from serve_step.sends_report [OF that this] show ?thesis by force
  qed
qed (use steps_left_bound steps_left_program steps_left_world assms(2) in blast)+

subsection \<open>Witnesses\<close>

text \<open>The server fails, the cancellation comes, and the caller happens to look at the cancellation first.\<close>

definition failed_late :: "string serve_pc \<Rightarrow> string serve_error option list \<Rightarrow> bool \<Rightarrow> bool \<Rightarrow> string serve_state" where
  "failed_late caller channel cancelled closed =
     \<lparr>sv_goroutine = Gone (Some (ServeFailed ''accept'')), sv_channel = channel, sv_caller = caller,
      sv_cancelled = cancelled, sv_closed = closed, sv_in_flight = 0\<rparr>"

lemma reaches_by: "serve_reaches s \<Longrightarrow> serve_step s t \<Longrightarrow> t = t' \<Longrightarrow> serve_reaches t'"
  by (auto intro: serve_reaches.program)

lemma failed_late_reached:
  "serve_reaches (failed_late ShuttingDown [Some (ServeFailed ''accept'')] True True)" (is ?shutting)
  "serve_reaches (failed_late (Back (Some (ServeFailed ''accept''))) [] True True)" (is ?failed_in_the_end)
proof -
  let ?failed = "serve_start\<lparr>sv_goroutine := Sending (Some (ServeFailed ''accept''))\<rparr>"
  have "serve_reaches ?failed"
    by (rule reaches_by [OF serve_reaches.starts serve_step.serve_fails]) (simp_all add: serve_start_def)
  then have "serve_reaches (failed_late Selecting [Some (ServeFailed ''accept'')] False False)"
    by (rule reaches_by [OF _ serve_step.sends_report])
      (simp_all add: serve_start_def failed_late_def serve_channel_size_def)
  from serve_reaches.world [OF this world_step.cancels]
  have "serve_reaches (failed_late Selecting [Some (ServeFailed ''accept'')] True False)"
    by (simp add: failed_late_def)
  then show ?shutting
    by (rule reaches_by [OF _ serve_step.asked]) (simp_all add: failed_late_def)
  then have "serve_reaches (failed_late Receiving [Some (ServeFailed ''accept'')] True True)"
    by (rule reaches_by [OF _ serve_step.drained]) (simp_all add: failed_late_def)
  then show ?failed_in_the_end
    by (rule reaches_by [OF _ serve_step.receives]) (simp_all add: failed_late_def)
qed


lemma serve_stops_witness:
  "\<exists>t. serve_step (failed_late ShuttingDown [Some (ServeFailed ''accept'')] True True) t"
  using serve_stops [OF failed_late_reached(1)] by (simp add: failed_late_def)

end
