(* ===== verification/Migrations.thy ===== *)
theory Migrations
  imports Prelude
begin

text \<open>
  Applying the migrations: \<open>backend/internal/postgres/migrate.go\<close>.

  Any number of calls of \<open>Migrate\<close> run at once, in any number of processes, against one database.  The
  steps of each are those of the code, deferred ones included; \<open>gooseMu\<close> is one mutex per process, the
  advisory lock one per database.  goose is a parameter: what one step of \<open>UpContext\<close> may do to its own
  state and to the database, and when it has ended and how.  The connection that holds the advisory
  lock is taken to last as long as the call: PostgreSQL frees the lock of a session that ends.
\<close>

subsection \<open>Opening the database\<close>

datatype 'e migrate_error =
    ErrInvalidURL | SetDialect 'e | OpenConnection 'e | TakeLock 'e | ApplyMigrations 'e | ReadStatus 'e

text \<open>
  \<open>ge_parses\<close> is \<open>pgxpool.ParseConfig\<close>, \<open>ge_opens\<close> \<open>sql.Open\<close>, \<open>ge_dialect\<close> what \<open>SetDialect\<close> answers;
  \<open>ge_process\<close> the process of a call.
\<close>

record ('g, 'd, 'e) goose_env =
  ge_parses :: "string \<Rightarrow> bool"
  ge_opens :: "string \<Rightarrow> bool"
  ge_dialect :: "'e option"
  ge_start :: 'g
  ge_step :: "'g \<Rightarrow> 'd \<Rightarrow> 'g \<Rightarrow> 'd \<Rightarrow> bool"
  ge_outcome :: "'g \<Rightarrow> 'e option option"
  ge_process :: "nat \<Rightarrow> nat"

definition open_for_migrations :: "('g, 'd, 'e) goose_env \<Rightarrow> string \<Rightarrow> 'e migrate_error option" where
  "open_for_migrations env url =
     (if \<not> ge_parses env url then Some ErrInvalidURL
      else if \<not> ge_opens env url then Some ErrInvalidURL
      else map_option SetDialect (ge_dialect env))"

text \<open>\<open>answer\<close> is what \<open>StatusContext\<close> returns.\<close>

definition migration_status :: "('g, 'd, 'e) goose_env \<Rightarrow> 'e option \<Rightarrow> string \<Rightarrow> 'e migrate_error option" where
  "migration_status env answer url =
     (case open_for_migrations env url of Some e \<Rightarrow> Some e | None \<Rightarrow> map_option ReadStatus answer)"

subsection \<open>The calls of \<open>Migrate\<close>\<close>

text \<open>
  Where a call is: before the mutex, with it, with the handle, with the connection, inside goose, at the
  deferred unlock, at the deferred closes, at the deferred release of the mutex, and back with its result.
\<close>

datatype ('g, 'e) migrate_pc =
    Idle | Opening | Connecting | Locking | Running 'g
  | Unlocking "'e migrate_error option" | Closing "'e migrate_error option"
  | Leaving "'e migrate_error option" | Returned "'e migrate_error option"

record ('g, 'd, 'e) cluster =
  cl_pc :: "nat \<Rightarrow> ('g, 'e) migrate_pc"
  cl_mutex :: "nat \<Rightarrow> nat option"
  cl_lock :: "nat option"
  cl_db :: 'd

definition moves :: "nat \<Rightarrow> ('g, 'e) migrate_pc \<Rightarrow> ('g, 'd, 'e) cluster \<Rightarrow> ('g, 'd, 'e) cluster" where
  "moves c pc s = s\<lparr>cl_pc := (cl_pc s)(c := pc)\<rparr>"

inductive migrate_step ::
  "('g, 'd, 'e) goose_env \<Rightarrow> string \<Rightarrow> ('g, 'd, 'e) cluster \<Rightarrow> ('g, 'd, 'e) cluster \<Rightarrow> bool" for env url where
  take_mutex: "cl_pc s c = Idle \<Longrightarrow> cl_mutex s (ge_process env c) = None \<Longrightarrow>
    migrate_step env url s (moves c Opening s\<lparr>cl_mutex := (cl_mutex s)(ge_process env c := Some c)\<rparr>)"
| open_fails: "cl_pc s c = Opening \<Longrightarrow> open_for_migrations env url = Some e \<Longrightarrow>
    migrate_step env url s (moves c (Leaving (Some e)) s)"
| opens: "cl_pc s c = Opening \<Longrightarrow> open_for_migrations env url = None \<Longrightarrow>
    migrate_step env url s (moves c Connecting s)"
| conn_fails: "cl_pc s c = Connecting \<Longrightarrow> migrate_step env url s (moves c (Closing (Some (OpenConnection e))) s)"
| connects: "cl_pc s c = Connecting \<Longrightarrow> migrate_step env url s (moves c Locking s)"
| lock_fails: "cl_pc s c = Locking \<Longrightarrow> migrate_step env url s (moves c (Closing (Some (TakeLock e))) s)"
| locks: "cl_pc s c = Locking \<Longrightarrow> cl_lock s = None \<Longrightarrow>
    migrate_step env url s (moves c (Running (ge_start env)) s\<lparr>cl_lock := Some c\<rparr>)"
| goose_moves: "cl_pc s c = Running g \<Longrightarrow> ge_step env g (cl_db s) g' d' \<Longrightarrow>
    migrate_step env url s (moves c (Running g') s\<lparr>cl_db := d'\<rparr>)"
| goose_ends: "cl_pc s c = Running g \<Longrightarrow> ge_outcome env g = Some r \<Longrightarrow>
    migrate_step env url s (moves c (Unlocking (map_option ApplyMigrations r)) s)"
| unlocks: "cl_pc s c = Unlocking r \<Longrightarrow> migrate_step env url s (moves c (Closing r) s\<lparr>cl_lock := None\<rparr>)"
| unlock_fails: "cl_pc s c = Unlocking r \<Longrightarrow> migrate_step env url s (moves c (Closing r) s)"
| closes: "cl_pc s c = Closing r \<Longrightarrow>
    migrate_step env url s (moves c (Leaving r) s\<lparr>cl_lock := if cl_lock s = Some c then None else cl_lock s\<rparr>)"
| release_mutex: "cl_pc s c = Leaving r \<Longrightarrow>
    migrate_step env url s (moves c (Returned r) s\<lparr>cl_mutex := (cl_mutex s)(ge_process env c := None)\<rparr>)"

inductive_cases migrate_stepE: "migrate_step env url s t"

definition no_calls :: "'d \<Rightarrow> ('g, 'd, 'e) cluster" where
  "no_calls d = \<lparr>cl_pc = (\<lambda>_. Idle), cl_mutex = (\<lambda>_. None), cl_lock = None, cl_db = d\<rparr>"

inductive migrating ::
  "('g, 'd, 'e) goose_env \<Rightarrow> string \<Rightarrow> 'd \<Rightarrow> ('g, 'd, 'e) cluster \<Rightarrow> bool" for env url d where
  start: "migrating env url d (no_calls d)"
| step: "migrating env url d s \<Longrightarrow> migrate_step env url s t \<Longrightarrow> migrating env url d t"

lemma moves_simps [simp]:
  "cl_pc (moves c pc s) = (cl_pc s)(c := pc)" "cl_mutex (moves c pc s) = cl_mutex s"
  "cl_lock (moves c pc s) = cl_lock s" "cl_db (moves c pc s) = cl_db s"
  by (simp_all add: moves_def)

subsection \<open>The locks\<close>

text \<open>Where a call is past the mutex, and where it may hold the advisory lock.\<close>

fun inside :: "('g, 'e) migrate_pc \<Rightarrow> bool" where
  "inside Idle \<longleftrightarrow> False" | "inside (Returned r) \<longleftrightarrow> False" | "inside pc \<longleftrightarrow> True"

fun at_database :: "('g, 'e) migrate_pc \<Rightarrow> bool" where
  "at_database (Running g) \<longleftrightarrow> True" | "at_database (Unlocking r) \<longleftrightarrow> True" | "at_database pc \<longleftrightarrow> False"

definition mutex_agrees :: "('g, 'd, 'e) goose_env \<Rightarrow> ('g, 'd, 'e) cluster \<Rightarrow> bool" where
  "mutex_agrees env s \<longleftrightarrow>
     (\<forall>c. inside (cl_pc s c) \<longleftrightarrow> cl_mutex s (ge_process env c) = Some c) \<and>
     (\<forall>p c. cl_mutex s p = Some c \<longrightarrow> p = ge_process env c)"

definition lock_agrees :: "('g, 'd, 'e) cluster \<Rightarrow> bool" where
  "lock_agrees s \<longleftrightarrow>
     (\<forall>c. at_database (cl_pc s c) \<longrightarrow> cl_lock s = Some c) \<and>
     (\<forall>c. cl_lock s = Some c \<longrightarrow> at_database (cl_pc s c) \<or> (\<exists>r. cl_pc s c = Closing r))"

lemma mutex_agrees_step: "migrate_step env url s t \<Longrightarrow> mutex_agrees env s \<Longrightarrow> mutex_agrees env t"
proof (induction rule: migrate_step.induct)
  case (take_mutex s c)
  then show ?case unfolding mutex_agrees_def by (auto split: if_splits)
next
  case (release_mutex s c r)
  let ?p = "ge_process env"
  have within: "inside (cl_pc s c') \<longleftrightarrow> cl_mutex s (?p c') = Some c'"
    and process: "cl_mutex s q = Some c' \<Longrightarrow> q = ?p c'" for c' q
    using release_mutex.prems by (simp_all only: mutex_agrees_def)
  have mine: "cl_mutex s (?p c) = Some c" using within [of c] by (simp add: release_mutex.hyps)
  show ?case
    unfolding mutex_agrees_def
  proof (intro conjI allI impI)
    fix c'
    show "inside (cl_pc (moves c (Returned r) s\<lparr>cl_mutex := (cl_mutex s)(?p c := None)\<rparr>) c') \<longleftrightarrow>
        cl_mutex (moves c (Returned r) s\<lparr>cl_mutex := (cl_mutex s)(?p c := None)\<rparr>) (?p c') = Some c'"
      using within [of c'] mine by (cases "c' = c") auto
  next
    fix q c'
    assume "cl_mutex (moves c (Returned r) s\<lparr>cl_mutex := (cl_mutex s)(?p c := None)\<rparr>) q = Some c'"
    then show "q = ?p c'" by (auto intro: process split: if_splits)
  qed
qed (unfold mutex_agrees_def, auto split: if_splits)

lemma lock_agrees_step: "migrate_step env url s t \<Longrightarrow> lock_agrees s \<Longrightarrow> lock_agrees t"
proof (induction rule: migrate_step.induct)
  case (locks s c)
  then show ?case unfolding lock_agrees_def by (auto split: if_splits)
next
  case (unlocks s c r)
  then have "cl_lock s = Some c" by (simp add: lock_agrees_def)
  with unlocks show ?case unfolding lock_agrees_def by (auto split: if_splits)
next
  case (closes s c r)
  then show ?case unfolding lock_agrees_def by (auto split: if_splits)
qed (unfold lock_agrees_def, auto split: if_splits)

lemma locks_agree: "migrating env url d s \<Longrightarrow> mutex_agrees env s \<and> lock_agrees s"
proof (induction rule: migrating.induct)
  case start
  show ?case by (simp add: mutex_agrees_def lock_agrees_def no_calls_def)
qed (blast intro: mutex_agrees_step lock_agrees_step)

subsection \<open>One run of goose after the other\<close>

text \<open>
  \<open>goose_path\<close> is what goose does from its start on a database; \<open>serial\<close> what complete runs, one after
  the other, make of it, with their results.
\<close>

inductive goose_path :: "('g, 'd, 'e) goose_env \<Rightarrow> 'd \<Rightarrow> 'g \<Rightarrow> 'd \<Rightarrow> bool" for env d where
  goose_starts: "goose_path env d (ge_start env) d"
| goose_steps: "goose_path env d g e \<Longrightarrow> ge_step env g e g' e' \<Longrightarrow> goose_path env d g' e'"

inductive serial :: "('g, 'd, 'e) goose_env \<Rightarrow> 'd \<Rightarrow> 'e option list \<Rightarrow> 'd \<Rightarrow> bool" for env d where
  no_run: "serial env d [] d"
| one_more: "serial env d rs e \<Longrightarrow> goose_path env e g e' \<Longrightarrow> ge_outcome env g = Some r \<Longrightarrow> serial env d (rs @ [r]) e'"

definition serialised :: "('g, 'd, 'e) goose_env \<Rightarrow> 'd \<Rightarrow> ('g, 'd, 'e) cluster \<Rightarrow> bool" where
  "serialised env d s \<longleftrightarrow>
     (\<exists>rs e. serial env d rs e \<and> (\<forall>c g. cl_pc s c = Running g \<longrightarrow> goose_path env e g (cl_db s)) \<and>
        ((\<forall>c g. cl_pc s c \<noteq> Running g) \<longrightarrow> cl_db s = e))"

lemma nobody_runs: "lock_agrees s \<Longrightarrow> cl_lock s = None \<Longrightarrow> cl_pc s c \<noteq> Running g"
  unfolding lock_agrees_def by (metis at_database.simps(1) option.distinct(1))

lemma one_runs: "lock_agrees s \<Longrightarrow> at_database (cl_pc s c) \<Longrightarrow> at_database (cl_pc s c') \<Longrightarrow> c = c'"
  unfolding lock_agrees_def by (metis option.inject)

text \<open>A step of a call that is not inside goose, nor goes there, changes nothing here.\<close>

lemma serialised_moves:
  assumes "serialised env d s" and "cl_db t = cl_db s"
    and "\<And>c' g. cl_pc t c' = Running g \<longleftrightarrow> cl_pc s c' = Running g"
  shows "serialised env d t"
  using assms unfolding serialised_def by simp

lemma serialised_step:
  "migrate_step env url s t \<Longrightarrow> lock_agrees s \<Longrightarrow> serialised env d s \<Longrightarrow> serialised env d t"
proof (induction rule: migrate_step.induct)
  case (locks s c)
  from locks.prems nobody_runs [OF locks.prems(1) locks.hyps(2)]
  obtain rs where "serial env d rs (cl_db s)" by (auto simp: serialised_def)
  moreover have "goose_path env (cl_db s) (ge_start env) (cl_db s)" by (rule goose_starts)
  ultimately show ?case
    using nobody_runs [OF locks.prems(1) locks.hyps(2)]
    unfolding serialised_def by (auto intro!: exI [of _ rs] exI [of _ "cl_db s"])
next
  case (goose_moves s c g g' d')
  have alone: "c' = c" if "cl_pc s c' = Running h" for c' h
    using one_runs [OF goose_moves.prems(1), of c' c] that goose_moves.hyps(1) by simp
  from goose_moves.prems(2) obtain rs e where "serial env d rs e" "goose_path env e g (cl_db s)"
    using goose_moves.hyps(1) unfolding serialised_def by blast
  with goose_moves.hyps(2) have "serial env d rs e" "goose_path env e g' d'"
    by (auto intro: goose_steps)
  then show ?case
    using alone unfolding serialised_def by (auto intro!: exI [of _ rs] exI [of _ e])
next
  case (goose_ends s c g r)
  have alone: "c' = c" if "cl_pc s c' = Running h" for c' h
    using one_runs [OF goose_ends.prems(1), of c' c] that goose_ends.hyps(1) by simp
  from goose_ends.prems(2) obtain rs e where "serial env d rs e" "goose_path env e g (cl_db s)"
    using goose_ends.hyps(1) unfolding serialised_def by blast
  then have "serial env d (rs @ [r]) (cl_db s)" using goose_ends.hyps(2) by (rule one_more)
  then show ?case
    using alone unfolding serialised_def by (auto intro!: exI [of _ "rs @ [r]"] exI [of _ "cl_db s"])
qed (erule serialised_moves; auto)+

lemma migrating_serialised: "migrating env url d s \<Longrightarrow> serialised env d s"
proof (induction rule: migrating.induct)
  case start
  show ?case unfolding serialised_def no_calls_def by (auto intro!: exI [of _ "[]"] no_run)
qed (blast intro: serialised_step dest: locks_agree)

text \<open>
  C37: Calls of \<open>Migrate\<close> never overlap.  However many run at once, in whatever processes and order, and
  whichever of them fail: at most one is inside goose or about to unlock, and the database is always what
  complete runs of goose, one after the other from the first state, made of it, followed by the steps so
  far of the one run that is under way, if there is one.
\<close>

theorem migrations_take_turns:
  assumes "migrating env url d s"
  shows "(at_database (cl_pc s c) \<and> at_database (cl_pc s c') \<longrightarrow> c = c') \<and>
    (\<exists>rs e. serial env d rs e \<and> (\<forall>c g. cl_pc s c = Running g \<longrightarrow> goose_path env e g (cl_db s)) \<and>
      ((\<forall>c g. cl_pc s c \<noteq> Running g) \<longrightarrow> cl_db s = e))"
  using one_runs [of s c c'] locks_agree [OF assms] migrating_serialised [OF assms]
  by (auto simp: serialised_def)

fun result :: "('g, 'e) migrate_pc \<Rightarrow> 'e migrate_error option option" where
  "result (Unlocking r) = Some r" | "result (Closing r) = Some r" | "result (Leaving r) = Some r"
| "result (Returned r) = Some r" | "result pc = None"

definition ended_well :: "('d \<Rightarrow> bool) \<Rightarrow> ('g, 'd, 'e) cluster \<Rightarrow> bool" where
  "ended_well newest s \<longleftrightarrow> (\<forall>c. result (cl_pc s c) = Some None \<longrightarrow> newest (cl_db s))"

lemma ended_well_moves:
  assumes "ended_well newest s" and "cl_db t = cl_db s"
    and "\<And>c. result (cl_pc t c) = Some None \<Longrightarrow> result (cl_pc s c) = Some None"
  shows "ended_well newest t"
  using assms unfolding ended_well_def by metis

lemma ended_well_step:
  assumes "migrate_step env url s t" and "serialised env d s" and "ended_well newest s"
    and ends: "\<And>e g e'. goose_path env e g e' \<Longrightarrow> ge_outcome env g = Some None \<Longrightarrow> newest e'"
    and stays: "\<And>e g g' e'. newest e \<Longrightarrow> ge_step env g e g' e' \<Longrightarrow> newest e'"
  shows "ended_well newest t"
  using assms(1-3)
proof (induction rule: migrate_step.induct)
  case (goose_moves s c g g' d')
  then show ?case using stays [OF _ goose_moves.hyps(2)] unfolding ended_well_def by auto
next
  case (goose_ends s c g r)
  have "newest (cl_db s)" if "r = None"
    using goose_ends.prems(1) goose_ends.hyps that ends unfolding serialised_def by blast
  with goose_ends show ?case unfolding ended_well_def by auto
qed (erule ended_well_moves; auto split: if_splits)+

text \<open>
  C38: A call of \<open>Migrate\<close> that reports no error leaves the schema at the newest version, for good.  It
  rests on two things goose documents: a run that ends without an error has brought the schema to the
  newest version, and no step takes it away from there (there is no way down).
\<close>

theorem migrated_means_newest:
  assumes "migrating env url d s" and "cl_pc s c = Returned None"
    and "\<And>e g e'. goose_path env e g e' \<Longrightarrow> ge_outcome env g = Some None \<Longrightarrow> newest e'"
    and "\<And>e g g' e'. newest e \<Longrightarrow> ge_step env g e g' e' \<Longrightarrow> newest e'"
  shows "newest (cl_db s)"
proof -
  have "ended_well newest s" using assms(1)
  proof (induction rule: migrating.induct)
    case start
    show ?case by (simp add: ended_well_def no_calls_def)
  next
    case (step s t)
    show ?case
      by (rule ended_well_step [OF step.hyps(2) migrating_serialised [OF step.hyps(1)] step.IH]) (erule (1) assms(3,4))+
  qed
  with assms(2) show ?thesis unfolding ended_well_def by (metis result.simps(4))
qed

subsection \<open>Nobody waits for ever\<close>

lemma mutex_holder:
  assumes "mutex_agrees env s" and "cl_mutex s p = Some c"
  shows "p = ge_process env c \<and> inside (cl_pc s c)"
proof -
  have "p = ge_process env c" using assms unfolding mutex_agrees_def by blast
  moreover have "inside (cl_pc s c) \<longleftrightarrow> cl_mutex s (ge_process env c) = Some c"
    using assms(1) by (simp only: mutex_agrees_def)
  ultimately show ?thesis using assms(2) by blast
qed

lemma lock_holder: "lock_agrees s \<Longrightarrow> cl_lock s = Some c \<Longrightarrow> inside (cl_pc s c) \<and> cl_pc s c \<noteq> Locking"
  unfolding lock_agrees_def by (cases "cl_pc s c") auto

lemma inside_moves:
  assumes "inside (cl_pc s c)" and "cl_pc s c = Locking \<Longrightarrow> cl_lock s = None"
    and "\<And>g e. ge_outcome env g = None \<Longrightarrow> \<exists>g' e'. ge_step env g e g' e'"
  shows "\<exists>t. migrate_step env url s t"
proof (cases "cl_pc s c")
  case Opening
  then show ?thesis by (cases "open_for_migrations env url") (blast intro: migrate_step.intros)+
next
  case (Running g)
  then show ?thesis
    using assms(3) [of g "cl_db s"] by (cases "ge_outcome env g") (blast intro: migrate_step.intros)+
qed (use assms in \<open>auto intro: migrate_step.intros\<close>)


subsection \<open>Witnesses\<close>

text \<open>A goose of three migrations that applies one at a time and ends once there is none left.\<close>

definition sample_goose :: "(bool, nat, string) goose_env" where
  "sample_goose = \<lparr>ge_parses = (\<lambda>_. True), ge_opens = (\<lambda>_. True), ge_dialect = None, ge_start = False,
     ge_step = (\<lambda>g d g' d'. \<not> g \<and> (if d < 3 then \<not> g' \<and> d' = Suc d else g' \<and> d' = d)),
     ge_outcome = (\<lambda>g. if g then Some None else None), ge_process = (\<lambda>c. c)\<rparr>"

definition sample_cluster :: "(bool, string) migrate_pc \<Rightarrow> bool \<Rightarrow> bool \<Rightarrow> nat \<Rightarrow> (bool, nat, string) cluster" where
  "sample_cluster pc in_process in_database d =
     \<lparr>cl_pc = (\<lambda>_. Idle)(0 := pc), cl_mutex = (if in_process then [0 \<mapsto> 0] else Map.empty),
      cl_lock = (if in_database then Some 0 else None), cl_db = d\<rparr>"

lemmas sample_defs = sample_goose_def sample_cluster_def moves_def open_for_migrations_def

lemma then_migrates: "migrating env url d s \<Longrightarrow> migrate_step env url s t \<Longrightarrow> t = t' \<Longrightarrow> migrating env url d t'"
  by (auto intro: migrating.step)

lemma sample_running: "migrating sample_goose [] 2 (sample_cluster (Running False) True True 3)"
proof -
  have "migrating sample_goose [] 2 (no_calls 2)" by (rule migrating.start)
  then have "migrating sample_goose [] 2 (sample_cluster Opening True False 2)"
    by (rule then_migrates [OF _ migrate_step.take_mutex [where c = 0]])
      (simp_all add: no_calls_def sample_defs)
  then have "migrating sample_goose [] 2 (sample_cluster Connecting True False 2)"
    by (rule then_migrates [OF _ migrate_step.opens [where c = 0]]) (simp_all add: sample_defs)
  then have "migrating sample_goose [] 2 (sample_cluster Locking True False 2)"
    by (rule then_migrates [OF _ migrate_step.connects [where c = 0]]) (simp_all add: sample_defs)
  then have "migrating sample_goose [] 2 (sample_cluster (Running False) True True 2)"
    by (rule then_migrates [OF _ migrate_step.locks [where c = 0]]) (simp_all add: sample_defs)
  then show ?thesis
    by (rule then_migrates [OF _ migrate_step.goose_moves [where c = 0 and g = False and g' = False and d' = 3]])
      (simp_all add: sample_defs)
qed

lemma sample_returned: "migrating sample_goose [] 2 (sample_cluster (Returned None) False False 3)"
proof -
  from sample_running have "migrating sample_goose [] 2 (sample_cluster (Running True) True True 3)"
    by (rule then_migrates [OF _ migrate_step.goose_moves [where c = 0 and g = False and g' = True and d' = 3]])
      (simp_all add: sample_defs)
  then have "migrating sample_goose [] 2 (sample_cluster (Unlocking None) True True 3)"
    by (rule then_migrates [OF _ migrate_step.goose_ends [where c = 0 and g = True and r = None]]) (simp_all add: sample_defs)
  then have "migrating sample_goose [] 2 (sample_cluster (Closing None) True True 3)"
    by (rule then_migrates [OF _ migrate_step.unlock_fails [where c = 0]]) (simp_all add: sample_defs)
  then have "migrating sample_goose [] 2 (sample_cluster (Leaving None) True False 3)"
    by (rule then_migrates [OF _ migrate_step.closes [where c = 0]]) (simp_all add: sample_defs)
  then show ?thesis
    by (rule then_migrates [OF _ migrate_step.release_mutex [where c = 0]]) (simp_all add: sample_defs)
qed

lemma migrations_take_turns_witness:
  "\<exists>rs e. serial sample_goose 2 rs e \<and> goose_path sample_goose e False 3"
proof -
  have "cl_pc (sample_cluster (Running False) True True 3) 0 = Running False"
    "cl_db (sample_cluster (Running False) True True 3) = 3" by (simp_all add: sample_cluster_def)
  with migrations_take_turns [OF sample_running, of 0 0] show ?thesis by metis
qed

lemma sample_goose_path: "goose_path sample_goose e g e' \<Longrightarrow> g \<Longrightarrow> 3 \<le> e'"
  by (induction rule: goose_path.induct) (auto simp: sample_goose_def split: if_splits)

lemma migrated_means_newest_witness: "3 \<le> cl_db (sample_cluster (Returned None) False False 3)"
  by (rule migrated_means_newest [OF sample_returned, where c = 0])
    (auto simp: sample_cluster_def sample_goose_def split: if_splits dest: sample_goose_path [unfolded sample_goose_def])


end
