(* ===== verification/Startup.thy ===== *)
theory Startup
  imports Smtp Credentials Redis Server Migrations
begin

text \<open>
  The two programs from \<open>main\<close> down to what they open: \<open>backend/cmd/api/main.go\<close> (\<open>main\<close>, \<open>run\<close>,
  \<open>newLogger\<close>), \<open>backend/internal/postgres/pool.go\<close>, \<open>Ping\<close> of \<open>backend/internal/redis/redis.go\<close> and
  \<open>backend/cmd/migrate/main.go\<close>.

  A run is its error, if there is one, and what it did, in order; a deferred call is what is done after
  the rest.  What the outside answers (the environment, PostgreSQL, Redis, the random source, the
  socket, how \<open>Serve\<close> ended) is a \<open>machine\<close>.
\<close>

subsection \<open>What a run does\<close>

datatype event =
    Notify_Signals | Stop_Signals | Open_Pool | Close_Pool | Open_Redis | Close_Redis | Warn_Redis
  | Listen_On string | Starting | Print_Usage

type_synonym 'a run = "'a \<times> event list"

definition deferring :: "event \<Rightarrow> 'a run \<Rightarrow> 'a run" where
  "deferring ev r = (fst r, snd r @ [ev])"

definition after :: "event list \<Rightarrow> 'a run \<Rightarrow> 'a run" where
  "after evs r = (fst r, evs @ snd r)"

subsection \<open>The connection pool\<close>

record pool_config =
  pc_max_conns :: int
  pc_max_lifetime :: duration
  pc_max_idle :: duration
  pc_runtime_params :: "string \<rightharpoonup> string"

datatype 'e pool_error = MalformedURL | CreatePool 'e | PingPool 'e

record 'e machine =
  mc_parsers :: parsers
  mc_lookup :: lookup
  mc_parse_pool :: "string \<Rightarrow> pool_config option"
  mc_create_pool :: "pool_config \<Rightarrow> 'e option"
  mc_ping_pool :: "'e option"
  mc_parse_redis :: "string \<Rightarrow> redis_options option"
  mc_ping_redis :: "'e option"
  mc_argon2 :: argon2
  mc_nfkc :: "string \<Rightarrow> string"
  mc_secret :: "byte list option"
  mc_salt :: "byte list option"
  mc_mail_lib :: mail_lib
  mc_listen :: "string \<Rightarrow> 'e option"
  mc_serve :: "'e serve_error option"

definition postgres_new :: "'e machine \<Rightarrow> string \<Rightarrow> int \<Rightarrow> ('e pool_error + pool_config) run" where
  "postgres_new m url max_conns =
     (case mc_parse_pool m url of
        None \<Rightarrow> (Inl MalformedURL, [])
      | Some cfg \<Rightarrow>
        let bounded = cfg\<lparr>pc_max_conns := max_conns, pc_max_lifetime := hour, pc_max_idle := 30 * minute,
              pc_runtime_params := (pc_runtime_params cfg)(''statement_timeout'' \<mapsto> ''15s'',
                ''idle_in_transaction_session_timeout'' \<mapsto> ''30s'')\<rparr>
        in case mc_create_pool m bounded of
             Some e \<Rightarrow> (Inl (CreatePool e), [])
           | None \<Rightarrow>
             (case mc_ping_pool m of
                Some e \<Rightarrow> (Inl (PingPool e), [Open_Pool, Close_Pool])
              | None \<Rightarrow> (Inr bounded, [Open_Pool])))"

definition redis_ping :: "'e machine \<Rightarrow> 'e option" where
  "redis_ping m = mc_ping_redis m"

subsection \<open>The log\<close>

datatype log_handler = TextHandler log_level | JSONHandler log_level

definition new_logger :: "config \<Rightarrow> log_handler" where
  "new_logger cfg = (if cf_env cfg = EnvLocal then TextHandler (cf_log_level cfg) else JSONHandler (cf_log_level cfg))"

subsection \<open>The server's program\<close>

datatype 'e run_error =
    BadConfig "problem list" | PostgresError "'e pool_error" | RedisError | CredentialsError new_credentials_error
  | SMTPError options_error | ListenError string 'e | ServeError "'e serve_error"

definition RedisPoolSize :: int where "RedisPoolSize = 10"

text \<open>What is left once the pool and the Redis client are there; nothing in it is deferred.\<close>

definition run_services :: "'e machine \<Rightarrow> config \<Rightarrow> 'e run_error option run" where
  "run_services m cfg =
     (case new_credentials (mc_argon2 m) (mc_nfkc m) (mc_secret m) (mc_salt m) of
        Inl e \<Rightarrow> (Some (CredentialsError e), [])
      | Inr decoy \<Rightarrow>
        (case new_smtp (mc_mail_lib m) (smtp_options_of cfg) of
           Inl e \<Rightarrow> (Some (SMTPError e), [])
         | Inr sender \<Rightarrow>
           (case mc_listen m (cf_http_addr cfg) of
              Some e \<Rightarrow> (Some (ListenError (cf_http_addr cfg) e), [])
            | None \<Rightarrow> (map_option ServeError (mc_serve m), [Listen_On (cf_http_addr cfg), Starting]))))"

definition run_api :: "'e machine \<Rightarrow> 'e run_error option run" where
  "run_api m =
     (case load (mc_parsers m) (mc_lookup m) of
        Inl ps \<Rightarrow> (Some (BadConfig ps), [])
      | Inr cfg \<Rightarrow> after [Notify_Signals] (deferring Stop_Signals
          (case postgres_new m (cf_database_url cfg) (cf_database_max_conns cfg) of
             (Inl e, evs) \<Rightarrow> (Some (PostgresError e), evs)
           | (Inr pool, evs) \<Rightarrow> after evs (deferring Close_Pool
               (case redis_new (mc_parse_redis m) (cf_redis_url cfg) RedisPoolSize of
                  None \<Rightarrow> (Some RedisError, [])
                | Some opts \<Rightarrow> after [Open_Redis] (deferring Close_Redis
                    (after (if redis_ping m \<noteq> None then [Warn_Redis] else []) (run_services m cfg))))))))"

definition api_exit_code :: "'e machine \<Rightarrow> nat" where
  "api_exit_code m = (if fst (run_api m) \<noteq> None then 1 else 0)"

subsection \<open>The migrations' program\<close>

datatype 'e command_error = NotOneCommand nat | CommandConfig "problem list" | CommandFailed "'e migrate_error" | UnknownCommand string

text \<open>\<open>migrate\<close> and \<open>status\<close> are what the two calls come back with, as theory \<open>Migrations\<close> has them.\<close>

definition run_migrate ::
  "parsers \<Rightarrow> lookup \<Rightarrow> (string \<Rightarrow> 'e migrate_error option) \<Rightarrow> (string \<Rightarrow> 'e migrate_error option) \<Rightarrow> string list
    \<Rightarrow> 'e command_error option run" where
  "run_migrate P lookup migrate status args =
     (if length args \<noteq> 1 then (Some (NotOneCommand (length args)), [Print_Usage])
      else case load P lookup of
          Inl ps \<Rightarrow> (Some (CommandConfig ps), [])
        | Inr cfg \<Rightarrow> after [Notify_Signals] (deferring Stop_Signals
            (if hd args = ''up'' then (map_option CommandFailed (migrate (cf_database_url cfg)), [])
             else if hd args = ''status'' then (map_option CommandFailed (status (cf_database_url cfg)), [])
             else (Some (UnknownCommand (hd args)), [Print_Usage]))))"

subsection \<open>Opening and closing\<close>

text \<open>What closes what; \<open>nested\<close> says that all that is opened is closed, the last first.\<close>

fun closer :: "event \<Rightarrow> event option" where
  "closer Notify_Signals = Some Stop_Signals" | "closer Open_Pool = Some Close_Pool"
| "closer Open_Redis = Some Close_Redis" | "closer e = None"

fun nested :: "event list \<Rightarrow> event list \<Rightarrow> bool" where
  "nested open [] \<longleftrightarrow> open = []"
| "nested open (e # es) \<longleftrightarrow>
     (case closer e of
        Some c \<Rightarrow> nested (c # open) es
      | None \<Rightarrow> if e \<in> {Stop_Signals, Close_Pool, Close_Redis} then open \<noteq> [] \<and> hd open = e \<and> nested (tl open) es
               else nested open es)"

lemmas run_defs = run_api_def run_services_def postgres_new_def redis_ping_def deferring_def after_def Let_def

text \<open>What a start that got as far as listening has behind it.\<close>

lemma started:
  assumes "Starting \<in> set (snd (run_api m))"
  obtains cfg pool opts decoy sender where "load (mc_parsers m) (mc_lookup m) = Inr cfg"
    "fst (postgres_new m (cf_database_url cfg) (cf_database_max_conns cfg)) = Inr pool"
    "redis_new (mc_parse_redis m) (cf_redis_url cfg) RedisPoolSize = Some opts"
    "new_credentials (mc_argon2 m) (mc_nfkc m) (mc_secret m) (mc_salt m) = Inr decoy"
    "new_smtp (mc_mail_lib m) (smtp_options_of cfg) = Inr sender" "mc_listen m (cf_http_addr cfg) = None"
  using assms that
  by (auto simp: run_defs split: sum.splits option.splits if_splits)

lemma pool_bounded:
  assumes "fst (postgres_new m url n) = Inr pool"
  shows "mc_ping_pool m = None \<and> pc_max_conns pool = n \<and>
    pc_runtime_params pool ''statement_timeout'' = Some ''15s'' \<and>
    pc_runtime_params pool ''idle_in_transaction_session_timeout'' = Some ''30s''"
  using assms by (auto simp: postgres_new_def Let_def split: option.splits)

lemma sender_of_config:
  assumes "load P lookup = Inr cfg" and "new_smtp lib (smtp_options_of cfg) = Inr sender"
  shows "(sd_allow_unencrypted sender \<longleftrightarrow> cf_env cfg = EnvLocal) \<and> (cf_env cfg = EnvProduction \<longrightarrow> sd_auth sender \<noteq> None)"
  using assms(2) loaded_sound [OF assms(1)]
  by (auto simp: new_smtp_def smtp_options_of_def split: if_splits sum.splits)

text \<open>
  C40: The server's program starts all or nothing.  Whatever the outside answers, what it has opened is
  closed again, the last first.  It listens only with a sound configuration, a pool whose database has
  answered, at most as many connections as configured and both timeouts on every session, a Redis
  address that could be read, a decoy hash, and a mail sender that in production encrypts and
  authenticates.  A Redis that does not answer changes one warning in the log and nothing else.
\<close>

theorem starts_all_or_nothing:
  "nested [] (snd (run_api m)) \<and>
   (Starting \<in> set (snd (run_api m)) \<longrightarrow>
     (\<exists>cfg pool sender. load (mc_parsers m) (mc_lookup m) = Inr cfg \<and> mc_ping_pool m = None \<and>
        fst (postgres_new m (cf_database_url cfg) (cf_database_max_conns cfg)) = Inr pool \<and>
        1 \<le> pc_max_conns pool \<and> pc_max_conns pool \<le> 1000 \<and>
        pc_runtime_params pool ''statement_timeout'' = Some ''15s'' \<and>
        pc_runtime_params pool ''idle_in_transaction_session_timeout'' = Some ''30s'' \<and>
        redis_new (mc_parse_redis m) (cf_redis_url cfg) RedisPoolSize \<noteq> None \<and>
        (\<exists>decoy. new_credentials (mc_argon2 m) (mc_nfkc m) (mc_secret m) (mc_salt m) = Inr decoy) \<and>
        new_smtp (mc_mail_lib m) (smtp_options_of cfg) = Inr sender \<and>
        (cf_env cfg = EnvProduction \<longrightarrow> \<not> sd_allow_unencrypted sender \<and> sd_auth sender \<noteq> None))) \<and>
   fst (run_api (m\<lparr>mc_ping_redis := answer\<rparr>)) = fst (run_api m) \<and>
   filter (\<lambda>e. e \<noteq> Warn_Redis) (snd (run_api (m\<lparr>mc_ping_redis := answer\<rparr>))) =
     filter (\<lambda>e. e \<noteq> Warn_Redis) (snd (run_api m))"
proof (intro conjI impI)
  show "nested [] (snd (run_api m))"
    by (simp add: run_defs split: sum.splits option.splits)
  show "fst (run_api (m\<lparr>mc_ping_redis := answer\<rparr>)) = fst (run_api m)"
    "filter (\<lambda>e. e \<noteq> Warn_Redis) (snd (run_api (m\<lparr>mc_ping_redis := answer\<rparr>))) =
     filter (\<lambda>e. e \<noteq> Warn_Redis) (snd (run_api m))"
    by (simp_all add: run_defs split: sum.splits option.splits)
next
  assume "Starting \<in> set (snd (run_api m))"
  then show "\<exists>cfg pool sender. load (mc_parsers m) (mc_lookup m) = Inr cfg \<and> mc_ping_pool m = None \<and>
        fst (postgres_new m (cf_database_url cfg) (cf_database_max_conns cfg)) = Inr pool \<and>
        1 \<le> pc_max_conns pool \<and> pc_max_conns pool \<le> 1000 \<and>
        pc_runtime_params pool ''statement_timeout'' = Some ''15s'' \<and>
        pc_runtime_params pool ''idle_in_transaction_session_timeout'' = Some ''30s'' \<and>
        redis_new (mc_parse_redis m) (cf_redis_url cfg) RedisPoolSize \<noteq> None \<and>
        (\<exists>decoy. new_credentials (mc_argon2 m) (mc_nfkc m) (mc_secret m) (mc_salt m) = Inr decoy) \<and>
        new_smtp (mc_mail_lib m) (smtp_options_of cfg) = Inr sender \<and>
        (cf_env cfg = EnvProduction \<longrightarrow> \<not> sd_allow_unencrypted sender \<and> sd_auth sender \<noteq> None)"
  proof (rule started)
    fix cfg pool opts decoy sender
    assume loaded: "load (mc_parsers m) (mc_lookup m) = Inr cfg"
      and pool: "fst (postgres_new m (cf_database_url cfg) (cf_database_max_conns cfg)) = Inr pool"
      and redis: "redis_new (mc_parse_redis m) (cf_redis_url cfg) RedisPoolSize = Some opts"
      and decoy: "new_credentials (mc_argon2 m) (mc_nfkc m) (mc_secret m) (mc_salt m) = Inr decoy"
      and sender: "new_smtp (mc_mail_lib m) (smtp_options_of cfg) = Inr sender"
    show ?thesis
      using loaded_sound [OF loaded] pool_bounded [OF pool] sender_of_config [OF loaded sender]
      by (intro exI [of _ cfg] exI [of _ pool] exI [of _ sender]) (auto simp: loaded pool redis decoy sender)
  qed
qed

subsection \<open>The edges of the two programs\<close>

text \<open>
  Of a configuration that could be loaded the mail sender refuses only the sender's address, and, on a
  developer's machine, credentials that would go in the clear.
\<close>

lemma config_fits_sender:
  assumes "load P lookup = Inr cfg" and "new_smtp lib (smtp_options_of cfg) = Inl e"
  shows "(\<exists>r. e = BadSender r) \<or> e = CredentialsInTheClear \<and> cf_env cfg = EnvLocal \<and> sc_username (cf_smtp cfg) \<noteq> []"
  using assms(2) loaded_sound [OF assms(1)]
  by (auto simp: new_smtp_def smtp_options_of_def split: if_splits sum.splits)

text \<open>Only \<open>up\<close> ever asks for migrations to be applied: without it nothing of the database changes.\<close>

lemma only_up_migrates:
  "args \<noteq> [''up''] \<Longrightarrow> run_migrate P lookup migrate status args = run_migrate P lookup migrate' status args"
  by (cases args) (auto simp: run_migrate_def split: sum.splits)

lemma migrate_releases_signals: "nested [] (snd (run_migrate P lookup migrate status args))"
  by (auto simp: run_migrate_def after_def deferring_def split: sum.splits)

subsection \<open>Witness\<close>

text \<open>A production machine where everything but Redis answers, and the server is stopped in the end.\<close>

definition sample_machine :: "string machine" where
  "sample_machine = \<lparr>mc_parsers = sample_parsers, mc_lookup = sample_environment,
     mc_parse_pool = (\<lambda>_. Some \<lparr>pc_max_conns = 4, pc_max_lifetime = 0, pc_max_idle = 0, pc_runtime_params = Map.empty\<rparr>),
     mc_create_pool = (\<lambda>_. None), mc_ping_pool = None,
     mc_parse_redis = (\<lambda>_. Some \<lparr>dial_timeout = 0, read_timeout = 0, write_timeout = 0, max_retries = 3,
       pool_timeout = 0, pool_size = 100\<rparr>),
     mc_ping_redis = Some ''refused'', mc_argon2 = sample_argon2, mc_nfkc = id, mc_secret = Some (replicate 32 9),
     mc_salt = Some (replicate 16 2), mc_mail_lib = sample_mail_lib, mc_listen = (\<lambda>_. None), mc_serve = None\<rparr>"

lemma sample_machine_runs:
  "\<exists>addr. run_api sample_machine = (None, [Notify_Signals, Open_Pool, Open_Redis, Warn_Redis, Listen_On addr, Starting,
     Close_Redis, Close_Pool, Stop_Signals])"
proof -
  obtain c where c: "load sample_parsers sample_environment = Inr c" "cf_env c = EnvProduction"
    "cf_smtp c = \<lparr>sc_host = ''mail'', sc_port = 587, sc_from = ([], ''pm@pm''), sc_username = ''pm'', sc_password = ''hunter2''\<rparr>"
    using sample_loads by (cases "load sample_parsers sample_environment") simp_all
  have "sender_address sample_mail_lib ([], ''pm@pm'') = Inr ([], ''pm@pm'')" by code_simp
  then have "new_smtp sample_mail_lib (smtp_options_of c) = Inr sample_sender"
    by (simp add: new_smtp_def smtp_options_of_def c sample_sender_def)
  moreover obtain decoy where "new_credentials sample_argon2 id (Some (replicate 32 9)) (Some (replicate 16 2)) = Inr decoy"
    using sample_secret_valid by (simp add: new_credentials_def hash_password_def)
  ultimately show ?thesis
    by (simp add: sample_machine_def run_defs c redis_new_def)
qed

lemma starts_all_or_nothing_witness:
  "\<exists>cfg sender. load sample_parsers sample_environment = Inr cfg \<and>
    new_smtp sample_mail_lib (smtp_options_of cfg) = Inr sender \<and>
    (cf_env cfg = EnvProduction \<longrightarrow> \<not> sd_allow_unencrypted sender \<and> sd_auth sender \<noteq> None)"
proof -
  have "Starting \<in> set (snd (run_api sample_machine))" using sample_machine_runs by auto
  with starts_all_or_nothing [of sample_machine None]
  obtain cfg pool sender where "load (mc_parsers sample_machine) (mc_lookup sample_machine) = Inr cfg"
    "new_smtp (mc_mail_lib sample_machine) (smtp_options_of cfg) = Inr sender"
    "cf_env cfg = EnvProduction \<longrightarrow> \<not> sd_allow_unencrypted sender \<and> sd_auth sender \<noteq> None" by blast
  then show ?thesis by (simp add: sample_machine_def)
qed

end
