(* ===== verification/Redeeming_Race.thy ===== *)
theory Redeeming_Race
  imports Invitations_Properties
begin

text \<open>
  Redeemings of invitations that run at the same time: the transaction of \<open>Accept\<close>
  (\<open>backend/internal/modules/identity/service/invitation.go\<close>) statement by statement, any number of
  them at once, at PostgreSQL's isolation level \<open>READ COMMITTED\<close>.

  A statement reads what is committed.  An \<open>UPDATE\<close> waits for the transaction that has changed its row
  and not ended, and then looks at its condition again; so does an \<open>INSERT\<close> for one that has put in the
  same key of a unique index.  A transaction's own changes are seen by the others once it commits.
\<close>

subsection \<open>The transactions\<close>

text \<open>What a call brings: the digest, the name and the stored password, its clock, and when it began.\<close>

record redeemer =
  rd_digest :: "byte list"
  rd_name :: string
  rd_hash :: string
  rd_clock :: time
  rd_began :: time

datatype redeem_pc =
    Reading | Stamping invitation | Creating invitation | Committing invitation user_row
  | Redeemed invitation user_row | Refused "string invitations_error"

text \<open>
  The committed database, where each transaction is, which has changed the row of an invitation and
  which has put in an account with an address (in lower case) and not ended.
\<close>

record race =
  rc_db :: pg
  rc_pc :: "nat \<Rightarrow> redeem_pc"
  rc_row :: "string \<Rightarrow> nat option"
  rc_key :: "string \<Rightarrow> nat option"

definition seen_by :: "redeemer \<Rightarrow> pg \<Rightarrow> pg" where
  "seen_by t d = d\<lparr>pg_now := rd_began t, deliveries := []\<rparr>"

definition ends :: "nat \<Rightarrow> redeem_pc \<Rightarrow> race \<Rightarrow> race" where
  "ends t pc s = s\<lparr>rc_pc := (rc_pc s)(t := pc),
     rc_row := (\<lambda>i. if rc_row s i = Some t then None else rc_row s i),
     rc_key := (\<lambda>k. if rc_key s k = Some t then None else rc_key s k)\<rparr>"

definition goes :: "nat \<Rightarrow> redeem_pc \<Rightarrow> race \<Rightarrow> race" where
  "goes t pc s = s\<lparr>rc_pc := (rc_pc s)(t := pc)\<rparr>"

fun running :: "redeem_pc \<Rightarrow> bool" where
  "running (Redeemed i u) \<longleftrightarrow> False" | "running (Refused e) \<longleftrightarrow> False" | "running pc \<longleftrightarrow> True"

text \<open>
  What the transactions of other calls may commit in between: anything that deletes no invitation, gives
  none another identifier or token (which the schema keeps apart), takes no acceptance back, and leaves the rows alone that are changed
  and not committed.
\<close>

definition race_db_ok :: "pg \<Rightarrow> bool" where
  "race_db_ok d \<longleftrightarrow> distinct (map in_id (invitations d)) \<and> distinct (map in_token_hash (invitations d)) \<and>
     (\<forall>r \<in> set (invitations d). to_uuid d (in_id r) = Some (in_id r))"

definition others_commit :: "race \<Rightarrow> pg \<Rightarrow> bool" where
  "others_commit s d \<longleftrightarrow>
     race_db_ok d \<and>
     (\<forall>r \<in> set (invitations (rc_db s)). \<exists>r' \<in> set (invitations d).
        in_id r' = in_id r \<and> in_token_hash r' = in_token_hash r \<and>
        (in_accepted_at r \<noteq> None \<longrightarrow> in_accepted_at r' \<noteq> None) \<and> (rc_row s (in_id r) \<noteq> None \<longrightarrow> r' = r))"

inductive race_step :: "(nat \<Rightarrow> redeemer) \<Rightarrow> race \<Rightarrow> race \<Rightarrow> bool" for T where
  reads: "rc_pc s t = Reading \<Longrightarrow>
    fst (get_invitation_by_token_hash (rd_digest (T t)) (seen_by (T t) (rc_db s))) = Inr row \<Longrightarrow>
    invitation_is_usable (invitation_of row) (rd_clock (T t)) \<Longrightarrow>
    race_step T s (goes t (Stamping (invitation_of row)) s)"
| not_usable: "rc_pc s t = Reading \<Longrightarrow>
    fst (get_invitation_by_token_hash (rd_digest (T t)) (seen_by (T t) (rc_db s))) = r \<Longrightarrow>
    (\<forall>row. r = Inr row \<longrightarrow> \<not> invitation_is_usable (invitation_of row) (rd_clock (T t))) \<Longrightarrow>
    race_step T s (ends t (Refused (case r of
      Inl e \<Rightarrow> if e = NoRows then ErrInvitationNotUsable else GetInvitation e | Inr _ \<Rightarrow> ErrInvitationNotUsable)) s)"
| stamps: "rc_pc s t = Stamping i \<Longrightarrow> rc_row s (i_id i) = None \<Longrightarrow>
    fst (accept_invitation (i_id i) (seen_by (T t) (rc_db s))) = Inr n \<Longrightarrow> n \<noteq> 0 \<Longrightarrow>
    race_step T s (goes t (Creating i) s\<lparr>rc_row := (rc_row s)(i_id i := Some t)\<rparr>)"
| too_late: "rc_pc s t = Stamping i \<Longrightarrow> rc_row s (i_id i) = None \<Longrightarrow>
    fst (accept_invitation (i_id i) (seen_by (T t) (rc_db s))) = r \<Longrightarrow> (\<forall>n. r = Inr n \<longrightarrow> n = 0) \<Longrightarrow>
    race_step T s (ends t (Refused (case r of Inl e \<Rightarrow> AcceptInvitation e | Inr _ \<Rightarrow> ErrInvitationNotUsable)) s)"
| creates: "rc_pc s t = Creating i \<Longrightarrow> rc_key s (pg_lower (rc_db s) (i_email i)) = None \<Longrightarrow>
    create_user (i_email i) (rd_name (T t)) (rd_hash (T t)) (i_role i) (seen_by (T t) (rc_db s)) = (Inr u, d) \<Longrightarrow>
    race_step T s (goes t (Committing i u) s
      \<lparr>rc_db := (rc_db s)\<lparr>uuid_count := uuid_count d\<rparr>,
       rc_key := (rc_key s)(pg_lower (rc_db s) (i_email i) := Some t)\<rparr>)"
| cannot_create: "rc_pc s t = Creating i \<Longrightarrow> rc_key s (pg_lower (rc_db s) (i_email i)) = None \<Longrightarrow>
    create_user (i_email i) (rd_name (T t)) (rd_hash (T t)) (i_role i) (seen_by (T t) (rc_db s)) = (Inl e, d) \<Longrightarrow>
    race_step T s (ends t (Refused (if is_unique_violation e then ErrEmailTaken else CreateUser e)) s
      \<lparr>rc_db := (rc_db s)\<lparr>uuid_count := uuid_count d\<rparr>\<rparr>)"
| commits: "rc_pc s t = Committing i u \<Longrightarrow>
    race_step T s (ends t (Redeemed i u) s
      \<lparr>rc_db := (rc_db s)\<lparr>users := users (rc_db s) @ [u],
         invitations := invitations (snd (accept_invitation (i_id i) (seen_by (T t) (rc_db s))))\<rparr>\<rparr>)"
| fails: "running (rc_pc s t) \<Longrightarrow> race_step T s (ends t (Refused e) s)"
| elsewhere: "others_commit s d \<Longrightarrow> race_step T s (s\<lparr>rc_db := d\<rparr>)"

definition race_start :: "pg \<Rightarrow> race" where
  "race_start d = \<lparr>rc_db = d, rc_pc = (\<lambda>_. Reading), rc_row = (\<lambda>_. None), rc_key = (\<lambda>_. None)\<rparr>"

inductive racing :: "(nat \<Rightarrow> redeemer) \<Rightarrow> pg \<Rightarrow> race \<Rightarrow> bool" for T d where
  race_starts: "racing T d (race_start d)"
| race_goes_on: "racing T d s \<Longrightarrow> race_step T s s' \<Longrightarrow> racing T d s'"

lemma goes_simps [simp]:
  "rc_db (goes t pc s) = rc_db s" "rc_pc (goes t pc s) = (rc_pc s)(t := pc)" "rc_row (goes t pc s) = rc_row s"
  "rc_key (goes t pc s) = rc_key s"
  by (simp_all add: goes_def)

lemma ends_simps [simp]:
  "rc_db (ends t pc s) = rc_db s" "rc_pc (ends t pc s) = (rc_pc s)(t := pc)"
  "rc_row (ends t pc s) i = (if rc_row s i = Some t then None else rc_row s i)"
  by (simp_all add: ends_def)

lemma seen_by_simps [simp]:
  "invitations (seen_by t d) = invitations d" "deliveries (seen_by t d) = []" "to_uuid (seen_by t d) = to_uuid d"
  "pg_now (seen_by t d) = rd_began t" "users (seen_by t d) = users d"
  by (simp_all add: seen_by_def)

subsection \<open>What always holds\<close>

definition known :: "(nat \<Rightarrow> redeemer) \<Rightarrow> pg \<Rightarrow> nat \<Rightarrow> invitation \<Rightarrow> bool" where
  "known T d t i \<longleftrightarrow> (\<exists>r \<in> set (invitations d). in_id r = i_id i \<and> in_token_hash r = rd_digest (T t))"

definition open_for :: "(nat \<Rightarrow> redeemer) \<Rightarrow> pg \<Rightarrow> nat \<Rightarrow> invitation \<Rightarrow> bool" where
  "open_for T d t i \<longleftrightarrow>
     (\<exists>r \<in> set (invitations d). in_id r = i_id i \<and> in_accepted_at r = None \<and> rd_began (T t) < in_expires_at r)"

definition spent :: "pg \<Rightarrow> invitation \<Rightarrow> bool" where
  "spent d i \<longleftrightarrow> (\<exists>r \<in> set (invitations d). in_id r = i_id i \<and> in_accepted_at r \<noteq> None)"

text \<open>What a transaction can rely on where it is.\<close>

definition relies :: "(nat \<Rightarrow> redeemer) \<Rightarrow> race \<Rightarrow> nat \<Rightarrow> redeem_pc \<Rightarrow> bool" where
  "relies T s t pc =
     (case pc of
        Stamping i \<Rightarrow> known T (rc_db s) t i
      | Creating i \<Rightarrow> known T (rc_db s) t i \<and> rc_row s (i_id i) = Some t \<and> open_for T (rc_db s) t i
      | Committing i u \<Rightarrow> known T (rc_db s) t i \<and> rc_row s (i_id i) = Some t \<and> open_for T (rc_db s) t i
      | Redeemed i u \<Rightarrow> known T (rc_db s) t i \<and> spent (rc_db s) i
      | _ \<Rightarrow> True)"

definition race_inv :: "(nat \<Rightarrow> redeemer) \<Rightarrow> race \<Rightarrow> bool" where
  "race_inv T s \<longleftrightarrow> race_db_ok (rc_db s) \<and> (\<forall>t. relies T s t (rc_pc s t)) \<and>
     (\<forall>t t' i i' u u'. rc_pc s t = Redeemed i u \<longrightarrow> rc_pc s t' = Redeemed i' u' \<longrightarrow> i_id i = i_id i' \<longrightarrow> t = t')"

lemma not_both: "race_db_ok d \<Longrightarrow> open_for T d t i \<Longrightarrow> spent d i' \<Longrightarrow> i_id i \<noteq> i_id i'"
  unfolding race_db_ok_def open_for_def spent_def by (metis inj_key)

lemma accept_seen:
  assumes "race_db_ok d" and "known T d t i"
  defines "P \<equiv> \<lambda>r. in_id r = i_id i \<and> in_accepted_at r = None \<and> in_expires_at r > rd_began (T t)"
  shows "fst (accept_invitation (i_id i) (seen_by (T t) d)) = Inr (row_count P (invitations d))"
    and "invitations (snd (accept_invitation (i_id i) (seen_by (T t) d))) =
      update_rows P (\<lambda>r. r\<lparr>in_accepted_at := Some (rd_began (T t))\<rparr>) (invitations d)"
proof -
  have "to_uuid d (i_id i) = Some (i_id i)" using assms(1,2) by (auto simp: race_db_ok_def known_def)
  then show "fst (accept_invitation (i_id i) (seen_by (T t) d)) = Inr (row_count P (invitations d))"
    and "invitations (snd (accept_invitation (i_id i) (seen_by (T t) d))) =
      update_rows P (\<lambda>r. r\<lparr>in_accepted_at := Some (rd_began (T t))\<rparr>) (invitations d)"
    by (simp_all add: accept_invitation_def with_uuid_def Let_def P_def)
qed

text \<open>A step of one transaction that changes no invitation.\<close>

lemma race_inv_moves:
  assumes inv: "race_inv T s" and db: "invitations (rc_db s') = invitations (rc_db s)" "to_uuid (rc_db s') = to_uuid (rc_db s)"
    and pc: "rc_pc s' = (rc_pc s)(t := pc)" and mine: "relies T s' t pc" and fresh: "\<And>i u. pc \<noteq> Redeemed i u"
    and rows: "\<And>i t'. rc_row s i = Some t' \<Longrightarrow> t' \<noteq> t \<Longrightarrow> rc_row s' i = Some t'"
  shows "race_inv T s'"
proof -
  have same: "known T (rc_db s') = known T (rc_db s)" "open_for T (rc_db s') = open_for T (rc_db s)"
    "spent (rc_db s') = spent (rc_db s)" "race_db_ok (rc_db s') = race_db_ok (rc_db s)"
    using db by (simp_all add: known_def open_for_def spent_def race_db_ok_def fun_eq_iff)
  have "relies T s' t' (rc_pc s' t')" for t'
  proof (cases "t' = t")
    case False
    moreover have "relies T s t' (rc_pc s t')" using inv by (simp add: race_inv_def)
    ultimately show ?thesis using rows by (auto simp: relies_def pc same split: redeem_pc.splits)
  qed (simp add: pc mine)
  moreover have "race_db_ok (rc_db s')" using inv by (simp add: race_inv_def same)
  moreover have "t1 = t2" if "rc_pc s' t1 = Redeemed i u" "rc_pc s' t2 = Redeemed i' u'" "i_id i = i_id i'" for t1 t2 i i' u u'
    using inv that fresh unfolding race_inv_def by (auto simp: pc split: if_splits)
  ultimately show ?thesis unfolding race_inv_def by blast
qed

lemma race_inv_elsewhere:
  assumes inv: "race_inv T s" and others: "others_commit s d"
  shows "race_inv T (s\<lparr>rc_db := d\<rparr>)"
proof -
  have kept: "\<exists>r' \<in> set (invitations d). in_id r' = in_id r \<and> in_token_hash r' = in_token_hash r \<and>
      (in_accepted_at r \<noteq> None \<longrightarrow> in_accepted_at r' \<noteq> None) \<and> (rc_row s (in_id r) \<noteq> None \<longrightarrow> r' = r)"
    if "r \<in> set (invitations (rc_db s))" for r
    using others that unfolding others_commit_def by blast
  have "known T (rc_db s) t i \<Longrightarrow> known T d t i" for t i using kept unfolding known_def by metis
  moreover have "spent (rc_db s) i \<Longrightarrow> spent d i" for i using kept unfolding spent_def by metis
  moreover have "rc_row s (i_id i) = Some t \<Longrightarrow> open_for T (rc_db s) t i \<Longrightarrow> open_for T d t i" for t i
    using kept unfolding open_for_def by (metis option.distinct(1))
  ultimately have "relies T s t pc \<Longrightarrow> relies T (s\<lparr>rc_db := d\<rparr>) t pc" for t pc
    by (auto simp: relies_def split: redeem_pc.splits)
  moreover have "race_db_ok d" using others by (simp add: others_commit_def)
  ultimately show ?thesis using inv unfolding race_inv_def by simp
qed

lemma race_inv_commits:
  assumes inv: "race_inv T s" and pc: "rc_pc s t = Committing i u"
  defines "d \<equiv> (rc_db s)\<lparr>users := users (rc_db s) @ [u],
    invitations := invitations (snd (accept_invitation (i_id i) (seen_by (T t) (rc_db s))))\<rparr>"
  shows "race_inv T (ends t (Redeemed i u) s\<lparr>rc_db := d\<rparr>)"
proof -
  let ?s = "ends t (Redeemed i u) s\<lparr>rc_db := d\<rparr>"
  let ?P = "\<lambda>r. in_id r = i_id i \<and> in_accepted_at r = None \<and> in_expires_at r > rd_began (T t)"
  let ?f = "\<lambda>r. r\<lparr>in_accepted_at := Some (rd_began (T t))\<rparr>"
  have ok: "race_db_ok (rc_db s)" and "relies T s t (rc_pc s t)" using inv unfolding race_inv_def by blast+
  then have known: "known T (rc_db s) t i" and row: "rc_row s (i_id i) = Some t" and "open": "open_for T (rc_db s) t i"
    by (simp_all add: pc relies_def)
  define g where "g r = (if ?P r then ?f r else r)" for r :: invitation_row
  have g: "in_id (g r) = in_id r" "in_token_hash (g r) = in_token_hash r"
    "in_accepted_at r \<noteq> None \<Longrightarrow> in_accepted_at (g r) \<noteq> None" "in_id r \<noteq> i_id i \<Longrightarrow> g r = r"
    "?P r \<Longrightarrow> in_accepted_at (g r) \<noteq> None" for r
    by (simp_all add: g_def)
  have invs: "invitations d = map g (invitations (rc_db s))"
    by (simp add: d_def accept_seen(2) [OF ok known] update_rows_def g_def)
  then have rows: "set (invitations d) = g ` set (invitations (rc_db s))" by simp
  have "map in_id (invitations d) = map in_id (invitations (rc_db s))"
    "map in_token_hash (invitations d) = map in_token_hash (invitations (rc_db s))" "to_uuid d = to_uuid (rc_db s)"
    by (simp_all add: invs g(1,2)) (simp add: d_def)
  then have "race_db_ok (rc_db ?s)" using ok by (auto simp: race_db_ok_def rows g(1))
  moreover have "relies T ?s t' (rc_pc ?s t')" for t'
  proof -
    have keeps: "known T (rc_db s) t' j \<Longrightarrow> known T d t' j" "spent (rc_db s) j \<Longrightarrow> spent d j" for j
      using g(1,2,3) unfolding known_def spent_def rows by (metis image_eqI)+
    have other: "open_for T d t' j" if "open_for T (rc_db s) t' j" "i_id j \<noteq> i_id i" for j
      using that g(4) unfolding open_for_def rows by (metis image_eqI)
    show ?thesis
    proof (cases "t' = t")
      case True
      have "spent d i" using "open" g(1,5) unfolding open_for_def spent_def rows by (metis image_eqI)
      with True known keeps show ?thesis by (simp add: relies_def)
    next
      case False
      have "relies T s t' (rc_pc s t')" using inv by (simp add: race_inv_def)
      moreover have "i_id j \<noteq> i_id i" if "rc_row s (i_id j) = Some t'" for j using that row False by auto
      ultimately show ?thesis using keeps other False by (auto simp: relies_def split: redeem_pc.splits)
    qed
  qed
  moreover have "t1 = t2" if "rc_pc ?s t1 = Redeemed j v" "rc_pc ?s t2 = Redeemed j' v'" "i_id j = i_id j'" for t1 t2 j j' v v'
  proof -
    have apart: "i_id j \<noteq> i_id i" if "rc_pc s t' = Redeemed j v" for t' j v
    proof -
      have "relies T s t' (rc_pc s t')" using inv by (simp add: race_inv_def)
      then have "spent (rc_db s) j" using that by (simp add: relies_def)
      from not_both [OF ok "open" this] show ?thesis by simp
    qed
    show ?thesis
    proof (cases "t1 = t \<or> t2 = t")
      case True
      with that apart show ?thesis by (auto split: if_splits)
    next
      case False
      with that have "rc_pc s t1 = Redeemed j v" "rc_pc s t2 = Redeemed j' v'" by auto
      with inv that(3) show ?thesis unfolding race_inv_def by blast
    qed
  qed
  ultimately show ?thesis unfolding race_inv_def by blast
qed

lemma race_inv_step: "race_step T s s' \<Longrightarrow> race_inv T s \<Longrightarrow> race_inv T s'"
proof (induction rule: race_step.induct)
  case (reads s t row)
  obtain d' where "get_invitation_by_token_hash (rd_digest (T t)) (seen_by (T t) (rc_db s)) = (Inr row, d')"
    using reads.hyps(2) by (metis prod.collapse)
  from get_invitation_Inr [OF this] have "known T (rc_db s) t (invitation_of row)"
    by (auto simp: known_def invitation_of_def)
  then show ?case
    by (intro race_inv_moves [OF reads.prems, where t = t and pc = "Stamping (invitation_of row)"]) (simp_all add: relies_def)
next
  case (stamps s t i n)
  let ?P = "\<lambda>r. in_id r = i_id i \<and> in_accepted_at r = None \<and> in_expires_at r > rd_began (T t)"
  have ok: "race_db_ok (rc_db s)" and "relies T s t (rc_pc s t)" using stamps.prems unfolding race_inv_def by blast+
  then have known: "known T (rc_db s) t i" by (simp add: stamps.hyps(1) relies_def)
  then have "row_count ?P (invitations (rc_db s)) \<noteq> 0"
    using accept_seen(1) [OF ok known] stamps.hyps(3,4) by simp
  then obtain r where "r \<in> set (invitations (rc_db s))" "?P r" using row_count_zero [of ?P] by blast
  then have "open_for T (rc_db s) t i" unfolding open_for_def by blast
  with known show ?case
    by (intro race_inv_moves [OF stamps.prems, where t = t and pc = "Creating i"])
      (auto simp: relies_def stamps.hyps(2))
next
  case (creates s t i u d)
  have "relies T s t (rc_pc s t)" using creates.prems unfolding race_inv_def by blast
  then show ?case
    by (intro race_inv_moves [OF creates.prems, where t = t and pc = "Committing i u"])
      (auto simp: relies_def creates.hyps(1) known_def open_for_def)
next
  case (commits s t i u)
  then show ?case by (intro race_inv_commits) simp_all
next
  case (elsewhere s d)
  then show ?case by (intro race_inv_elsewhere)
next
  case (not_usable s t r)
  show ?case by (rule race_inv_moves [OF not_usable.prems]) (auto simp: relies_def)
next
  case (too_late s t i r)
  show ?case by (rule race_inv_moves [OF too_late.prems]) (auto simp: relies_def)
next
  case (cannot_create s t i e d)
  show ?case by (rule race_inv_moves [OF cannot_create.prems]) (auto simp: relies_def)
next
  case (fails s t e)
  show ?case by (rule race_inv_moves [OF fails.prems]) (auto simp: relies_def)
qed

lemma racing_inv: "racing T d s \<Longrightarrow> race_db_ok d \<Longrightarrow> race_inv T s"
proof (induction rule: racing.induct)
  case race_starts
  then show ?case by (simp add: race_inv_def race_start_def relies_def)
qed (blast intro: race_inv_step)

text \<open>
  C15: The link is single-use, also under clicks that arrive together.  However many redemptions run at
  once, statement by statement in any order, with any of them failing anywhere and other transactions
  committing in between: of those that present one token at most one creates an account, and the
  invitation it was created for is spent.
\<close>

theorem one_of_many_clicks_redeems:
  assumes "racing T d s" and "race_db_ok d"
    and "rc_pc s t = Redeemed i u" and "rc_pc s t' = Redeemed i' u'" and "rd_digest (T t) = rd_digest (T t')"
  shows "t = t' \<and> spent (rc_db s) i"
proof -
  have inv: "race_inv T s" by (rule racing_inv [OF assms(1,2)])
  then have rel: "relies T s t (rc_pc s t)" "relies T s t' (rc_pc s t')" and ok: "race_db_ok (rc_db s)"
    unfolding race_inv_def by blast+
  have facts: "known T (rc_db s) t i" "known T (rc_db s) t' i'" "spent (rc_db s) i"
    using rel by (simp_all add: relies_def assms(3,4))
  have "i_id i = i_id i'"
    using facts(1,2) ok assms(5) unfolding known_def race_db_ok_def by (metis inj_key)
  with inv assms(3,4) have "t = t'" unfolding race_inv_def by blast
  with facts(3) show ?thesis by simp
qed

subsection \<open>A redemption that has the database to itself\<close>

lemma get_seen: "snd (get_invitation_by_token_hash h (seen_by r d)) = seen_by r d"
  by (simp add: get_invitation_by_token_hash_def)

lemma accept_frame:
  "users (snd (accept_invitation i (seen_by r d))) = users d"
  "snd (accept_invitation i (seen_by r d)) =
     (seen_by r d)\<lparr>invitations := invitations (snd (accept_invitation i (seen_by r d)))\<rparr>"
  "accept_invitation i (seen_by r (d\<lparr>uuid_count := n\<rparr>)) =
     map_prod id (\<lambda>x. x\<lparr>uuid_count := n\<rparr>) (accept_invitation i (seen_by r d))"
  by (simp_all add: accept_invitation_def with_uuid_def Let_def seen_by_def split: option.split)

lemma create_frame:
  assumes "deliveries d = []"
  shows "create_user e n h r (d\<lparr>invitations := invs\<rparr>) =
      map_prod id (\<lambda>x. x\<lparr>invitations := invs\<rparr>) (create_user e n h r d)"
    and "create_user e n h r d = (Inr u, d') \<Longrightarrow> users d' = users d @ [u]"
  using assms by (auto simp: create_user_def Let_def next_uuid_def users_live_def split: if_splits)

lemma redeemed_in_steps:
  assumes "rc_pc s t = Reading" and "\<And>i. rc_row s i = None" and "\<And>k. rc_key s k = None"
    and get: "get_invitation_by_token_hash (rd_digest (T t)) (seen_by (T t) (rc_db s)) = (Inr row, seen_by (T t) (rc_db s))"
    and usable: "invitation_is_usable (invitation_of row) (rd_clock (T t))"
    and acc: "accept_invitation (i_id (invitation_of row)) (seen_by (T t) (rc_db s)) =
      (Inr n, (seen_by (T t) (rc_db s))\<lparr>invitations := invs\<rparr>)" and "n \<noteq> 0"
    and cu: "create_user (i_email (invitation_of row)) (rd_name (T t)) (rd_hash (T t)) (i_role (invitation_of row))
      (seen_by (T t) (rc_db s)) = (Inr u, d1)"
  shows "\<exists>s'. (race_step T)\<^sup>*\<^sup>* s s' \<and> rc_pc s' t = Redeemed (invitation_of row) u \<and>
    users (rc_db s') = users (rc_db s) @ [u] \<and> invitations (rc_db s') = invs"
proof -
  let ?i = "invitation_of row"
  let ?s1 = "goes t (Stamping ?i) s"
  have step1: "race_step T s ?s1" using assms(1) usable by (intro race_step.reads) (simp_all add: get)
  let ?s2 = "goes t (Creating ?i) ?s1\<lparr>rc_row := (rc_row ?s1)(i_id ?i := Some t)\<rparr>"
  have step2: "race_step T ?s1 ?s2" using assms(2,7) by (intro race_step.stamps) (auto simp: acc)
  let ?s3 = "goes t (Committing ?i u) ?s2\<lparr>rc_db := (rc_db ?s2)\<lparr>uuid_count := uuid_count d1\<rparr>,
    rc_key := (rc_key ?s2)(pg_lower (rc_db ?s2) (i_email ?i) := Some t)\<rparr>"
  have step3: "race_step T ?s2 ?s3" using cu assms(3) by (intro race_step.creates) (auto simp: goes_def)
  let ?s4 = "ends t (Redeemed ?i u) ?s3\<lparr>rc_db := (rc_db ?s3)\<lparr>users := users (rc_db ?s3) @ [u],
    invitations := invitations (snd (accept_invitation (i_id ?i) (seen_by (T t) (rc_db ?s3))))\<rparr>\<rparr>"
  have "race_step T ?s3 ?s4" by (rule race_step.commits) simp
  then have "(race_step T)\<^sup>*\<^sup>* s ?s4"
    using step1 step2 step3 by (meson converse_rtranclp_into_rtranclp r_into_rtranclp)
  then show ?thesis by (intro exI [of _ ?s4]) (simp add: accept_frame(3) acc)
qed

text \<open>
  The steps are those of the code.  From any state in which no other redemption holds a lock, a
  redemption that takes its steps in a row ends as the body of the transaction says: with the same error
  and nothing changed, or with the same account, added to the accounts, and the same invitations.
\<close>

theorem alone_redeems_as_the_body:
  fixes r :: "string invitations_error + user_row"
  assumes "rc_pc s t = Reading" and "\<And>i. rc_row s i = None" and "\<And>k. rc_key s k = None"
    and "accept_body pg_tx_store (rd_digest (T t)) (rd_name (T t)) (rd_hash (T t)) (rd_clock (T t))
      (seen_by (T t) (rc_db s)) = (r, d')"
  shows "\<exists>s'. (race_step T)\<^sup>*\<^sup>* s s' \<and>
    (case r of
       Inl e \<Rightarrow> rc_pc s' t = Refused e \<and> users (rc_db s') = users (rc_db s) \<and> invitations (rc_db s') = invitations (rc_db s)
     | Inr u \<Rightarrow> (\<exists>i. rc_pc s' t = Redeemed i u) \<and> users (rc_db s') = users d' \<and> invitations (rc_db s') = invitations d')"
proof -
  let ?d = "seen_by (T t) (rc_db s)"
  let ?get = "get_invitation_by_token_hash (rd_digest (T t)) ?d"
  obtain g where get: "?get = (g, ?d)" using get_seen by (metis prod.collapse)
  show ?thesis
  proof (cases "\<exists>row. g = Inr row \<and> invitation_is_usable (invitation_of row) (rd_clock (T t))")
    case False
    let ?e = "case g of Inl e \<Rightarrow> if e = NoRows then ErrInvitationNotUsable else GetInvitation e
      | Inr _ \<Rightarrow> ErrInvitationNotUsable"
    have "r = Inl ?e"
      using assms(4) False by (auto simp: accept_body_def get Let_def split: sum.splits)
    moreover have "race_step T s (ends t (Refused ?e) s)"
      using False assms(1) by (intro race_step.not_usable) (auto simp: get)
    ultimately show ?thesis by (intro exI [of _ "ends t (Refused ?e) s"]) (simp add: r_into_rtranclp)
  next
    case True
    then obtain row where row: "g = Inr row" "invitation_is_usable (invitation_of row) (rd_clock (T t))" by blast
    let ?i = "invitation_of row"
    let ?acc = "accept_invitation (i_id ?i) ?d"
    obtain a invs where acc: "?acc = (a, ?d\<lparr>invitations := invs\<rparr>)" using accept_frame(2) by (metis prod.collapse)
    let ?s1 = "goes t (Stamping ?i) s"
    have step1: "race_step T s ?s1" using assms(1) row by (intro race_step.reads) (simp_all add: get)
    show ?thesis
    proof (cases "\<exists>n. a = Inr n \<and> n \<noteq> 0")
      case False
      let ?e = "case a of Inl e \<Rightarrow> AcceptInvitation e | Inr _ \<Rightarrow> ErrInvitationNotUsable"
      have "r = Inl ?e"
        using assms(4) False by (auto simp: accept_body_def get row acc Let_def split: sum.splits prod.splits)
      moreover have "race_step T ?s1 (ends t (Refused ?e) ?s1)"
        using False assms(2) by (intro race_step.too_late [where i = ?i]) (auto simp: acc)
      with step1 have "(race_step T)\<^sup>*\<^sup>* s (ends t (Refused ?e) ?s1)"
        by (meson converse_rtranclp_into_rtranclp r_into_rtranclp)
      ultimately show ?thesis by (intro exI [of _ "ends t (Refused ?e) ?s1"]) simp
    next
      case True
      then obtain n where n: "a = Inr n" "n \<noteq> 0" by blast
      let ?s2 = "goes t (Creating ?i) ?s1\<lparr>rc_row := (rc_row ?s1)(i_id ?i := Some t)\<rparr>"
      have step2: "race_step T ?s1 ?s2" using n assms(2) by (intro race_step.stamps) (auto simp: acc)
      obtain cu d1 where cu: "create_user (i_email ?i) (rd_name (T t)) (rd_hash (T t)) (i_role ?i) ?d = (cu, d1)" by fastforce
      have body: "(r, d') = (map_sum (\<lambda>e. if is_unique_violation e then ErrEmailTaken else CreateUser e) id cu,
          d1\<lparr>invitations := invs\<rparr>)"
        using assms(4) n create_frame(1) [of ?d "i_email ?i" "rd_name (T t)" "rd_hash (T t)" "i_role ?i" invs]
        by (cases cu) (auto simp: accept_body_def Let_def get row acc cu)
      show ?thesis
      proof (cases cu)
        case (Inl e)
        let ?s3 = "ends t (Refused (if is_unique_violation e then ErrEmailTaken else CreateUser e)) ?s2
          \<lparr>rc_db := (rc_db ?s2)\<lparr>uuid_count := uuid_count d1\<rparr>\<rparr>"
        have "race_step T ?s2 ?s3" using cu Inl assms(3) by (intro race_step.cannot_create [where i = ?i]) auto
        then have "(race_step T)\<^sup>*\<^sup>* s ?s3" using step1 step2 by (meson converse_rtranclp_into_rtranclp r_into_rtranclp)
        then show ?thesis using body Inl by (intro exI [of _ ?s3]) auto
      next
        case (Inr u)
        from redeemed_in_steps [where T = T and s = s and t = t, OF assms(1-3) get [unfolded row(1)] row(2) acc [unfolded n(1)] n(2) cu [unfolded Inr]]
        obtain s' where "(race_step T)\<^sup>*\<^sup>* s s'" "rc_pc s' t = Redeemed ?i u" "users (rc_db s') = users (rc_db s) @ [u]"
          "invitations (rc_db s') = invs"
          by blast
        moreover have "users d1 = users (rc_db s) @ [u]" using create_frame(2) [OF _ cu [unfolded Inr]] by simp
        ultimately show ?thesis using body Inr by (intro exI [of _ s']) auto
      qed
    qed
  qed
qed

subsection \<open>Samples\<close>

lemma racing_steps: "(race_step T)\<^sup>*\<^sup>* s s' \<Longrightarrow> racing T d s \<Longrightarrow> racing T d s'"
  by (induction rule: rtranclp_induct) (blast intro: race_goes_on)+

definition sample_click :: redeemer where
  "sample_click = \<lparr>rd_digest = replicate 32 7, rd_name = ''Budi'', rd_hash = ''h'', rd_clock = 5, rd_began = 0\<rparr>"

abbreviation sample_seen :: pg where
  "sample_seen \<equiv> seen_by sample_click sample_invited"

lemmas sample_click_defs = sample_click_def seen_by_def sample_invited_def sample_accounts_def sample_account_def
  sample_invitation_def invitation_of_def

lemma sample_click_steps:
  "get_invitation_by_token_hash (rd_digest sample_click) sample_seen = (Inr sample_invitation, sample_seen)"
  "invitation_is_usable (invitation_of sample_invitation) (rd_clock sample_click)"
  "accept_invitation (i_id (invitation_of sample_invitation)) sample_seen =
     (Inr 1, sample_seen\<lparr>invitations := [sample_invitation\<lparr>in_accepted_at := Some 0\<rparr>]\<rparr>)"
  "\<exists>u d. create_user (i_email (invitation_of sample_invitation)) (rd_name sample_click) (rd_hash sample_click)
     (i_role (invitation_of sample_invitation)) sample_seen = (Inr u, d)"
  by (simp_all add: sample_click_defs get_invitation_by_token_hash_def find_row_def accept_invitation_def
      with_uuid_def Let_def row_count_def update_rows_def invitation_is_usable_def invitation_is_accepted_def invitation_is_expired_def
      create_user_def not_blank_def account_roles_def next_uuid_def users_live_def)

lemma sample_race_ok: "race_db_ok sample_invited"
  by (simp add: race_db_ok_def sample_click_defs)

lemma one_of_many_clicks_redeems_witness:
  "\<exists>s i u. racing (\<lambda>_. sample_click) sample_invited s \<and> rc_pc s 0 = Redeemed i u \<and> spent (rc_db s) i \<and>
     (\<forall>t i' u'. rc_pc s t = Redeemed i' u' \<longrightarrow> t = 0)"
proof -
  obtain u d where "create_user (i_email (invitation_of sample_invitation)) (rd_name sample_click) (rd_hash sample_click)
     (i_role (invitation_of sample_invitation)) sample_seen = (Inr u, d)"
    using sample_click_steps(4) by blast
  with sample_click_steps(1-3)
  obtain s where "(race_step (\<lambda>_. sample_click))\<^sup>*\<^sup>* (race_start sample_invited) s"
    and pc: "rc_pc s 0 = Redeemed (invitation_of sample_invitation) u"
    using redeemed_in_steps [where T = "\<lambda>_. sample_click" and s = "race_start sample_invited" and t = 0]
    by (simp add: race_start_def) blast
  then have racing: "racing (\<lambda>_. sample_click) sample_invited s" by (blast intro: racing_steps race_starts)
  from one_of_many_clicks_redeems [OF racing sample_race_ok pc] pc racing show ?thesis by blast
qed

lemma alone_redeems_as_the_body_witness:
  "\<exists>s u. (race_step (\<lambda>_. sample_click))\<^sup>*\<^sup>* (race_start sample_invited) s
     \<and> (\<exists>i. rc_pc s 3 = Redeemed i u) \<and> map u_email (users (rc_db s)) = [''ana@example.com'', ''budi@example.com'']
     \<and> map in_accepted_at (invitations (rc_db s)) = [Some 0]"
proof -
  have "\<exists>u d. accept_body pg_tx_store (rd_digest sample_click) (rd_name sample_click) (rd_hash sample_click)
      (rd_clock sample_click) sample_seen = (Inr u :: string invitations_error + user_row, d)
    \<and> map u_email (users d) = [''ana@example.com'', ''budi@example.com''] \<and> map in_accepted_at (invitations d) = [Some 0]"
    unfolding accept_body_def
    by (simp add: sample_click_steps(1-3)) (simp add: sample_click_defs create_user_def not_blank_def account_roles_def next_uuid_def users_live_def Let_def)
  then obtain u d where body: "accept_body pg_tx_store (rd_digest sample_click) (rd_name sample_click) (rd_hash sample_click)
      (rd_clock sample_click) (seen_by sample_click (rc_db (race_start sample_invited)))
        = (Inr u :: string invitations_error + user_row, d)"
    and d: "map u_email (users d) = [''ana@example.com'', ''budi@example.com'']" "map in_accepted_at (invitations d) = [Some 0]"
    by (auto simp: race_start_def)
  from alone_redeems_as_the_body [where T = "\<lambda>_. sample_click" and t = 3, OF _ _ _ body] d
  show ?thesis by (fastforce simp: race_start_def)
qed

end
