(* ===== verification/Spec2Isabelle.thy ===== *)
theory Spec2Isabelle
  imports Main Prelude Fracdex_Between Fracdex_Depth Authz Domain Password Failure_Counter Sessions_Properties
    Login_Guard_Properties Api_Samples Smtp Middleware Api_Wire Server Migrations Startup Redeeming_Race
begin

text \<open>
  A development beside the backend of the project management application (\<open>src/backend\<close>, in Go).

  \<^bold>\<open>The program.\<close>  One process, \<open>cmd/api\<close>, reads its configuration from the environment, opens a pool to
  PostgreSQL and a client to Redis, and serves an HTTP interface.  A request passes a chain of middleware
  (identifier, log, recovery from panics, CSRF check), is matched to a route, perhaps limited in rate and
  asked for a session, and reaches a handler.  Handlers call the identity services (sessions, login guard,
  credentials, invitations, password resets), which work on entities of the domain and reach PostgreSQL
  through generated queries, in transactions where several rows change together, Redis through two Lua
  scripts each for the limiter and the failure counter, and a mail server over SMTP.  Two packages stand
  beside this: order keys for rows sorted by hand (\<open>fracdex\<close>) and permissions (\<open>authz\<close>).  A second
  program, \<open>cmd/migrate\<close>, applies the migrations.

  \<^bold>\<open>Where what is.\<close>
  \<^item> \<open>Prelude\<close>, \<open>GoText\<close>, \<open>GoTime\<close>, \<open>Base64\<close>: results, the byte order on strings, and the functions of
    Go's standard library that the code calls on text, times and base64.
  \<^item> \<open>Fracdex\<close> has \<open>internal/fracdex/fracdex.go\<close>; \<open>Fracdex_Order\<close>, \<open>Fracdex_Integer\<close>, \<open>Fracdex_Between\<close>
    and \<open>Fracdex_Depth\<close> prove it: a key strictly between any two, every error and when it comes, lists of
    rows that stay in order (locale \<open>order_keys\<close>), how deep the recursion goes.
  \<^item> \<open>Authz\<close> has \<open>internal/authz\<close>: roles, the table of permissions, scopes, and that a decision needs both
    the role and the scope.
  \<^item> \<open>Domain\<close> and \<open>Password\<close> have \<open>internal/modules/identity/domain\<close>: tokens, sessions, invitations,
    resets; hashing, verifying and the limits on what a stored hash may cost.
  \<^item> \<open>Redis\<close> has \<open>internal/redis\<close>; \<open>Redis_Db\<close> is the database its scripts run on (locale \<open>redis_server\<close>),
    \<open>Redis_Cells\<close> and \<open>Redis_Limits\<close> relate a pair of keys to the log of its hits; \<open>Rate_Limiter\<close> and
    \<open>Failure_Counter\<close> prove runs of the two clients against that log, with other users of the server in
    between.
  \<^item> \<open>Repository\<close> has \<open>internal/modules/identity/repository\<close> over four tables, and \<open>inTx\<close> of \<open>cmd/api\<close>;
    \<open>Repository_Facts\<close> the schema's invariant, \<open>Transactions\<close> that a transaction leaves all or nothing.
    A statement may fail to arrive or lose its reply; a run is given the list of what will happen.
  \<^item> \<open>Sessions\<close>, \<open>Login_Guard\<close>, \<open>Credentials\<close>, \<open>Invitations\<close>, \<open>Password_Resets\<close> have
    \<open>internal/modules/identity/service\<close>, each over the interfaces the code declares as records of
    operations; the \<open>..._Properties\<close> theories instantiate them with the repository and with Redis (locales
    \<open>session_contract\<close>, \<open>account_directory\<close>, \<open>guarded_counters\<close>, \<open>redis_guard\<close>) and prove what they promise.
    \<open>Redeeming_Race\<close> has the transaction of \<open>Accept\<close> statement by statement, any number at once: the single
    use of a link rests on the row lock of its \<open>UPDATE\<close>, not on the order of the calls.
  \<^item> \<open>Client_Ip\<close> and \<open>Http\<close> have \<open>internal/httpx\<close>: whom a request is attributed to, the CSRF check, the rate
    limit, the error answers, the probes.  \<open>Middleware\<close> has the chain down to the \<open>ResponseWriter\<close>: the
    recorder, the request log, the recovery (locale \<open>answering_writer\<close>, interpreted on \<open>net/http\<close>'s).
    \<open>Server\<close> has \<open>Serve\<close> as two threads and the world around them.
  \<^item> \<open>Api\<close> has \<open>internal/modules/identity/handler\<close> and \<open>route\<close>, the limits of \<open>cmd/api\<close> and \<open>apiHandler\<close>;
    \<open>Api_Invariants\<close> says once what a predicate on the repository must be kept by to be kept by every
    request (five locales); \<open>Api_Properties\<close>, \<open>Api_Logins\<close> and \<open>Api_Wire\<close> have the properties of whole
    requests and of runs of them; \<open>Api_Samples\<close> a small application on which they are used.
  \<^item> \<open>Config\<close> has \<open>internal/config\<close>; \<open>Mail\<close>, \<open>Mail_Properties\<close> and \<open>Smtp\<close> have \<open>internal/mail\<close>.
  \<^item> \<open>Migrations\<close> has \<open>internal/postgres/migrate.go\<close> as calls in any number of processes; \<open>Startup\<close> has
    \<open>run\<close> of both programs and \<open>internal/postgres/pool.go\<close>.

  \<^bold>\<open>How it corresponds.\<close>  A Go function is a function of the same name, with capitals as underscores where
  both exist; a struct is a record, an enumeration a datatype, an error a value of a sum type with one
  constructor per return of the code.  State is passed: a service operation takes the state of its store
  and gives it back.  The clock and what \<open>crypto/rand\<close> gives are arguments.  Machine integers that may
  wrap are words or have their bounds written out; times are whole nanoseconds.  Where the order of steps of
  several threads matters (\<open>Server\<close>, \<open>Migrations\<close>, \<open>Redeeming_Race\<close>) the model is a step relation with its reachable states;
  elsewhere an operation on PostgreSQL or a script on Redis is one step, which both guarantee, and runs
  of the limiter, the counter, the guard and the interface are inductive relations over them.

  \<^bold>\<open>What is a parameter.\<close>  Argon2id, SHA-256, Unicode normalisation and lower case, the parsers of
  \<open>net/url\<close>, \<open>net/mail\<close> and \<open>net/netip\<close>, the JSON decoder, the quoted-printable writer, pgx, go-redis,
  goose and the servers themselves.  What the code relies on of them is a named hypothesis
  (\<open>argon2_documented\<close>, \<open>mail_lib_documented\<close>, the locale \<open>redis_server\<close>) or, for the Redis data types, the
  SQL statements under their constraints and \<open>net/http\<close>'s writer and \<open>Shutdown\<close>, written out from
  their documentation.  Each is instantiated in a witness.

  \<^bold>\<open>Recursion and bounds.\<close>  Everything executable terminates and is total; the measures are the length of
  what is left.  \<open>midpoint_within\<close> runs \<open>midpoint\<close> on a bounded stack and shows a depth linear in the
  length of the keys to be enough.  \<open>steps_left\<close> bounds what \<open>Serve\<close> still has to do by five.

  \<^bold>\<open>Not modelled.\<close>  What is written to the log, other than by the request log and the recovery; the
  formatting of JSON; sockets, timeouts of the network and contexts, which appear as the errors they end
  in; \<open>UseLogger\<close>, which hands go-redis a logger; the interfaces \<open>DBTX\<close> and \<open>Querier\<close>, which the generated
  code only declares; \<open>db/assets.go\<close>, which embeds files; the text of the migrations other than the
  constraints of the four tables of the identity module (no Go code reads the other tables yet); transactions
  that overlap, other than the redemptions of \<open>Redeeming_Race\<close>: elsewhere each runs by itself; the
  loss, in the middle of a migration, of the connection that holds the advisory lock.  The frontend is
  another program.
\<close>

end
